(* ===== verification/GoPrelude.thy ===== *)
theory GoPrelude
  imports Complex_Main "HOL-Library.Word" "HOL-Library.Sublist" "HOL-Library.AList"
begin

text \<open>
  The shared vocabulary of the development.

  A Go function that can fail returns a pair of a value and an \<^verbatim>\<open>error\<close>, and it can also panic, which
  ends the whole process because no goroutine of the program recovers. The type \<open>go_result\<close> has one
  constructor for each of the three outcomes; \<open>Panic\<close> also stands for a call that never returns. A Go \<^verbatim>\<open>error\<close> is one of the concrete kinds the program
  creates or tests for with \<^verbatim>\<open>errors.Is\<close> and \<^verbatim>\<open>errors.As\<close>: a RESP simple error (\<^verbatim>\<open>resp.SimpleError\<close>), a
  protocol error (\<^verbatim>\<open>server.ProtocolError\<close>), an error wrapped with \<^verbatim>\<open>%w\<close>, an I/O error, a number that does
  not parse, or a plain text.

  Strings are byte sequences, as Go strings are: the type \<open>string\<close> of HOL is a list of characters of eight
  bits each. Signed machine integers are \<open>int\<close>; where the code can overflow, \<open>wrap64\<close> is applied.

  The record \<open>golib\<close> holds the functions of Go's standard library whose tables or rounding algorithms are
  not part of this repository: the Unicode case mappings (used only for strings that are not ASCII), the
  conversions between decimal text and floating point numbers, the transcendental functions, and the result
  of converting a float that is out of range to an unsigned integer, which Go leaves to the implementation. Every definition that uses one takes the
  record as an argument, so the theorems hold for every choice of these functions.
\<close>

subsection \<open>Outcomes and errors\<close>

datatype io_error = EOF | UnexpectedEOF | IoFailure string

datatype go_error =
    ESimple string string
  | EProtocol go_error
  | EWrap string go_error
  | EIo io_error
  | ENum string
  | EText string

datatype 'a go_result = Ret 'a | Err go_error | Panic

primrec bind_go :: "'a go_result \<Rightarrow> ('a \<Rightarrow> 'b go_result) \<Rightarrow> 'b go_result" where
  "bind_go (Ret x) f = f x"
| "bind_go (Err e) f = Err e"
| "bind_go Panic f = Panic"

text \<open>\<^verbatim>\<open>errors.Is(err, io.EOF)\<close> follows the chain of wrapped errors.\<close>

primrec is_EOF :: "go_error \<Rightarrow> bool" where
  "is_EOF (ESimple t m) = False"
| "is_EOF (EProtocol e) = is_EOF e"
| "is_EOF (EWrap s e) = is_EOF e"
| "is_EOF (EIo i) = (i = EOF)"
| "is_EOF (ENum s) = False"
| "is_EOF (EText s) = False"

text \<open>\<^verbatim>\<open>errors.As(err, &clientErr)\<close> with a target of type \<^verbatim>\<open>*resp.SimpleError\<close>, and with a target of type
  \<^verbatim>\<open>*ProtocolError\<close>.\<close>

primrec as_SimpleError :: "go_error \<Rightarrow> (string \<times> string) option" where
  "as_SimpleError (ESimple t m) = Some (t, m)"
| "as_SimpleError (EProtocol e) = as_SimpleError e"
| "as_SimpleError (EWrap s e) = as_SimpleError e"
| "as_SimpleError (EIo i) = None"
| "as_SimpleError (ENum s) = None"
| "as_SimpleError (EText s) = None"

primrec as_ProtocolError :: "go_error \<Rightarrow> go_error option" where
  "as_ProtocolError (ESimple t m) = None"
| "as_ProtocolError (EProtocol e) = Some e"
| "as_ProtocolError (EWrap s e) = as_ProtocolError e"
| "as_ProtocolError (EIo i) = None"
| "as_ProtocolError (ENum s) = None"
| "as_ProtocolError (EText s) = None"

subsection \<open>The part of the standard library that is a parameter\<close>

type_synonym f64 = "64 word"

record golib =
  UniLower :: "string \<Rightarrow> string"
  UniUpper :: "string \<Rightarrow> string"
  UniFields :: "string \<Rightarrow> string list"
  UniFold :: "string \<Rightarrow> string \<Rightarrow> bool"
  NumErrorText :: "string \<Rightarrow> string"
  ParseFloat64 :: "string \<Rightarrow> f64 option"
  ParseFloat32 :: "string \<Rightarrow> f64 option"
  FormatFloat :: "f64 \<Rightarrow> string"
  FormatFixed :: "f64 \<Rightarrow> string"
  MathCos :: "f64 \<Rightarrow> f64"
  MathAsin :: "f64 \<Rightarrow> f64"
  MathSqrt :: "f64 \<Rightarrow> f64"
  ConvUint :: "nat \<Rightarrow> f64 \<Rightarrow> int"

text \<open>The text of an error, as its \<^verbatim>\<open>Error()\<close> method gives it.\<close>

primrec io_text :: "io_error \<Rightarrow> string" where
  "io_text EOF = ''EOF''"
| "io_text UnexpectedEOF = ''unexpected EOF''"
| "io_text (IoFailure s) = s"

primrec error_text :: "golib \<Rightarrow> go_error \<Rightarrow> string" where
  "error_text lib (ESimple t m) = t @ '': '' @ m"
| "error_text lib (EProtocol e) = ''Protocol error: '' @ error_text lib e"
| "error_text lib (EWrap s e) = s @ error_text lib e"
| "error_text lib (EIo i) = io_text i"
| "error_text lib (ENum s) = NumErrorText lib s"
| "error_text lib (EText s) = s"

subsection \<open>Machine integers\<close>

definition wrap64 :: "int \<Rightarrow> int" where
  "wrap64 x = (x + 2 ^ 63) mod 2 ^ 64 - 2 ^ 63"

definition max_int64 :: int where
  "max_int64 = 2 ^ 63 - 1"

definition min_int64 :: int where
  "min_int64 = - (2 ^ 63)"

lemma wrap64_id [simp]: "min_int64 \<le> x \<Longrightarrow> x \<le> max_int64 \<Longrightarrow> wrap64 x = x"
  by (simp add: wrap64_def min_int64_def max_int64_def)

lemma wrap64_range: "min_int64 \<le> wrap64 x \<and> wrap64 x \<le> max_int64"
proof -
  have "0 \<le> (x + 2 ^ 63) mod 2 ^ 64" and "(x + 2 ^ 63) mod 2 ^ 64 < 2 ^ 64"
    by simp_all
  then show ?thesis
    by (simp add: wrap64_def min_int64_def max_int64_def)
qed

lemma nat_int_Suc [simp]: "nat (1 + int m) = Suc m" "nat (int m + 1) = Suc m"
  by simp_all

subsection \<open>Proof automation shared by the components\<close>

named_theorems go_simps \<open>unfolding of the result monad and of small helpers\<close>
named_theorems inv_intros \<open>preservation of a component invariant by an operation\<close>
named_theorems marshal_simps \<open>the wire format of each reply\<close>

lemma bind_go_Ret_iff [go_simps]: "bind_go m f = Ret y \<longleftrightarrow> (\<exists>x. m = Ret x \<and> f x = Ret y)"
  by (cases m) auto

lemma bind_go_Panic_iff [go_simps]:
  "bind_go m f = Panic \<longleftrightarrow> m = Panic \<or> (\<exists>x. m = Ret x \<and> f x = Panic)"
  by (cases m) auto

lemma bind_go_Err_iff [go_simps]:
  "bind_go m f = Err e \<longleftrightarrow> m = Err e \<or> (\<exists>x. m = Ret x \<and> f x = Err e)"
  by (cases m) auto

lemma bind_go_assoc: "bind_go (bind_go m f) g = bind_go m (\<lambda>x. bind_go (f x) g)"
  by (cases m) auto

subsection \<open>Go maps\<close>

text \<open>A Go map is an association list with distinct keys: \<open>map_of m k\<close> is \<^verbatim>\<open>m[k]\<close>, \<open>gm_set\<close> the assignment
  \<^verbatim>\<open>m[k] = v\<close>, \<open>gm_del\<close> is \<^verbatim>\<open>delete(m, k)\<close> and \<open>length m\<close> is \<^verbatim>\<open>len(m)\<close>. The order of iteration is not specified in
  Go, so an operation that ranges over a map takes the order as an argument.\<close>

type_synonym ('k, 'v) gomap = "('k \<times> 'v) list"

abbreviation gm_set :: "'k \<Rightarrow> 'v \<Rightarrow> ('k, 'v) gomap \<Rightarrow> ('k, 'v) gomap" where
  "gm_set \<equiv> AList.update"

abbreviation gm_del :: "'k \<Rightarrow> ('k, 'v) gomap \<Rightarrow> ('k, 'v) gomap" where
  "gm_del \<equiv> AList.delete"

definition gm_ok :: "('k, 'v) gomap \<Rightarrow> bool" where
  "gm_ok m \<longleftrightarrow> distinct (map fst m)"

lemma gm_ok_empty [simp]: "gm_ok []"
  by (simp add: gm_ok_def)

lemma gm_ok_set [simp]: "gm_ok m \<Longrightarrow> gm_ok (gm_set k v m)"
  by (simp add: gm_ok_def distinct_update)

lemma gm_ok_del [simp]: "gm_ok m \<Longrightarrow> gm_ok (gm_del k m)"
  by (simp add: gm_ok_def distinct_delete)

lemma map_of_gm_set [simp]: "map_of (gm_set k v m) = (map_of m)(k \<mapsto> v)"
  by (rule update_conv')

lemma map_of_gm_del [simp]: "map_of (gm_del k m) = (map_of m)(k := None)"
  by (rule delete_conv')

lemma gm_length: "gm_ok m \<Longrightarrow> length m = card (dom (map_of m))"
  by (metis gm_ok_def distinct_card dom_map_of_conv_image_fst length_map set_map)

subsection \<open>Lists\<close>

text \<open>\<^verbatim>\<open>slices.Delete(xs, i, i+1)\<close>, and \<^verbatim>\<open>slices.Index\<close> as an optional position.\<close>

definition delete_at :: "nat \<Rightarrow> 'a list \<Rightarrow> 'a list" where
  "delete_at i xs = take i xs @ drop (Suc i) xs"

fun index_of :: "'a \<Rightarrow> 'a list \<Rightarrow> nat option" where
  "index_of x [] = None"
| "index_of x (y # ys) = (if y = x then Some 0 else map_option Suc (index_of x ys))"

lemma index_of_None [simp]: "index_of x xs = None \<longleftrightarrow> x \<notin> set xs"
  by (induction xs) auto

lemma index_of_SomeD: "index_of x xs = Some i \<Longrightarrow> i < length xs \<and> xs ! i = x"
  by (induction xs arbitrary: i) (auto split: if_splits)

lemma delete_at_index_of:
  "index_of x xs = Some i \<Longrightarrow> delete_at i xs = remove1 x xs"
proof (induction xs arbitrary: i)
  case Nil
  then show ?case by simp
next
  case (Cons y ys)
  show ?case
  proof (cases "y = x")
    case True
    with Cons.prems show ?thesis by (simp add: delete_at_def)
  next
    case False
    with Cons.prems obtain j where j: "index_of x ys = Some j" "i = Suc j"
      by auto
    with Cons.IH [OF j(1)] False show ?thesis
      by (simp add: delete_at_def)
  qed
qed

end
