(* ===== verification/Float64.thy ===== *)
theory Float64
  imports GoPrelude
begin

text \<open>
  Go's \<^verbatim>\<open>float64\<close> as its IEEE 754 bit pattern. Comparison reads the pattern as sign and magnitude: the
  patterns of the finite and infinite values are ordered like the integers \<open>f64_key\<close>, both zeros have the
  key 0, and a comparison with a NaN is false. On the values that are not NaN the order is the linear order of
  the keys.
\<close>

unbundle bit_operations_syntax

definition f64_mag :: "f64 \<Rightarrow> int" where
  "f64_mag x = uint (x AND 0x7FFFFFFFFFFFFFFF)"

definition f64_neg :: "f64 \<Rightarrow> bool" where
  "f64_neg x \<longleftrightarrow> bit x 63"

definition f64_nan :: "f64 \<Rightarrow> bool" where
  "f64_nan x \<longleftrightarrow> 0x7FF0000000000000 < f64_mag x"

definition f64_key :: "f64 \<Rightarrow> int" where
  "f64_key x = (if f64_neg x then - f64_mag x else f64_mag x)"

text \<open>The operators \<^verbatim>\<open><\<close>, \<^verbatim>\<open><=\<close> and \<^verbatim>\<open>==\<close>; \<^verbatim>\<open>a != b\<close> is the negation of \<^verbatim>\<open>a == b\<close>, so it holds when one of them
  is a NaN.\<close>

definition f64_lt :: "f64 \<Rightarrow> f64 \<Rightarrow> bool" where
  "f64_lt a b \<longleftrightarrow> \<not> f64_nan a \<and> \<not> f64_nan b \<and> f64_key a < f64_key b"

definition f64_le :: "f64 \<Rightarrow> f64 \<Rightarrow> bool" where
  "f64_le a b \<longleftrightarrow> \<not> f64_nan a \<and> \<not> f64_nan b \<and> f64_key a \<le> f64_key b"

definition f64_eq :: "f64 \<Rightarrow> f64 \<Rightarrow> bool" where
  "f64_eq a b \<longleftrightarrow> \<not> f64_nan a \<and> \<not> f64_nan b \<and> f64_key a = f64_key b"

lemma f64_eq_refl [simp]: "\<not> f64_nan a \<Longrightarrow> f64_eq a a"
  by (simp add: f64_eq_def)

lemma f64_nan_neq: "f64_nan a \<Longrightarrow> \<not> f64_eq a b"
  by (simp add: f64_eq_def)

text \<open>Some patterns: zero, minus zero, one, two, infinity and a NaN.\<close>

definition f64_zero :: f64 where "f64_zero = 0"
definition f64_one :: f64 where "f64_one = 0x3FF0000000000000"
definition f64_two :: f64 where "f64_two = 0x4000000000000000"
definition f64_NaN :: f64 where "f64_NaN = 0x7FF8000000000001"

lemma f64_zeros_equal: "f64_eq f64_zero 0x8000000000000000"
  by (simp add: f64_eq_def f64_zero_def f64_nan_def f64_key_def f64_mag_def)

lemma f64_examples:
  "f64_key f64_zero = 0" "f64_key f64_one = 0x3FF0000000000000" "f64_key f64_two = 0x4000000000000000"
  "\<not> f64_nan f64_zero" "\<not> f64_nan f64_one" "\<not> f64_nan f64_two" "f64_nan f64_NaN"
  by (simp_all add: f64_key_def f64_neg_def f64_mag_def f64_nan_def f64_zero_def f64_one_def f64_two_def
      f64_NaN_def bit_numeral_word_iff)

subsection \<open>Arithmetic\<close>

text \<open>
  A finite pattern is a rational number, and the result of an operation is the exact rational result rounded
  to the nearest pattern, ties to even. \<open>round_mag\<close> rounds a positive rational: with \<open>E\<close> the exponent of the last
  place, the pattern of the mantissa \<open>m\<close> is \<open>(E + 1074) * 2^52 + m\<close> for normal and subnormal numbers alike, and a
  mantissa that rounds up to the next power of two carries into the exponent by itself. No operation is fused
  with another.
\<close>

function blen :: "int \<Rightarrow> int" where
  "blen n = (if n \<le> 0 then 0 else 1 + blen (n div 2))"
  by pat_completeness auto
termination
  by (relation "measure nat") auto

declare blen.simps [simp del]

definition pow2 :: "int \<Rightarrow> rat" where
  "pow2 k = (if 0 \<le> k then 2 ^ nat k else 1 / 2 ^ nat (- k))"

definition rat_exp :: "rat \<Rightarrow> int" where
  "rat_exp q = (let (n, d) = quotient_of q; k = blen n - blen d
     in if pow2 k \<le> q then k else k - 1)"

definition round_half_even :: "rat \<Rightarrow> int" where
  "round_half_even x =
     (let f = \<lfloor>x\<rfloor>; r = x - of_int f
      in if r < 1 / 2 then f else if 1 / 2 < r then f + 1 else if even f then f else f + 1)"

definition mag_inf :: int where "mag_inf = 0x7FF0000000000000"

definition round_mag :: "rat \<Rightarrow> int" where
  "round_mag q =
     (if q \<le> 0 then 0
      else let E = max (- 1074) (rat_exp q - 52) in min mag_inf ((E + 1074) * 2 ^ 52 + round_half_even (q / pow2 E)))"

definition f64_make :: "bool \<Rightarrow> int \<Rightarrow> f64" where
  "f64_make neg mag = word_of_int ((if neg then 2 ^ 63 else 0) + mag)"

definition f64_finite :: "f64 \<Rightarrow> bool" where
  "f64_finite x \<longleftrightarrow> f64_mag x < mag_inf"

definition mag_rat :: "int \<Rightarrow> rat" where
  "mag_rat m = (let e = m div 2 ^ 52; f = m mod 2 ^ 52
     in if e = 0 then of_int f * pow2 (- 1074) else of_int (2 ^ 52 + f) * pow2 (e - 1075))"

definition f64_rat :: "f64 \<Rightarrow> rat" where
  "f64_rat x = (if f64_neg x then - mag_rat (f64_mag x) else mag_rat (f64_mag x))"

definition f64_of_rat :: "bool \<Rightarrow> rat \<Rightarrow> f64" where
  "f64_of_rat zero_neg q = f64_make (if q = 0 then zero_neg else q < 0) (round_mag \<bar>q\<bar>)"

definition f64_add :: "f64 \<Rightarrow> f64 \<Rightarrow> f64" where
  "f64_add a b =
     (if f64_nan a \<or> f64_nan b then f64_NaN
      else if \<not> f64_finite a then (if \<not> f64_finite b \<and> f64_neg a \<noteq> f64_neg b then f64_NaN else a)
      else if \<not> f64_finite b then b
      else f64_of_rat (f64_neg a \<and> f64_neg b) (f64_rat a + f64_rat b))"

definition f64_minus :: "f64 \<Rightarrow> f64" where
  "f64_minus a = a XOR 0x8000000000000000"

definition f64_sub :: "f64 \<Rightarrow> f64 \<Rightarrow> f64" where
  "f64_sub a b = f64_add a (f64_minus b)"

definition f64_mul :: "f64 \<Rightarrow> f64 \<Rightarrow> f64" where
  "f64_mul a b =
     (let s = (f64_neg a \<noteq> f64_neg b)
      in if f64_nan a \<or> f64_nan b then f64_NaN
         else if \<not> f64_finite a \<or> \<not> f64_finite b
              then (if f64_mag a = 0 \<or> f64_mag b = 0 then f64_NaN else f64_make s mag_inf)
              else f64_make s (round_mag \<bar>f64_rat a * f64_rat b\<bar>))"

definition f64_div :: "f64 \<Rightarrow> f64 \<Rightarrow> f64" where
  "f64_div a b =
     (let s = (f64_neg a \<noteq> f64_neg b)
      in if f64_nan a \<or> f64_nan b then f64_NaN
         else if \<not> f64_finite a then (if f64_finite b then f64_make s mag_inf else f64_NaN)
         else if \<not> f64_finite b then f64_make s 0
         else if f64_mag b = 0 then (if f64_mag a = 0 then f64_NaN else f64_make s mag_inf)
         else f64_make s (round_mag \<bar>f64_rat a / f64_rat b\<bar>))"

text \<open>Conversions from and to unsigned integers; a float is truncated towards zero.\<close>

definition f64_of_uint :: "int \<Rightarrow> f64" where
  "f64_of_uint n = f64_of_rat False (of_int n)"

definition trunc :: "rat \<Rightarrow> int" where
  "trunc q = (if 0 \<le> q then \<lfloor>q\<rfloor> else - \<lfloor>- q\<rfloor>)"

definition f64_to_uint :: "golib \<Rightarrow> nat \<Rightarrow> f64 \<Rightarrow> int" where
  "f64_to_uint lib bits x =
     (if f64_finite x \<and> 0 \<le> trunc (f64_rat x) \<and> trunc (f64_rat x) < 2 ^ bits then trunc (f64_rat x)
      else ConvUint lib bits x)"

subsection \<open>Integers that a float holds exactly\<close>

lemma blen_bounds: "0 < n \<Longrightarrow> 2 ^ nat (blen n - 1) \<le> n \<and> n < 2 ^ nat (blen n) \<and> 0 < blen n"
proof (induction n rule: blen.induct)
  case (1 n)
  show ?case
  proof (cases "n = 1")
    case True
    have "blen 1 = 1" by (simp add: blen.simps)
    with True show ?thesis by simp
  next
    case False
    then have "0 < n div 2" using 1(2) by (simp add: pos_imp_zdiv_pos_iff)
    then have IH: "2 ^ nat (blen (n div 2) - 1) \<le> n div 2" "n div 2 < 2 ^ nat (blen (n div 2))" "0 < blen (n div 2)"
      using 1 by simp_all
    define b where "b = nat (blen (n div 2) - 1)"
    have "blen n = 1 + blen (n div 2)" using 1(2) by (subst blen.simps) simp
    then have e: "nat (blen n - 1) = Suc b" "nat (blen n) = Suc (Suc b)" "nat (blen (n div 2)) = Suc b" "0 < blen n"
      using IH(3) by (simp_all add: b_def nat_eq_iff)
    have "2 ^ b \<le> n div 2" "n div 2 < 2 ^ Suc b" using IH(1,2) e(3) by (simp_all add: b_def)
    then have "(2::int) ^ Suc b \<le> n" "n < 2 ^ Suc (Suc b)" by auto
    with e show ?thesis by simp
  qed
qed

lemma pow2_nat: "0 \<le> k \<Longrightarrow> pow2 k = of_int (2 ^ nat k)"
  by (simp add: pow2_def)

lemma rat_exp_int:
  assumes "0 < n"
  shows "rat_exp (of_int n) = blen n - 1"
proof -
  have "blen 1 = 1" by (simp add: blen.simps)
  moreover have "pow2 (blen n - 1) \<le> of_int n"
    using blen_bounds [OF assms] by (simp add: pow2_nat del: of_int_power)
  ultimately show ?thesis by (simp add: rat_exp_def)
qed

lemma round_half_even_int: "round_half_even (of_int m) = m"
  by (simp add: round_half_even_def)

lemma round_mag_int:
  assumes "0 < n" and "n < 2 ^ 53"
  shows "\<exists>k m. 0 \<le> k \<and> k \<le> 52 \<and> 2 ^ 52 \<le> m \<and> m < 2 ^ 53 \<and> of_int m * pow2 (k - 52) = (of_int n :: rat) \<and>
    round_mag (of_int n) = (k + 1022) * 2 ^ 52 + m"
proof -
  define k where "k = blen n - 1"
  have b: "2 ^ nat k \<le> n" "n < 2 ^ nat (k + 1)" "0 \<le> k" using blen_bounds [OF assms(1)] by (simp_all add: k_def)
  have "k \<le> 52"
  proof (rule ccontr)
    assume "\<not> k \<le> 52"
    then have "(2::int) ^ 53 \<le> 2 ^ nat k" by (intro power_increasing) simp_all
    with b(1) assms(2) show False by simp
  qed
  define j where "j = nat (52 - k)"
  have j: "nat k + j = 52" using b(3) \<open>k \<le> 52\<close> by (simp add: j_def nat_add_distrib [symmetric])
  define m where "m = n * 2 ^ j"
  have p: "pow2 (k - 52) = 1 / of_int (2 ^ j)" using b(3) \<open>k \<le> 52\<close> by (auto simp: pow2_def j_def)
  have "2 ^ nat k * 2 ^ j \<le> m" "m < 2 ^ nat (k + 1) * 2 ^ j" using b by (simp_all add: m_def)
  moreover have "(2 :: int) ^ nat k * 2 ^ j = 2 ^ 52" using j by (simp flip: power_add)
  ultimately have m: "2 ^ 52 \<le> m" "m < 2 ^ 53" using b(3) by (simp_all add: nat_add_distrib)
  have q: "(of_int n :: rat) / pow2 (k - 52) = of_int m" by (simp add: p m_def)
  then have val: "of_int m * pow2 (k - 52) = (of_int n :: rat)" by (simp add: p m_def)
  have E: "max (- 1074) (rat_exp (of_int n) - 52) = k - 52"
    using b(3) by (simp add: rat_exp_int [OF assms(1)] k_def [symmetric])
  have "(k - 52 + 1074) * 2 ^ 52 + m \<le> mag_inf" using m(2) \<open>k \<le> 52\<close> by (simp add: mag_inf_def)
  then have "round_mag (of_int n) = (k + 1022) * 2 ^ 52 + m"
    using assms(1) by (simp add: round_mag_def E q round_half_even_int)
  then show ?thesis using b(3) \<open>k \<le> 52\<close> m val by blast
qed

lemma and_mask_63: "0 \<le> m \<Longrightarrow> m < 2 ^ 63 \<Longrightarrow> m AND 0x7FFFFFFFFFFFFFFF = (m :: int)"
  using take_bit_eq_mask [of 63 m] by (simp add: mask_eq_exp_minus_1 take_bit_int_eq_self)

lemma f64_make_mag:
  assumes "0 \<le> mag" and "mag < 2 ^ 63"
  shows "f64_mag (f64_make False mag) = mag" and "\<not> f64_neg (f64_make False mag)"
proof -
  have u: "uint (word_of_int mag :: f64) = mag" using assms by (simp add: uint_word_of_int)
  then show "f64_mag (f64_make False mag) = mag"
    using and_mask_63 [OF assms] by (simp add: f64_mag_def f64_make_def uint_and)
  have "\<not> bit mag 63" using assms by (simp add: bit_iff_odd)
  then show "\<not> f64_neg (f64_make False mag)" by (simp add: f64_neg_def f64_make_def bit_word_of_int_iff)
qed

lemma f64_of_uint_exact:
  assumes "0 \<le> n" and "n < 2 ^ 53"
  shows "f64_finite (f64_of_uint n)" and "f64_rat (f64_of_uint n) = of_int n"
proof -
  have "f64_finite (f64_of_uint n) \<and> f64_rat (f64_of_uint n) = of_int n"
  proof (cases "n = 0")
    case True
    then show ?thesis
      using f64_make_mag [of 0]
      by (simp add: f64_of_uint_def f64_of_rat_def round_mag_def f64_finite_def f64_rat_def mag_rat_def mag_inf_def)
  next
    case False
    with assms obtain k m where km: "0 \<le> k" "k \<le> 52" "2 ^ 52 \<le> m" "m < 2 ^ 53" "of_int m * pow2 (k - 52) = (of_int n :: rat)"
        "round_mag (of_int n) = (k + 1022) * 2 ^ 52 + m" using round_mag_int [of n] by auto
    define mag where "mag = (k + 1022) * 2 ^ 52 + m"
    have lt: "0 \<le> mag" "mag < mag_inf" using km by (simp_all add: mag_def mag_inf_def)
    have x: "f64_of_uint n = f64_make False mag"
      using assms(1) False km(6) by (simp add: f64_of_uint_def f64_of_rat_def mag_def)
    have "mag = (m - 2 ^ 52) + (k + 1023) * 2 ^ 52" by (simp add: mag_def)
    then have "mag = 2 ^ 52 * (k + 1023) + (m - 2 ^ 52)" by simp
    then have "mag div 2 ^ 52 = k + 1023" "mag mod 2 ^ 52 = m - 2 ^ 52"
      using km(3,4) int_div_pos_eq [of mag "2 ^ 52" "k + 1023" "m - 2 ^ 52"]
        int_mod_pos_eq [of mag "2 ^ 52" "k + 1023" "m - 2 ^ 52"] by simp_all
    then have "mag_rat mag = of_int n" using km(1,5) by (simp add: mag_rat_def)
    with x lt show ?thesis
      using f64_make_mag [of mag] by (simp add: f64_finite_def f64_rat_def mag_inf_def)
  qed
  then show "f64_finite (f64_of_uint n)" and "f64_rat (f64_of_uint n) = of_int n" by blast+
qed

lemma f64_to_uint_of_uint:
  assumes "0 \<le> n" and "n < 2 ^ 53" and "53 \<le> bits"
  shows "f64_to_uint lib bits (f64_of_uint n) = n"
proof -
  have "n < 2 ^ bits" using assms(2,3) power_increasing [of 53 bits "2 :: int"] by linarith
  then show ?thesis
    using assms(1,2) by (simp add: f64_to_uint_def f64_of_uint_exact trunc_def)
qed

end
