(* ===== verification/SkipListRep.thy ===== *)
theory SkipListRep
  imports SkipList
begin

text \<open>
  The representation of a skip list by the list of its cells, the effect of a search on it, and the effect of
  one loop iteration of \<^verbatim>\<open>Insert\<close> and \<^verbatim>\<open>Delete\<close> on one level of the heap.
\<close>

subsection \<open>Cells and their layout in the heap\<close>

record cell =
  c_addr :: nat
  c_mem :: string
  c_score :: f64
  c_ht :: nat

fun hop :: "nat \<Rightarrow> cell list \<Rightarrow> skipListLevel" where
  "hop i [] = empty_level"
| "hop i (c # cs) = (if i < c_ht c then \<lparr>Forward = Some (c_addr c), Span = 1\<rparr>
     else \<lparr>Forward = Forward (hop i cs), Span = Span (hop i cs) + 1\<rparr>)"

definition mk_node :: "cell \<Rightarrow> (nat \<Rightarrow> skipListLevel) \<Rightarrow> SkipListNode" where
  "mk_node c L = \<lparr>Member = c_mem c, Score = c_score c, Level = map L [0..<c_ht c]\<rparr>"

text \<open>\<open>laid_by h F pre\<close>: in heap \<open>h\<close> every cell of \<open>pre\<close> has its node, with level \<open>i\<close> given by \<open>F i\<close> of the
  cells that follow it in \<open>pre\<close>.\<close>

definition laid_by :: "sl_heap \<Rightarrow> (nat \<Rightarrow> cell list \<Rightarrow> skipListLevel) \<Rightarrow> cell list \<Rightarrow> bool" where
  "laid_by h F pre \<longleftrightarrow> (\<forall>as c vs. pre = as @ c # vs \<longrightarrow> h (c_addr c) = Some (mk_node c (\<lambda>i. F i vs)))"

definition laid_out :: "sl_heap \<Rightarrow> cell list \<Rightarrow> bool" where
  "laid_out h cs \<longleftrightarrow> laid_by h hop cs"

lemma laid_byD: "laid_by h F (as @ c # vs) \<Longrightarrow> h (c_addr c) = Some (mk_node c (\<lambda>i. F i vs))"
  by (auto simp: laid_by_def)

lemma laid_outD: "laid_out h (as @ c # vs) \<Longrightarrow> h (c_addr c) = Some (mk_node c (\<lambda>i. hop i vs))"
  unfolding laid_out_def by (rule laid_byD)

lemma laid_out_get_level:
  "laid_out h (as @ c # vs) \<Longrightarrow> i < c_ht c \<Longrightarrow> get_level h (c_addr c) i = Some (hop i vs)"
  by (simp add: laid_outD get_level_def mk_node_def)

lemma laid_by_append:
  "laid_by h F (pre @ zs) \<longleftrightarrow> laid_by h (\<lambda>i vs. F i (vs @ zs)) pre \<and> laid_by h F zs" (is "?L \<longleftrightarrow> ?R")
proof
  assume L: ?L
  show ?R
    unfolding laid_by_def
  proof (intro conjI allI impI)
    fix as c vs assume "pre = as @ c # vs"
    then show "h (c_addr c) = Some (mk_node c (\<lambda>i. F i (vs @ zs)))"
      using laid_byD [of h F as c "vs @ zs"] L by simp
  next
    fix as c vs assume "zs = as @ c # vs"
    then show "h (c_addr c) = Some (mk_node c (\<lambda>i. F i vs))"
      using laid_byD [of h F "pre @ as" c vs] L by simp
  qed
next
  assume R: ?R
  show ?L
    unfolding laid_by_def
  proof (intro allI impI)
    fix as c vs assume "pre @ zs = as @ c # vs"
    then consider (in_pre) vs1 where "pre = as @ c # vs1" "vs = vs1 @ zs" | (in_zs) as1 where "zs = as1 @ c # vs"
      by (auto simp: append_eq_append_conv2 Cons_eq_append_conv append_eq_Cons_conv)
    then show "h (c_addr c) = Some (mk_node c (\<lambda>i. F i vs))"
      using R by cases (auto dest: laid_byD)
  qed
qed

lemma laid_by_cong:
  assumes "\<And>c vs i. c \<in> set pre \<Longrightarrow> i < c_ht c \<Longrightarrow> F i vs = G i vs"
  shows "laid_by h F pre = laid_by h G pre"
proof -
  have "mk_node c (\<lambda>i. F i vs) = mk_node c (\<lambda>i. G i vs)" if "pre = as @ c # vs" for as c vs
    using assms [of c] that by (auto simp: mk_node_def)
  then show ?thesis by (fastforce simp: laid_by_def)
qed

lemma laid_by_other:
  assumes "laid_by h F pre" and "\<And>c. c \<in> set pre \<Longrightarrow> h' (c_addr c) = h (c_addr c)"
  shows "laid_by h' F pre"
  using assms by (auto simp: laid_by_def)

lemma addr_disjoint: "distinct (map c_addr (as @ bs)) \<Longrightarrow> b \<in> set bs \<Longrightarrow> c_addr b \<notin> c_addr ` set as"
  by auto

subsection \<open>Hops\<close>

lemma hop_low:
  "\<forall>v \<in> set vs. c_ht v \<le> i \<Longrightarrow>
   hop i (vs @ zs) = \<lparr>Forward = Forward (hop i zs), Span = Span (hop i zs) + int (length vs)\<rparr>"
  by (induction vs) auto

lemma hop_stop: "\<exists>v \<in> set vs. i < c_ht v \<Longrightarrow> hop i (vs @ zs) = hop i (vs @ zs')"
proof (induction vs)
  case (Cons v vs)
  then show ?case by (cases "i < c_ht v") simp_all
qed simp

lemma hop_Forward_in: "Forward (hop i cs) = Some a \<Longrightarrow> a \<in> c_addr ` set cs"
  by (induction cs) (auto simp: empty_level_def split: if_splits)

lemma first_high:
  "(\<forall>v \<in> set ls. c_ht v \<le> i) \<or> (\<exists>ws d ls'. ls = ws @ d # ls' \<and> i < c_ht d \<and> (\<forall>w \<in> set ws. c_ht w \<le> i))"
proof (cases "\<exists>v \<in> set ls. i < c_ht v")
  case True
  then obtain ws d ls' where "ls = ws @ d # ls'" "i < c_ht d" "\<forall>w \<in> set ws. \<not> i < c_ht w"
    by (rule split_list_first_propE)
  then show ?thesis by (auto simp: not_less)
qed (simp add: not_less)

subsection \<open>Searching\<close>

lemma advance_spec:
  assumes "laid_out h (as @ c # ls @ gs)" and "i < c_ht c"
    and "\<forall>x \<in> set ls. sl_less (c_score x) (c_mem x) score member"
    and "\<forall>x \<in> set gs. \<not> sl_less (c_score x) (c_mem x) score member"
  shows "\<exists>us c' vs. c # ls = us @ c' # vs \<and> i < c_ht c' \<and> (\<forall>v \<in> set vs. c_ht v \<le> i) \<and>
    advance h i score member (c_addr c) r = Some (c_addr c', r + int (length us))"
  using assms
proof (induction ls arbitrary: as c r rule: length_induct)
  case (1 ls)
  have lvl: "get_level h (c_addr c) i = Some (hop i (ls @ gs))"
    using laid_out_get_level 1 by blast
  from first_high [of ls i] show ?case
  proof (elim disjE exE conjE)
    assume low: "\<forall>v \<in> set ls. c_ht v \<le> i"
    have stay: "advance h i score member (c_addr c) r = Some (c_addr c, r)"
    proof (cases "Forward (hop i gs)")
      case None
      with lvl low show ?thesis by (subst advance.simps) (simp add: hop_low)
    next
      case (Some a)
      then obtain g where "g \<in> set gs" "a = c_addr g" using hop_Forward_in by blast
      moreover from \<open>g \<in> set gs\<close> obtain g1 g2 where "gs = g1 @ g # g2" by (meson split_list)
      ultimately have "h a = Some (mk_node g (\<lambda>i. hop i g2))" "\<not> sl_less (c_score g) (c_mem g) score member"
        using laid_outD [of h "as @ c # ls @ g1" g g2] "1.prems" by auto
      with lvl low Some show ?thesis by (subst advance.simps) (simp add: hop_low mk_node_def)
    qed
    have "c # ls = [] @ c # ls" by simp
    then show ?thesis using low stay "1.prems"(2) by fastforce
  next
    fix ws d ls' assume ls: "ls = ws @ d # ls'" and d: "i < c_ht d" and ws: "\<forall>w \<in> set ws. c_ht w \<le> i"
    have hopd: "hop i (ls @ gs) = \<lparr>Forward = Some (c_addr d), Span = 1 + int (length ws)\<rparr>"
      using ls d ws hop_low [OF ws, of "d # ls' @ gs"] by simp
    have hd: "h (c_addr d) = Some (mk_node d (\<lambda>i. hop i (ls' @ gs)))"
      using laid_outD [of h "as @ c # ws" d "ls' @ gs"] "1.prems"(1) ls by simp
    have step: "advance h i score member (c_addr c) r
        = advance h i score member (c_addr d) (r + (1 + int (length ws)))"
      using lvl hopd hd ls "1.prems"(3) by (subst advance.simps) (simp add: mk_node_def)
    have "\<exists>us c' vs. d # ls' = us @ c' # vs \<and> i < c_ht c' \<and> (\<forall>v \<in> set vs. c_ht v \<le> i) \<and>
      advance h i score member (c_addr d) (r + (1 + int (length ws))) =
        Some (c_addr c', r + (1 + int (length ws)) + int (length us))"
      using "1.prems" ls d by (intro "1.IH" [rule_format, of ls' "as @ c # ws"]) auto
    then obtain us c' vs where us: "d # ls' = us @ c' # vs" "i < c_ht c'" "\<forall>v \<in> set vs. c_ht v \<le> i"
      and adv: "advance h i score member (c_addr d) (r + (1 + int (length ws))) =
        Some (c_addr c', r + (1 + int (length ws)) + int (length us))" by blast
    have "c # ls = (c # ws @ us) @ c' # vs" using ls us(1) by simp
    moreover have "r + (1 + int (length ws)) + int (length us) = r + int (length (c # ws @ us))" by simp
    ultimately show ?thesis using us adv step by metis
  qed
qed

text \<open>\<open>at_level i pre as c vs\<close>: cell \<open>c\<close> is the last one of \<open>pre\<close> that is higher than \<open>i\<close>.\<close>

definition at_level :: "nat \<Rightarrow> cell list \<Rightarrow> cell list \<Rightarrow> cell \<Rightarrow> cell list \<Rightarrow> bool" where
  "at_level i pre as c vs \<longleftrightarrow> pre = as @ c # vs \<and> i < c_ht c \<and> (\<forall>v \<in> set vs. c_ht v \<le> i)"

definition updates :: "nat \<Rightarrow> cell list \<Rightarrow> (nat \<times> int) list \<Rightarrow> bool" where
  "updates i pre us \<longleftrightarrow> (\<forall>j < length us. \<exists>as c vs. at_level (i + j) pre as c vs \<and>
     us ! j = (c_addr c, int (length as)))"

lemma descend_spec:
  assumes "laid_out h (as @ c # ls @ gs)" and "k \<le> c_ht c"
    and "\<forall>x \<in> set ls. sl_less (c_score x) (c_mem x) score member"
    and "\<forall>x \<in> set gs. \<not> sl_less (c_score x) (c_mem x) score member"
  shows "\<exists>us. descend h score member k (c_addr c) (int (length as)) = Some us \<and> length us = k \<and>
    updates 0 (as @ c # ls) us"
  using assms
proof (induction k arbitrary: as c ls)
  case 0
  then show ?case by (simp add: updates_def)
next
  case (Suc k)
  obtain us1 c' vs where s: "c # ls = us1 @ c' # vs" "k < c_ht c'" "\<forall>v \<in> set vs. c_ht v \<le> k"
    and adv: "advance h k score member (c_addr c) (int (length as)) = Some (c_addr c', int (length as) + int (length us1))"
    using advance_spec [OF Suc.prems(1) _ Suc.prems(3,4), of k "int (length as)"] Suc.prems(2) by auto
  have pre: "as @ c # ls = (as @ us1) @ c' # vs" using s(1) by simp
  have "laid_out h ((as @ us1) @ c' # vs @ gs)" using Suc.prems(1) pre by (metis append.assoc append_Cons)
  moreover have "set vs \<subseteq> set ls" using s(1) by (cases us1) auto
  ultimately obtain us where us: "descend h score member k (c_addr c') (int (length (as @ us1))) = Some us"
      "length us = k" "updates 0 ((as @ us1) @ c' # vs) us"
    using Suc.IH [of "as @ us1" c' vs] s(2) Suc.prems(3,4) by (auto simp: subset_iff)
  let ?us = "us @ [(c_addr c', int (length (as @ us1)))]"
  have "updates 0 (as @ c # ls) ?us"
    unfolding updates_def
  proof (intro allI impI)
    fix j assume "j < length ?us"
    then consider "j < k" | "j = k" using us(2) by fastforce
    then show "\<exists>as' c'' vs'. at_level (0 + j) (as @ c # ls) as' c'' vs' \<and> ?us ! j = (c_addr c'', int (length as'))"
    proof cases
      case 1
      then show ?thesis using us pre by (simp add: updates_def nth_append)
    next
      case 2
      have "at_level k (as @ c # ls) (as @ us1) c' vs" using pre s by (simp add: at_level_def)
      then show ?thesis
        using 2 us(2) by (intro exI [of _ "as @ us1"] exI [of _ c'] exI [of _ vs]) (simp add: nth_append)
    qed
  qed
  then show ?case using adv us by simp
qed

subsection \<open>Changing one level\<close>

lemma set_level_laid_by:
  assumes "laid_by h F pre" and "distinct (map c_addr pre)" and "at_level k pre as c vs"
    and "\<And>i vs'. i \<noteq> k \<Longrightarrow> F' i vs' = F i vs'"
    and "\<And>vs'. \<exists>v \<in> set vs'. k < c_ht v \<Longrightarrow> F' k vs' = F k vs'"
  shows "\<exists>h'. set_level h (c_addr c) k (F' k vs) = Some h' \<and> laid_by h' F' pre \<and>
    (\<forall>a. a \<noteq> c_addr c \<longrightarrow> h' a = h a)"
proof -
  have pre: "pre = as @ c # vs" and k: "k < c_ht c" and low: "\<forall>v \<in> set vs. c_ht v \<le> k"
    using assms(3) by (auto simp: at_level_def)
  have hc: "h (c_addr c) = Some (mk_node c (\<lambda>i. F i vs))"
    using assms(1) pre laid_byD by blast
  have lvl: "(map (\<lambda>i. F i vs) [0..<c_ht c])[k := F' k vs] = map (\<lambda>i. F' i vs) [0..<c_ht c]"
    using k assms(4) by (intro nth_equalityI) (auto simp: nth_list_update)
  let ?h' = "h(c_addr c \<mapsto> mk_node c (\<lambda>i. F' i vs))"
  have "set_level h (c_addr c) k (F' k vs) = Some ?h'"
    using hc k lvl by (simp add: set_level_def mk_node_def)
  moreover have "laid_by ?h' F' pre"
    unfolding laid_by_def
  proof (intro allI impI)
    fix as' c' vs' assume p: "pre = as' @ c' # vs'"
    consider "length as' < length as" | "length as' = length as" | "length as < length as'" by linarith
    then show "?h' (c_addr c') = Some (mk_node c' (\<lambda>i. F' i vs'))"
    proof cases
      case 1
      then have "c \<in> set vs'" using pre p by (auto simp: append_eq_append_conv2 Cons_eq_append_conv append_eq_Cons_conv)
      then have "F' i vs' = F i vs'" for i using assms(4,5) k by metis
      moreover have "c_addr c' \<noteq> c_addr c" using \<open>c \<in> set vs'\<close> assms(2) p by auto
      ultimately show ?thesis using assms(1) p laid_byD [of h F as' c' vs'] by simp
    next
      case 2
      then show ?thesis using pre p by simp
    next
      case 3
      then have c': "c' \<in> set vs" using pre p by (auto simp: append_eq_append_conv2 Cons_eq_append_conv append_eq_Cons_conv)
      then have "c_addr c' \<noteq> c_addr c" using assms(2) pre by (auto simp: image_iff)
      moreover have "mk_node c' (\<lambda>i. F' i vs') = mk_node c' (\<lambda>i. F i vs')"
        using low c' assms(4) by (auto simp: mk_node_def)
      ultimately show ?thesis using assms(1) p laid_byD [of h F as' c' vs'] by simp
    qed
  qed
  ultimately show ?thesis by auto
qed

lemma get_level_laid_by:
  "laid_by h F pre \<Longrightarrow> at_level k pre as c vs \<Longrightarrow> get_level h (c_addr c) k = Some (F k vs)"
  by (auto simp: at_level_def get_level_def mk_node_def dest!: laid_byD)

end
