(* ===== verification/SkipListCorrect.thy ===== *)
theory SkipListCorrect
  imports SkipListRep
begin

text \<open>
  Total correctness of the skip list: every operation returns (it neither panics nor runs forever), keeps the
  representation, and does on the ordered list of elements what its name says. The interface that the sorted
  sets rely on is the locale \<open>ordered_index\<close>, interpreted here on the code's operations.
\<close>

subsection \<open>Keys and the representation invariant\<close>

type_synonym elem = "string \<times> f64"

definition ekey :: "elem \<Rightarrow> int \<times> string" where
  "ekey e = (f64_key (snd e), fst e)"

definition c_elem :: "cell \<Rightarrow> elem" where
  "c_elem c = (c_mem c, c_score c)"

abbreviation ckey :: "cell \<Rightarrow> int \<times> string" where
  "ckey c \<equiv> ekey (c_elem c)"

lemma sl_less_key:
  "\<not> f64_nan s1 \<Longrightarrow> \<not> f64_nan s2 \<Longrightarrow> sl_less s1 m1 s2 m2 \<longleftrightarrow> ekey (m1, s1) < ekey (m2, s2)"
  by (auto simp: sl_less_def ekey_def f64_eq_def f64_lt_def less_prod_def)

lemma eq_key:
  "\<not> f64_nan s1 \<Longrightarrow> \<not> f64_nan s2 \<Longrightarrow> f64_eq s1 s2 \<and> m1 = m2 \<longleftrightarrow> ekey (m1, s1) = ekey (m2, s2)"
  by (auto simp: ekey_def f64_eq_def)

definition head_cell :: "SkipList \<Rightarrow> cell" where
  "head_cell s = \<lparr>c_addr = Head s, c_mem = [], c_score = 0, c_ht = skipListMaxLevel\<rparr>"

definition sl_rep :: "SkipList \<Rightarrow> cell list \<Rightarrow> bool" where
  "sl_rep s cs \<longleftrightarrow>
     laid_out (Heap s) (head_cell s # cs) \<and> distinct (map c_addr (head_cell s # cs)) \<and>
     (\<forall>c \<in> set (head_cell s # cs). c_addr c < Fresh s) \<and>
     (\<forall>c \<in> set cs. 1 \<le> c_ht c \<and> c_ht c \<le> skipListMaxLevel \<and> \<not> f64_nan (c_score c)) \<and>
     sorted (map ckey cs) \<and> Length s = int (length cs)"

subsection \<open>Splitting a sorted list at a key\<close>

lemma insort_key_split:
  "insort_key f x xs = takeWhile (\<lambda>y. f y < f x) xs @ x # dropWhile (\<lambda>y. f y < f x) xs"
  by (induction xs) (auto simp: not_le)

lemma dropWhile_ge:
  "sorted (map f xs) \<Longrightarrow> x \<in> set (dropWhile (\<lambda>y. f y < k) xs) \<Longrightarrow> k \<le> (f x :: 'a :: linorder)"
proof (induction xs)
  case (Cons y ys)
  then show ?case by (cases "f y < k") (auto simp: not_less)
qed simp

text \<open>Removing the first element with a given key.\<close>

fun del_key :: "int \<times> string \<Rightarrow> elem list \<Rightarrow> elem list" where
  "del_key k [] = []"
| "del_key k (x # xs) = (if ekey x = k then xs else x # del_key k xs)"

lemma del_key_skip: "k \<notin> ekey ` set xs \<Longrightarrow> del_key k (xs @ ys) = xs @ del_key k ys"
  by (induction xs) auto

lemma del_key_notin: "k \<notin> ekey ` set xs \<Longrightarrow> del_key k xs = xs"
  by (induction xs) auto

subsection \<open>The search path\<close>

lemma sl_rep_search:
  fixes member :: string
  assumes "sl_rep s cs" and "\<not> f64_nan score"
  defines "ls \<equiv> takeWhile (\<lambda>c. ckey c < ekey (member, score)) cs"
    and "gs \<equiv> dropWhile (\<lambda>c. ckey c < ekey (member, score)) cs"
  obtains us where "descend (Heap s) score member skipListMaxLevel (Head s) 0 = Some us"
    and "length us = skipListMaxLevel" and "updates 0 (head_cell s # ls) us"
    and "us ! 0 = (c_addr (last (head_cell s # ls)), int (length ls))"
    and "\<forall>g \<in> set gs. ekey (member, score) \<le> ckey g"
    and "get_level (Heap s) (fst (us ! 0)) 0 = Some (hop 0 gs)"
proof -
  let ?k = "ekey (member, score)"
  have cs: "cs = ls @ gs" by (simp add: ls_def gs_def)
  have nn: "\<forall>c \<in> set cs. \<not> f64_nan (c_score c) \<and> 1 \<le> c_ht c" using assms(1) by (auto simp: sl_rep_def)
  have gs: "\<forall>g \<in> set gs. ?k \<le> ckey g"
    using assms(1) dropWhile_ge [of ckey cs] by (auto simp: sl_rep_def gs_def)
  have lay: "laid_out (Heap s) ([] @ head_cell s # ls @ gs)" using assms(1) cs by (simp add: sl_rep_def)
  have l: "\<forall>x \<in> set ls. sl_less (c_score x) (c_mem x) score member"
  proof
    fix x assume "x \<in> set ls"
    then have "ckey x < ?k" "x \<in> set cs" unfolding ls_def by (auto dest: set_takeWhileD)
    then show "sl_less (c_score x) (c_mem x) score member"
      using sl_less_key [of "c_score x" score "c_mem x" member] assms(2) nn by (simp add: c_elem_def)
  qed
  have g: "\<forall>x \<in> set gs. \<not> sl_less (c_score x) (c_mem x) score member"
  proof
    fix x assume "x \<in> set gs"
    with gs nn cs have "?k \<le> ckey x" "\<not> f64_nan (c_score x)" by auto
    then show "\<not> sl_less (c_score x) (c_mem x) score member"
      using sl_less_key [of "c_score x" score "c_mem x" member] assms(2) by (simp add: c_elem_def)
  qed
  obtain us where us: "descend (Heap s) score member skipListMaxLevel (Head s) 0 = Some us"
      "length us = skipListMaxLevel" "updates 0 (head_cell s # ls) us"
    using descend_spec [OF lay _ l g, of skipListMaxLevel] by (auto simp: head_cell_def)
  obtain as c vs where al: "at_level 0 (head_cell s # ls) as c vs" and us0: "us ! 0 = (c_addr c, int (length as))"
    using us(2,3) by (fastforce simp: updates_def skipListMaxLevel_def)
  have "vs = []"
  proof (rule ccontr)
    assume "vs \<noteq> []"
    then have hd: "hd vs \<in> set vs" by simp
    have "set vs \<subseteq> set ls" using al by (cases as) (auto simp: at_level_def)
    with hd cs have "hd vs \<in> set cs" by auto
    with nn have "1 \<le> c_ht (hd vs)" by blast
    moreover have "c_ht (hd vs) \<le> 0" using al hd by (simp add: at_level_def)
    ultimately show False by simp
  qed
  then have pre: "head_cell s # ls = as @ [c]" and "0 < c_ht c" using al by (auto simp: at_level_def)
  then have "length as = length ls" by (metis length_Cons length_append_singleton nat.inject)
  moreover have "get_level (Heap s) (c_addr c) 0 = Some (hop 0 gs)"
    using laid_out_get_level [of "Heap s" as c gs 0] lay pre \<open>0 < c_ht c\<close>
    by (metis append.assoc append_Cons append_Nil)
  ultimately show thesis
    using that us us0 gs pre by (metis fst_conv last_snoc)
qed

subsection \<open>Insert\<close>

lemma randomLevel_loop_bounds:
  "1 \<le> level \<Longrightarrow> level \<le> skipListMaxLevel \<Longrightarrow>
   1 \<le> randomLevel_loop level k coins \<and> randomLevel_loop level k coins \<le> skipListMaxLevel"
proof (induction level k coins rule: randomLevel_loop.induct)
  case (1 level k coins)
  then show ?case by (subst (1 2) randomLevel_loop.simps) simp
qed

lemma randomLevel_bounds: "1 \<le> randomLevel coins \<and> randomLevel coins \<le> skipListMaxLevel"
  unfolding randomLevel_def by (rule randomLevel_loop_bounds) (simp_all add: skipListMaxLevel_def)

text \<open>While levels are being changed in order, the levels below \<open>k\<close> are already the new ones.\<close>

definition mix :: "nat \<Rightarrow> cell list \<Rightarrow> cell list \<Rightarrow> nat \<Rightarrow> cell list \<Rightarrow> skipListLevel" where
  "mix k new old i vs = (if i < k then hop i (vs @ new) else hop i (vs @ old))"

lemma mix_step:
  assumes "laid_by h (mix k new old) pre" and "distinct (map c_addr pre)" and "at_level k pre as c vs"
  shows "\<exists>h'. set_level h (c_addr c) k (hop k (vs @ new)) = Some h' \<and> laid_by h' (mix (Suc k) new old) pre \<and>
    (\<forall>a. a \<noteq> c_addr c \<longrightarrow> h' a = h a)"
proof -
  have "mix (Suc k) new old i vs' = mix k new old i vs'" if "i \<noteq> k" for i vs'
    using that by (auto simp: mix_def)
  moreover have "mix (Suc k) new old k vs' = mix k new old k vs'" if "\<exists>v \<in> set vs'. k < c_ht v" for vs'
    using hop_stop [OF that] by (simp add: mix_def)
  ultimately show ?thesis
    using set_level_laid_by [OF assms, of "mix (Suc k) new old"] by (simp add: mix_def)
qed

lemma updates_Cons:
  "updates k pre (u # us) \<longleftrightarrow>
     (\<exists>as c vs. at_level k pre as c vs \<and> u = (c_addr c, int (length as))) \<and> updates (Suc k) pre us"
  (is "?L \<longleftrightarrow> ?A \<and> ?B")
proof -
  have "?L \<longleftrightarrow> (\<forall>j < Suc (length us). \<exists>as c vs. at_level (k + j) pre as c vs \<and>
      (u # us) ! j = (c_addr c, int (length as)))"
    by (simp add: updates_def)
  also have "\<dots> \<longleftrightarrow> ?A \<and> ?B"
    unfolding updates_def All_less_Suc2 by simp
  finally show ?thesis .
qed

lemma link_levels_spec:
  assumes "updates k pre us" and "laid_by h (mix k (n # gs) gs) pre" and "distinct (map c_addr (pre @ [n]))"
    and "h (c_addr n) = Some (mk_node n (\<lambda>i. if i < k then hop i gs else empty_level))"
    and "k + length us \<le> c_ht n" and "rank0 = int (length pre) - 1"
  shows "\<exists>h'. link_levels (c_addr n) rank0 k us h = Some h' \<and> laid_by h' (mix (k + length us) (n # gs) gs) pre \<and>
    h' (c_addr n) = Some (mk_node n (\<lambda>i. if i < k + length us then hop i gs else empty_level)) \<and>
    (\<forall>a. a \<notin> c_addr ` set (pre @ [n]) \<longrightarrow> h' a = h a)"
  using assms
proof (induction us arbitrary: k h)
  case Nil
  then show ?case by simp
next
  case (Cons u us)
  obtain as c vs where al: "at_level k pre as c vs" and u: "u = (c_addr c, int (length as))"
    and us: "updates (Suc k) pre us"
    using Cons.prems(1) by (auto simp: updates_Cons)
  have cpre: "c \<in> set pre" and lo: "\<forall>v \<in> set vs. c_ht v \<le> k" and len: "length pre = length as + 1 + length vs"
    using al by (auto simp: at_level_def)
  have cn: "c_addr c \<noteq> c_addr n" using Cons.prems(3) cpre by (auto simp: image_iff)
  have kn: "k < c_ht n" using Cons.prems(5) by simp
  have lvl: "get_level h (c_addr c) k = Some (hop k (vs @ gs))"
    using get_level_laid_by [OF Cons.prems(2) al] by (simp add: mix_def)
  define nd where "nd = mk_node n (\<lambda>i. if i < Suc k then hop i gs else empty_level)"
  have "(map (\<lambda>i. if i < k then hop i gs else empty_level) [0..<c_ht n])[k := hop k gs]
      = map (\<lambda>i. if i < Suc k then hop i gs else empty_level) [0..<c_ht n]"
    using kn by (intro nth_equalityI) (auto simp: nth_list_update less_Suc_eq)
  then have s1: "set_level h (c_addr n) k (hop k gs) = Some (h(c_addr n \<mapsto> nd))"
    using Cons.prems(4) kn by (simp add: set_level_def mk_node_def nd_def)
  let ?h1 = "h(c_addr n \<mapsto> nd)"
  have "laid_by ?h1 (mix k (n # gs) gs) pre"
    by (rule laid_by_other [OF Cons.prems(2)]) (use Cons.prems(3) in \<open>auto simp: image_iff\<close>)
  from mix_step [OF this _ al] Cons.prems(3) obtain h2
    where s2: "set_level ?h1 (c_addr c) k (hop k (vs @ n # gs)) = Some h2"
      and lay2: "laid_by h2 (mix (Suc k) (n # gs) gs) pre" and fr2: "\<forall>a. a \<noteq> c_addr c \<longrightarrow> h2 a = ?h1 a"
    by auto
  have r: "rank0 - int (length as) = int (length vs)" using Cons.prems(6) len by simp
  have "hop k (vs @ n # gs) = \<lparr>Forward = Some (c_addr n), Span = rank0 - int (length as) + 1\<rparr>"
    using hop_low [OF lo, of "n # gs"] kn r by simp
  moreover have "\<lparr>Forward = Forward (hop k (vs @ gs)), Span = Span (hop k (vs @ gs)) - (rank0 - int (length as))\<rparr> = hop k gs"
    using hop_low [OF lo, of gs] r by simp
  ultimately have "link_levels (c_addr n) rank0 k (u # us) h = link_levels (c_addr n) rank0 (Suc k) us h2"
    using lvl s1 s2 u by simp
  moreover have "h2 (c_addr n) = Some nd" using fr2 cn by simp
  ultimately show ?case
    using Cons.IH [OF us lay2 Cons.prems(3), of] Cons.prems(5,6) fr2 cpre by (fastforce simp: nd_def)
qed

lemma bump_levels_spec:
  assumes "updates k pre us" and "laid_by h (mix k (n # gs) gs) pre" and "distinct (map c_addr pre)"
    and "c_ht n \<le> k"
  shows "\<exists>h'. bump_levels k us h = Some h' \<and> laid_by h' (mix (k + length us) (n # gs) gs) pre \<and>
    (\<forall>a. a \<notin> c_addr ` set pre \<longrightarrow> h' a = h a)"
  using assms
proof (induction us arbitrary: k h)
  case Nil
  then show ?case by simp
next
  case (Cons u us)
  obtain as c vs where al: "at_level k pre as c vs" and u: "u = (c_addr c, int (length as))"
    and us: "updates (Suc k) pre us"
    using Cons.prems(1) by (auto simp: updates_Cons)
  have cpre: "c \<in> set pre" and lo: "\<forall>v \<in> set vs. c_ht v \<le> k" using al by (auto simp: at_level_def)
  have lvl: "get_level h (c_addr c) k = Some (hop k (vs @ gs))"
    using get_level_laid_by [OF Cons.prems(2) al] by (simp add: mix_def)
  obtain h1 where s1: "set_level h (c_addr c) k (hop k (vs @ n # gs)) = Some h1"
    and lay1: "laid_by h1 (mix (Suc k) (n # gs) gs) pre" and fr1: "\<forall>a. a \<noteq> c_addr c \<longrightarrow> h1 a = h a"
    using mix_step [OF Cons.prems(2,3) al] by auto
  have "(hop k (vs @ gs))\<lparr>Span := Span (hop k (vs @ gs)) + 1\<rparr> = hop k (vs @ n # gs)"
    using hop_low [OF lo, of gs] hop_low [OF lo, of "n # gs"] Cons.prems(4) by simp
  then have "bump_levels k (u # us) h = bump_levels (Suc k) us h1"
    using lvl s1 u by simp
  then show ?case
    using Cons.IH [OF us lay1 Cons.prems(3)] Cons.prems(4) fr1 cpre by fastforce
qed

lemma mix_0: "laid_out h (pre @ old) \<Longrightarrow> laid_by h (mix 0 new old) pre"
  by (simp add: laid_out_def laid_by_append mix_def [abs_def])

lemma mix_full:
  assumes "laid_by h (mix k new old) pre" and "\<forall>c \<in> set pre. c_ht c \<le> k" and "laid_out h new"
  shows "laid_out h (pre @ new)"
proof -
  have "laid_by h (mix k new old) pre = laid_by h (\<lambda>i vs. hop i (vs @ new)) pre"
    using assms(2) by (intro laid_by_cong) (fastforce simp: mix_def)
  then show ?thesis using assms by (simp add: laid_out_def laid_by_append)
qed

lemma laid_out_Cons:
  "laid_out h (c # cs) \<longleftrightarrow> h (c_addr c) = Some (mk_node c (\<lambda>i. hop i cs)) \<and> laid_out h cs"
  by (auto simp: laid_out_def laid_by_def Cons_eq_append_conv)

lemma laid_out_appendD: "laid_out h (pre @ zs) \<Longrightarrow> laid_out h zs"
  by (simp add: laid_out_def laid_by_append)

lemma laid_out_other:
  "laid_out h cs \<Longrightarrow> (\<And>c. c \<in> set cs \<Longrightarrow> h' (c_addr c) = h (c_addr c)) \<Longrightarrow> laid_out h' cs"
  unfolding laid_out_def by (rule laid_by_other)

text \<open>The two loops of \<^verbatim>\<open>Insert\<close> together turn the layout of \<open>pre @ gs\<close> into that of \<open>pre @ n # gs\<close>.\<close>

lemma insert_loops_spec:
  assumes "laid_out h (pre @ gs)" and "distinct (map c_addr (pre @ n # gs))" and "updates 0 pre us"
    and "length us = skipListMaxLevel" and "c_ht n \<le> skipListMaxLevel" and "\<forall>c \<in> set pre. c_ht c \<le> skipListMaxLevel"
    and "rank0 = int (length pre) - 1"
  defines "h0 \<equiv> h(c_addr n \<mapsto> mk_node n (\<lambda>i. empty_level))"
  shows "\<exists>h1 h2. link_levels (c_addr n) rank0 0 (take (c_ht n) us) h0 = Some h1 \<and>
    bump_levels (c_ht n) (drop (c_ht n) us) h1 = Some h2 \<and> laid_out h2 (pre @ n # gs)"
proof -
  have np: "c_addr c \<noteq> c_addr n" if "c \<in> set (pre @ gs)" for c
    using that assms(2) by (auto simp: image_iff)
  have l0: "laid_by h0 (mix 0 (n # gs) gs) pre"
    using mix_0 [OF assms(1)] by (rule laid_by_other) (use np in \<open>simp add: h0_def\<close>)
  have u1: "updates 0 pre (take (c_ht n) us)" and u2: "updates (c_ht n) pre (drop (c_ht n) us)"
    using assms(3) by (auto simp: updates_def)
  have d1: "distinct (map c_addr (pre @ [n]))" using assms(2) by auto
  have n0: "h0 (c_addr n) = Some (mk_node n (\<lambda>i. if i < 0 then hop i gs else empty_level))"
    by (simp add: h0_def)
  obtain h1 where h1: "link_levels (c_addr n) rank0 0 (take (c_ht n) us) h0 = Some h1"
    "laid_by h1 (mix (c_ht n) (n # gs) gs) pre" "h1 (c_addr n) = Some (mk_node n (\<lambda>i. if i < c_ht n then hop i gs else empty_level))"
    "\<forall>a. a \<notin> c_addr ` set (pre @ [n]) \<longrightarrow> h1 a = h0 a"
    using link_levels_spec [OF u1 l0 d1 n0 _ assms(7)] assms(4,5) by auto
  obtain h2 where h2: "bump_levels (c_ht n) (drop (c_ht n) us) h1 = Some h2"
    "laid_by h2 (mix skipListMaxLevel (n # gs) gs) pre" "\<forall>a. a \<notin> c_addr ` set pre \<longrightarrow> h2 a = h1 a"
    using bump_levels_spec [OF u2 h1(2)] d1 assms(4,5) by auto
  have "c_addr n \<notin> c_addr ` set pre" using d1 by auto
  then have "h2 (c_addr n) = Some (mk_node n (\<lambda>i. hop i gs))"
    using h1(3) h2(3) by (simp add: mk_node_def)
  moreover have "laid_out h2 gs"
  proof (rule laid_out_other [OF laid_out_appendD [OF assms(1)]])
    show "h2 (c_addr c) = h (c_addr c)" if "c \<in> set gs" for c
      using that addr_disjoint [OF assms(2), of c] np [of c] h1(4) h2(3) by (auto simp: h0_def)
  qed
  ultimately have "laid_out h2 (n # gs)" by (simp add: laid_out_Cons)
  with mix_full [OF h2(2) assms(6)] h1(1) h2(1) show ?thesis by blast
qed

lemma Insert_rep:
  assumes "sl_rep s cs" and "\<not> f64_nan score"
  shows "\<exists>s'. Insert coins s member score = Some s' \<and>
    sl_rep s' (insort_key ckey \<lparr>c_addr = Fresh s, c_mem = member, c_score = score, c_ht = randomLevel coins\<rparr> cs)"
proof -
  define n where "n = \<lparr>c_addr = Fresh s, c_mem = member, c_score = score, c_ht = randomLevel coins\<rparr>"
  define ls where "ls = takeWhile (\<lambda>c. ckey c < ekey (member, score)) cs"
  define gs where "gs = dropWhile (\<lambda>c. ckey c < ekey (member, score)) cs"
  have cs: "cs = ls @ gs" by (simp add: ls_def gs_def)
  have ins: "insort_key ckey n cs = ls @ n # gs"
    by (simp add: insort_key_split ls_def gs_def n_def c_elem_def)
  obtain us where us: "descend (Heap s) score member skipListMaxLevel (Head s) 0 = Some us"
      "length us = skipListMaxLevel" "updates 0 (head_cell s # ls) us" "snd (us ! 0) = int (length ls)"
    using sl_rep_search [OF assms, of member] unfolding ls_def by (metis snd_conv)
  have R: "laid_out (Heap s) ((head_cell s # ls) @ gs)" "distinct (map c_addr ((head_cell s # ls) @ gs))"
    "\<forall>c \<in> set (head_cell s # cs). c_addr c < Fresh s"
    "\<forall>c \<in> set cs. 1 \<le> c_ht c \<and> c_ht c \<le> skipListMaxLevel \<and> \<not> f64_nan (c_score c)"
    "sorted (map ckey cs)" "Length s = int (length cs)"
    using assms(1) cs by (auto simp: sl_rep_def)
  have n: "1 \<le> c_ht n" "c_ht n \<le> skipListMaxLevel" "c_addr n = Fresh s" "\<not> f64_nan (c_score n)"
    using randomLevel_bounds assms(2) by (auto simp: n_def)
  have dist: "distinct (map c_addr ((head_cell s # ls) @ n # gs))"
    using R(2,3) cs n(3) by (auto simp: image_iff)
  have "\<forall>c \<in> set (head_cell s # ls). c_ht c \<le> skipListMaxLevel"
    using R(4) cs by (auto simp: head_cell_def)
  then obtain h1 h2 where h: "link_levels (c_addr n) (int (length ls)) 0 (take (c_ht n) us)
        ((Heap s)(c_addr n \<mapsto> mk_node n (\<lambda>i. empty_level))) = Some h1"
      "bump_levels (c_ht n) (drop (c_ht n) us) h1 = Some h2" "laid_out h2 ((head_cell s # ls) @ n # gs)"
    using insert_loops_spec [OF R(1) dist us(3,2) n(2)] by auto
  let ?s' = "s\<lparr>Heap := h2, Length := Length s + 1, Fresh := Suc (Fresh s)\<rparr>"
  have "Insert coins s member score = Some ?s'"
    using us h(1,2) by (simp add: Insert_def Let_def n_def mk_node_def map_replicate_const)
  moreover have "sorted (map ckey (ls @ n # gs))"
    using R(5) ins by (metis sorted_insort_key)
  then have "sl_rep ?s' (ls @ n # gs)"
    using h(3) dist R n cs by (auto simp: sl_rep_def head_cell_def less_Suc_eq)
  ultimately show ?thesis using ins by (auto simp: n_def)
qed

subsection \<open>Delete\<close>

lemma unlink_levels_spec:
  assumes "updates k pre us" and "laid_by h (mix k gs (d # gs)) pre" and "distinct (map c_addr (pre @ d # gs))"
    and "h (c_addr d) = Some (mk_node d (\<lambda>i. hop i gs))"
  shows "\<exists>h'. unlink_levels (c_addr d) k us h = Some h' \<and> laid_by h' (mix (k + length us) gs (d # gs)) pre \<and>
    (\<forall>a. a \<notin> c_addr ` set pre \<longrightarrow> h' a = h a)"
  using assms
proof (induction us arbitrary: k h)
  case Nil
  then show ?case by simp
next
  case (Cons u us)
  obtain as c vs where al: "at_level k pre as c vs" and u: "u = (c_addr c, int (length as))"
    and us: "updates (Suc k) pre us"
    using Cons.prems(1) by (auto simp: updates_Cons)
  have cpre: "c \<in> set pre" and lo: "\<forall>v \<in> set vs. c_ht v \<le> k" using al by (auto simp: at_level_def)
  have dp: "c_addr d \<notin> c_addr ` set pre" "c_addr d \<notin> c_addr ` set gs" using Cons.prems(3) by auto
  have lvl: "get_level h (c_addr c) k = Some (hop k (vs @ d # gs))"
    using get_level_laid_by [OF Cons.prems(2) al] by (simp add: mix_def)
  obtain h1 where s1: "set_level h (c_addr c) k (hop k (vs @ gs)) = Some h1"
    and lay1: "laid_by h1 (mix (Suc k) gs (d # gs)) pre" and fr1: "\<forall>a. a \<noteq> c_addr c \<longrightarrow> h1 a = h a"
    using mix_step [OF Cons.prems(2) _ al] Cons.prems(3) by auto
  note hops = hop_low [OF lo, of gs] hop_low [OF lo, of "d # gs"]
  have "unlink_levels (c_addr d) k (u # us) h = unlink_levels (c_addr d) (Suc k) us h1"
  proof (cases "k < c_ht d")
    case True
    then have "get_level h (c_addr d) k = Some (hop k gs)"
      using Cons.prems(4) by (simp add: get_level_def mk_node_def)
    then show ?thesis using True lvl s1 u hops by (simp add: algebra_simps)
  next
    case False
    then have "Forward (hop k (vs @ d # gs)) \<noteq> Some (c_addr d)"
      using hops dp(2) hop_Forward_in [of k gs "c_addr d"] by auto
    then show ?thesis using False lvl s1 u hops by simp
  qed
  moreover have "h1 (c_addr d) = Some (mk_node d (\<lambda>i. hop i gs))"
    using fr1 Cons.prems(4) dp(1) cpre by (metis image_eqI)
  ultimately show ?case
    using Cons.IH [OF us lay1 Cons.prems(3)] fr1 cpre by fastforce
qed

lemma delete_loop_spec:
  assumes "laid_out h (pre @ d # gs)" and "distinct (map c_addr (pre @ d # gs))" and "updates 0 pre us"
    and "length us = skipListMaxLevel" and "\<forall>c \<in> set pre. c_ht c \<le> skipListMaxLevel"
  shows "\<exists>h'. unlink_levels (c_addr d) 0 us h = Some h' \<and> laid_out h' (pre @ gs)"
proof -
  obtain h' where h': "unlink_levels (c_addr d) 0 us h = Some h'"
    "laid_by h' (mix skipListMaxLevel gs (d # gs)) pre" "\<forall>a. a \<notin> c_addr ` set pre \<longrightarrow> h' a = h a"
    using unlink_levels_spec [OF assms(3) mix_0 [OF assms(1)] assms(2) laid_outD [OF assms(1)]] assms(4) by auto
  have "laid_out h gs" using laid_out_appendD [of h "pre @ [d]"] assms(1) by simp
  then have "laid_out h' gs"
    by (rule laid_out_other) (use addr_disjoint [OF assms(2)] h'(3) in auto)
  then show ?thesis using mix_full [OF h'(2) assms(5)] h'(1) by blast
qed

text \<open>A key splits the cells into the smaller ones, and the others with the found cell, if any, first.\<close>

lemma Delete_absent:
  assumes "sl_rep s cs" and "\<not> f64_nan score" and "ekey (member, score) \<notin> ckey ` set cs"
  shows "Delete s member score = Some (False, s)"
proof -
  let ?k = "ekey (member, score)"
  define ls where "ls = takeWhile (\<lambda>c. ckey c < ?k) cs"
  define gs where "gs = dropWhile (\<lambda>c. ckey c < ?k) cs"
  have cs: "cs = ls @ gs" by (simp add: ls_def gs_def)
  obtain us where us: "descend (Heap s) score member skipListMaxLevel (Head s) 0 = Some us"
      "get_level (Heap s) (fst (us ! 0)) 0 = Some (hop 0 gs)"
    using sl_rep_search [OF assms(1,2), of member] unfolding gs_def by metis
  have R: "laid_out (Heap s) (head_cell s # ls @ gs)" "\<forall>c \<in> set cs. 1 \<le> c_ht c \<and> \<not> f64_nan (c_score c)"
    using assms(1) cs by (auto simp: sl_rep_def)
  show ?thesis
  proof (cases gs)
    case Nil
    then show ?thesis using us by (simp add: Delete_def empty_level_def)
  next
    case (Cons d gs')
    have hd: "Heap s (c_addr d) = Some (mk_node d (\<lambda>i. hop i gs'))" "0 < c_ht d" "\<not> f64_nan (c_score d)"
      using laid_outD [of "Heap s" "head_cell s # ls" d gs'] R Cons cs by auto
    moreover have "ckey d \<noteq> ?k" using assms(3) Cons cs by auto
    then have "\<not> (f64_eq (c_score d) score \<and> c_mem d = member)"
      using eq_key [OF hd(3) assms(2)] by (simp add: c_elem_def)
    ultimately show ?thesis using us Cons by (simp add: Delete_def mk_node_def)
  qed
qed

lemma Delete_present:
  assumes "sl_rep s cs" and "\<not> f64_nan score" and "ekey (member, score) \<in> ckey ` set cs"
  shows "\<exists>s' ls d gs. cs = ls @ d # gs \<and> ckey d = ekey (member, score) \<and> ekey (member, score) \<notin> ckey ` set ls \<and>
    Delete s member score = Some (True, s') \<and> sl_rep s' (ls @ gs)"
proof -
  let ?k = "ekey (member, score)"
  define ls where "ls = takeWhile (\<lambda>c. ckey c < ?k) cs"
  define gs where "gs = dropWhile (\<lambda>c. ckey c < ?k) cs"
  have cs: "cs = ls @ gs" by (simp add: ls_def gs_def)
  have lk: "?k \<notin> ckey ` set ls" unfolding ls_def by (auto dest: set_takeWhileD)
  obtain us where us: "descend (Heap s) score member skipListMaxLevel (Head s) 0 = Some us"
      "length us = skipListMaxLevel" "updates 0 (head_cell s # ls) us"
      "get_level (Heap s) (fst (us ! 0)) 0 = Some (hop 0 gs)" and gk: "\<forall>g \<in> set gs. ?k \<le> ckey g"
    using sl_rep_search [OF assms(1,2), of member] unfolding ls_def gs_def by metis
  obtain d gs' where gs: "gs = d # gs'" and dk: "ckey d = ?k"
  proof (cases gs)
    case Nil
    then show thesis using assms(3) lk cs by simp
  next
    case (Cons d gs')
    have "\<forall>g \<in> set gs'. ckey d \<le> ckey g" using assms(1) cs Cons by (auto simp: sl_rep_def sorted_append)
    then have "ckey d \<le> ?k" using assms(3) lk cs Cons by auto
    then show thesis using gk Cons that by (metis antisym list.set_intros(1))
  qed
  have R: "laid_out (Heap s) ((head_cell s # ls) @ d # gs')" "distinct (map c_addr ((head_cell s # ls) @ d # gs'))"
    "\<forall>c \<in> set (head_cell s # ls). c_ht c \<le> skipListMaxLevel" "\<not> f64_nan (c_score d)" "0 < c_ht d"
    using assms(1) cs gs by (auto simp: sl_rep_def head_cell_def)
  obtain h' where h': "unlink_levels (c_addr d) 0 us (Heap s) = Some h'" "laid_out h' ((head_cell s # ls) @ gs')"
    using delete_loop_spec [OF R(1,2) us(3,2) R(3)] by blast
  have "f64_eq (c_score d) score \<and> c_mem d = member"
    using eq_key [OF R(4) assms(2)] dk by (simp add: c_elem_def)
  then have "Delete s member score = Some (True, s\<lparr>Heap := h', Length := Length s - 1\<rparr>)"
    using us gs laid_outD [OF R(1)] R(5) h'(1) by (simp add: Delete_def mk_node_def)
  moreover have "sl_rep (s\<lparr>Heap := h', Length := Length s - 1\<rparr>) (ls @ gs')"
    using assms(1) h'(2) cs gs by (auto simp: sl_rep_def head_cell_def sorted_append)
  ultimately show ?thesis using cs gs dk lk by blast
qed

subsection \<open>Ranks\<close>

lemma GetRank_rep:
  assumes "sl_rep s cs" and "\<not> f64_nan score"
  shows "GetRank s member score = Some (if ekey (member, score) \<in> ckey ` set cs
    then int (length (takeWhile (\<lambda>c. ckey c < ekey (member, score)) cs)) + 1 else 0)"
proof -
  let ?k = "ekey (member, score)"
  define ls where "ls = takeWhile (\<lambda>c. ckey c < ?k) cs"
  define gs where "gs = dropWhile (\<lambda>c. ckey c < ?k) cs"
  have cs: "cs = ls @ gs" by (simp add: ls_def gs_def)
  have lk: "?k \<notin> ckey ` set ls" unfolding ls_def by (auto dest: set_takeWhileD)
  obtain us where us: "descend (Heap s) score member skipListMaxLevel (Head s) 0 = Some us"
      "us ! 0 = (c_addr (last (head_cell s # ls)), int (length ls))"
      "get_level (Heap s) (fst (us ! 0)) 0 = Some (hop 0 gs)" and gk: "\<forall>g \<in> set gs. ?k \<le> ckey g"
    using sl_rep_search [OF assms, of member] unfolding ls_def gs_def by metis
  have R: "laid_out (Heap s) (head_cell s # ls @ gs)" "\<forall>c \<in> set cs. 1 \<le> c_ht c \<and> \<not> f64_nan (c_score c)"
    "sorted (map ckey cs)"
    using assms(1) cs by (auto simp: sl_rep_def)
  show ?thesis
  proof (cases gs)
    case Nil
    then show ?thesis using us cs lk by (simp add: GetRank_def empty_level_def)
  next
    case (Cons d gs')
    have hd: "Heap s (c_addr d) = Some (mk_node d (\<lambda>i. hop i gs'))" "0 < c_ht d" "\<not> f64_nan (c_score d)"
      using laid_outD [of "Heap s" "head_cell s # ls" d gs'] R Cons cs by auto
    have "\<forall>g \<in> set gs'. ckey d \<le> ckey g" using R(3) cs Cons by (auto simp: sorted_append)
    then have "?k \<in> ckey ` set cs \<longleftrightarrow> ckey d = ?k"
      using lk gk cs Cons by (force intro: antisym)
    also have "\<dots> \<longleftrightarrow> f64_eq (c_score d) score \<and> c_mem d = member"
      using eq_key [OF hd(3) assms(2)] by (simp add: c_elem_def)
    finally show ?thesis
      using us hd Cons unfolding ls_def [symmetric] by (auto simp: GetRank_def mk_node_def)
  qed
qed

lemma hop_Span_pos: "Forward (hop i cs) = Some a \<Longrightarrow> 1 \<le> Span (hop i cs)"
  by (induction cs) (auto simp: empty_level_def split: if_splits)

lemma advance_by_rank_spec:
  assumes "laid_out h (as @ c # ls @ gs)" and "i < c_ht c" and "rank = int (length as) + int (length ls)"
  shows "\<exists>us c' vs. c # ls = us @ c' # vs \<and> i < c_ht c' \<and> (\<forall>v \<in> set vs. c_ht v \<le> i) \<and>
    advance_by_rank h i rank (c_addr c) (int (length as)) = Some (c_addr c', int (length (as @ us)))"
  using assms
proof (induction ls arbitrary: as c rule: length_induct)
  case (1 ls)
  have lvl: "get_level h (c_addr c) i = Some (hop i (ls @ gs))"
    using laid_out_get_level 1 by blast
  from first_high [of ls i] show ?case
  proof (elim disjE exE conjE)
    assume low: "\<forall>v \<in> set ls. c_ht v \<le> i"
    have "\<not> int (length as) + Span (hop i (ls @ gs)) \<le> rank" if "Forward (hop i gs) = Some a" for a
      using hop_Span_pos [OF that] "1.prems"(3) hop_low [OF low] by simp
    then have stay: "advance_by_rank h i rank (c_addr c) (int (length as)) = Some (c_addr c, int (length as))"
      using lvl hop_low [OF low] by (subst advance_by_rank.simps) (auto split: option.split)
    have "c # ls = [] @ c # ls" by simp
    then show ?thesis using low stay "1.prems"(2) by fastforce
  next
    fix ws d ls' assume ls: "ls = ws @ d # ls'" and d: "i < c_ht d" and ws: "\<forall>w \<in> set ws. c_ht w \<le> i"
    have hopd: "hop i (ls @ gs) = \<lparr>Forward = Some (c_addr d), Span = 1 + int (length ws)\<rparr>"
      using ls d ws hop_low [OF ws, of "d # ls' @ gs"] by simp
    have step: "advance_by_rank h i rank (c_addr c) (int (length as))
        = advance_by_rank h i rank (c_addr d) (int (length (as @ c # ws)))"
      using lvl hopd ls "1.prems"(3) by (subst advance_by_rank.simps) (simp add: algebra_simps)
    have "\<exists>us c' vs. d # ls' = us @ c' # vs \<and> i < c_ht c' \<and> (\<forall>v \<in> set vs. c_ht v \<le> i) \<and>
      advance_by_rank h i rank (c_addr d) (int (length (as @ c # ws))) = Some (c_addr c', int (length ((as @ c # ws) @ us)))"
      using "1.prems" ls d by (intro "1.IH" [rule_format, of ls' "as @ c # ws"]) auto
    then obtain us c' vs where us: "d # ls' = us @ c' # vs" "i < c_ht c'" "\<forall>v \<in> set vs. c_ht v \<le> i"
      and adv: "advance_by_rank h i rank (c_addr d) (int (length (as @ c # ws))) = Some (c_addr c', int (length ((as @ c # ws) @ us)))"
      by blast
    have "c # ls = (c # ws @ us) @ c' # vs" using ls us(1) by simp
    moreover have "(as @ c # ws) @ us = as @ c # ws @ us" by simp
    ultimately show ?thesis using us adv step by metis
  qed
qed

lemma descend_by_rank_spec:
  assumes "laid_out h (as @ c # ls @ gs)" and "Suc k \<le> c_ht c" and "rank = int (length as) + int (length ls)"
    and "\<forall>v \<in> set ls. 1 \<le> c_ht v"
  shows "descend_by_rank h rank (Suc k) (c_addr c) (int (length as)) = Some (Some (c_addr (last (c # ls))))"
  using assms
proof (induction k arbitrary: as c ls)
  case (0 as c ls)
  obtain us c' vs where s: "c # ls = us @ c' # vs" "\<forall>v \<in> set vs. c_ht v \<le> 0"
    and adv: "advance_by_rank h 0 rank (c_addr c) (int (length as)) = Some (c_addr c', int (length (as @ us)))"
    using advance_by_rank_spec [OF "0.prems"(1) _ "0.prems"(3), of 0] "0.prems"(2) by auto
  have "set vs \<subseteq> set ls" using s(1) by (cases us) auto
  then have "vs = []" using s(2) "0.prems"(4) by (cases vs) auto
  with s have "last (c # ls) = c'" "length us = length ls"
    by (metis last_snoc, metis length_Cons length_append_singleton nat.inject)
  then show ?case using adv "0.prems"(3) by simp
next
  case (Suc k as c ls)
  obtain us c' vs where s: "c # ls = us @ c' # vs" "Suc k < c_ht c'" "\<forall>v \<in> set vs. c_ht v \<le> Suc k"
    and adv: "advance_by_rank h (Suc k) rank (c_addr c) (int (length as)) = Some (c_addr c', int (length (as @ us)))"
    using advance_by_rank_spec [OF Suc.prems(1) _ Suc.prems(3), of "Suc k"] Suc.prems(2) by auto
  have lay: "laid_out h ((as @ us) @ c' # vs @ gs)" using Suc.prems(1) s(1) by (metis append.assoc append_Cons)
  have len: "length ls = length us + length vs" using arg_cong [OF s(1), of length] by simp
  have sub: "set vs \<subseteq> set ls" using s(1) by (cases us) auto
  have lst: "last (c # ls) = last (c' # vs)" using s(1) by (metis last_appendR list.distinct(1))
  show ?case
  proof (cases "vs = []")
    case True
    then show ?thesis using adv len Suc.prems(3) lst by simp
  next
    case False
    moreover have "descend_by_rank h rank (Suc k) (c_addr c') (int (length (as @ us))) = Some (Some (c_addr (last (c' # vs))))"
      by (rule Suc.IH [OF lay]) (use s(2) len Suc.prems(3,4) sub in auto)
    ultimately show ?thesis
      using adv len Suc.prems(3) lst by (simp del: descend_by_rank.simps(2) add: descend_by_rank.simps(2) [of _ _ "Suc k"])
  qed
qed

lemma GetByRank_rep:
  assumes "sl_rep s cs"
  shows "GetByRank s r = Some (if 1 \<le> r \<and> r \<le> int (length cs) then Some (c_addr (cs ! (nat r - 1))) else None)"
proof (cases "1 \<le> r \<and> r \<le> int (length cs)")
  case True
  define m where "m = nat r - 1"
  have m: "r = int (Suc m)" "m < length cs" using True by (auto simp: m_def)
  have "laid_out (Heap s) ([] @ head_cell s # take (Suc m) cs @ drop (Suc m) cs)"
    using assms by (simp add: sl_rep_def)
  then have "descend_by_rank (Heap s) r (Suc 15) (c_addr (head_cell s)) (int (length ([] :: cell list)))
      = Some (Some (c_addr (last (head_cell s # take (Suc m) cs))))"
    by (rule descend_by_rank_spec)
      (use assms m in \<open>auto simp: sl_rep_def head_cell_def skipListMaxLevel_def dest: in_set_takeD\<close>)
  moreover have "last (head_cell s # take (Suc m) cs) = cs ! m"
    using m(2) by (simp add: take_Suc_conv_app_nth)
  moreover have "nat r - 1 = m" by (simp add: m_def)
  ultimately show ?thesis
    using True m(2) assms by (simp add: GetByRank_def skipListMaxLevel_def head_cell_def sl_rep_def)
qed (use assms in \<open>auto simp: GetByRank_def sl_rep_def\<close>)

subsection \<open>The elements in order\<close>

definition node_elem :: "SkipListNode \<Rightarrow> elem" where
  "node_elem n = (Member n, Score n)"

definition first_addr :: "cell list \<Rightarrow> nat option" where
  "first_addr gs = (case gs of [] \<Rightarrow> None | g # _ \<Rightarrow> Some (c_addr g))"

lemma first_addr_simps [simp]: "first_addr [] = None" "first_addr (g # gs) = Some (c_addr g)"
  by (simp_all add: first_addr_def)

lemma node_elem_mk_node [simp]: "node_elem (mk_node c L) = c_elem c"
  by (simp add: node_elem_def c_elem_def mk_node_def)

lemma Forward_hop_0: "\<forall>g \<in> set gs. 1 \<le> c_ht g \<Longrightarrow> Forward (hop 0 gs) = first_addr gs"
  by (cases gs) (auto simp: empty_level_def)

lemma collect_spec:
  assumes "laid_out h gs" and "\<forall>g \<in> set gs. 1 \<le> c_ht g"
  shows "\<exists>ns. collect h k (first_addr gs) = Some ns \<and> map node_elem ns = map c_elem (take k gs)"
  using assms
proof (induction k arbitrary: gs)
  case 0
  then show ?case by simp
next
  case (Suc k)
  show ?case
  proof (cases gs)
    case Nil
    then show ?thesis by simp
  next
    case (Cons g gs')
    have h: "h (c_addr g) = Some (mk_node g (\<lambda>i. hop i gs'))" and l: "laid_out h gs'"
      using Suc.prems(1) Cons by (simp_all add: laid_out_Cons)
    have "get_level h (c_addr g) 0 = Some (hop 0 gs')"
      using h Suc.prems(2) Cons by (simp add: get_level_def mk_node_def Suc_le_eq)
    moreover have "Forward (hop 0 gs') = first_addr gs'"
      using Suc.prems(2) Cons by (intro Forward_hop_0) simp
    moreover obtain ns where "collect h k (first_addr gs') = Some ns" "map node_elem ns = map c_elem (take k gs')"
      using Suc.IH [OF l] Suc.prems(2) Cons by auto
    ultimately show ?thesis
      using Cons h by simp
  qed
qed

definition sl_elems :: "SkipList \<Rightarrow> elem list" where
  "sl_elems s = (case get_level (Heap s) (Head s) 0 of
       None \<Rightarrow> []
     | Some l \<Rightarrow> (case collect (Heap s) (nat (Length s)) (Forward l) of None \<Rightarrow> [] | Some ns \<Rightarrow> map node_elem ns))"

definition sl_inv :: "SkipList \<Rightarrow> bool" where
  "sl_inv s \<longleftrightarrow> (\<exists>cs. sl_rep s cs)"

lemma sl_elems_rep: "sl_rep s cs \<Longrightarrow> sl_elems s = map c_elem cs"
proof -
  assume rep: "sl_rep s cs"
  then have l: "laid_out (Heap s) ([] @ head_cell s # cs)" and ht: "\<forall>c \<in> set cs. 1 \<le> c_ht c"
    by (auto simp: sl_rep_def)
  have "get_level (Heap s) (Head s) 0 = Some (hop 0 cs)"
    using laid_out_get_level [OF l, of 0] by (simp add: head_cell_def skipListMaxLevel_def)
  moreover have "laid_out (Heap s) cs" using l by (simp add: laid_out_Cons)
  then obtain ns where "collect (Heap s) (length cs) (first_addr cs) = Some ns" "map node_elem ns = map c_elem cs"
    using collect_spec [of "Heap s" cs "length cs"] ht by auto
  ultimately show ?thesis
    using rep Forward_hop_0 [OF ht] by (simp add: sl_elems_def sl_rep_def)
qed

lemma sl_Range_rep:
  assumes "sl_rep s cs"
  shows "\<exists>ns. sl_Range s start stop = Some ns \<and> map node_elem ns =
    map c_elem (take (nat (min stop (int (length cs)) - max start 1 + 1)) (drop (nat (max start 1 - 1)) cs))"
proof -
  have len: "Length s = int (length cs)" using assms by (simp add: sl_rep_def)
  let ?a = "max start 1" and ?b = "min stop (int (length cs))"
  have clamp: "(if start < 1 then 1 else start) = ?a" "(if Length s < stop then Length s else stop) = ?b"
    using len by auto
  show ?thesis
  proof (cases "?a > ?b")
    case True
    then show ?thesis using clamp by (simp add: sl_Range_def Let_def)
  next
    case False
    define m where "m = nat ?a - 1"
    have m: "?a = int (Suc m)" "m < length cs" using False by (auto simp: m_def)
    have "cs = take m cs @ drop m cs" by simp
    then have "laid_out (Heap s) ((head_cell s # take m cs) @ drop m cs)"
      using assms by (simp add: sl_rep_def)
    from laid_out_appendD [OF this]
    obtain ns where ns: "collect (Heap s) (nat (?b - ?a + 1)) (first_addr (drop m cs)) = Some ns"
      "map node_elem ns = map c_elem (take (nat (?b - ?a + 1)) (drop m cs))"
      using collect_spec [of "Heap s" "drop m cs"] assms by (fastforce simp: sl_rep_def dest: in_set_dropD)
    have "GetByRank s ?a = Some (first_addr (drop m cs))"
      using GetByRank_rep [OF assms, of ?a] m False by (simp add: Cons_nth_drop_Suc [symmetric])
    then show ?thesis
      using ns False m(1) unfolding sl_Range_def clamp Let_def by simp
  qed
qed

lemma NewSkipList_rep: "sl_rep NewSkipList []"
  by (simp add: sl_rep_def NewSkipList_def head_cell_def laid_out_Cons mk_node_def map_replicate_const)
    (simp add: laid_out_def laid_by_def)

subsection \<open>The interface of an ordered index\<close>

text \<open>What a sorted set relies on: an index of (member, score) pairs ordered by score and then by member. Each
  operation returns, keeps the invariant and acts on the ordered list of elements as stated.\<close>

definition range_of :: "int \<Rightarrow> int \<Rightarrow> 'a list \<Rightarrow> 'a list" where
  "range_of start stop xs = take (nat (min stop (int (length xs)) - max start 1 + 1)) (drop (nat (max start 1 - 1)) xs)"

locale ordered_index =
  fixes emp :: "'t"
    and ins :: "(nat \<Rightarrow> bool) \<Rightarrow> 't \<Rightarrow> string \<Rightarrow> f64 \<Rightarrow> 't option"
    and del :: "'t \<Rightarrow> string \<Rightarrow> f64 \<Rightarrow> (bool \<times> 't) option"
    and rank :: "'t \<Rightarrow> string \<Rightarrow> f64 \<Rightarrow> int option"
    and range :: "'t \<Rightarrow> int \<Rightarrow> int \<Rightarrow> SkipListNode list option"
    and elems :: "'t \<Rightarrow> elem list"
    and inv :: "'t \<Rightarrow> bool"
  assumes inv_emp: "inv emp" and elems_emp: "elems emp = []"
    and elems_sorted: "inv t \<Longrightarrow> sorted (map ekey (elems t))"
    and elems_no_nan: "inv t \<Longrightarrow> e \<in> set (elems t) \<Longrightarrow> \<not> f64_nan (snd e)"
    and ins_spec: "inv t \<Longrightarrow> \<not> f64_nan sc \<Longrightarrow>
      \<exists>t'. ins coins t m sc = Some t' \<and> inv t' \<and> elems t' = insort_key ekey (m, sc) (elems t)"
    and del_spec: "inv t \<Longrightarrow> \<not> f64_nan sc \<Longrightarrow>
      \<exists>t'. del t m sc = Some (ekey (m, sc) \<in> ekey ` set (elems t), t') \<and> inv t' \<and>
        elems t' = del_key (ekey (m, sc)) (elems t)"
    and rank_spec: "inv t \<Longrightarrow> \<not> f64_nan sc \<Longrightarrow>
      rank t m sc = Some (if ekey (m, sc) \<in> ekey ` set (elems t)
        then int (length (takeWhile (\<lambda>e. ekey e < ekey (m, sc)) (elems t))) + 1 else 0)"
    and range_spec: "inv t \<Longrightarrow>
      \<exists>ns. range t start stop = Some ns \<and> map node_elem ns = range_of start stop (elems t)"

lemma insort_key_map:
  "map g (insort_key (\<lambda>c. f (g c)) x xs) = insort_key f (g x) (map g xs)"
  by (induction xs) auto

lemma Insert_elems:
  assumes "sl_rep s cs" and "\<not> f64_nan score"
  shows "\<exists>s' cs'. Insert coins s member score = Some s' \<and> sl_rep s' cs' \<and>
    map c_elem cs' = insort_key ekey (member, score) (map c_elem cs)"
proof -
  define n where "n = \<lparr>c_addr = Fresh s, c_mem = member, c_score = score, c_ht = randomLevel coins\<rparr>"
  have "c_elem n = (member, score)" by (simp add: n_def c_elem_def)
  then have "map c_elem (insort_key ckey n cs) = insort_key ekey (member, score) (map c_elem cs)"
    using insort_key_map [of c_elem ekey n cs] by simp
  then show ?thesis using Insert_rep [OF assms, of coins member] unfolding n_def by blast
qed

interpretation skip_list: ordered_index NewSkipList Insert Delete GetRank sl_Range sl_elems sl_inv
proof unfold_locales
  show "sl_inv NewSkipList" using NewSkipList_rep by (auto simp: sl_inv_def)
  show "sl_elems NewSkipList = []" using sl_elems_rep [OF NewSkipList_rep] by simp
next
  fix t assume "sl_inv t"
  then obtain cs where rep: "sl_rep t cs" by (auto simp: sl_inv_def)
  note el = sl_elems_rep [OF rep]
  show "sorted (map ekey (sl_elems t))" using rep el by (simp add: sl_rep_def comp_def)
  show "\<not> f64_nan (snd e)" if "e \<in> set (sl_elems t)" for e
    using that rep el by (auto simp: sl_rep_def c_elem_def)
  show "\<exists>ns. sl_Range t start stop = Some ns \<and> map node_elem ns = range_of start stop (sl_elems t)" for start stop
    using sl_Range_rep [OF rep] el by (simp add: range_of_def take_map drop_map)
  fix sc :: f64 and m coins assume sc: "\<not> f64_nan sc"
  have key: "ekey (m, sc) \<in> ckey ` set cs \<longleftrightarrow> ekey (m, sc) \<in> ekey ` set (sl_elems t)"
    using el by (simp add: image_image)
  show "\<exists>t'. Insert coins t m sc = Some t' \<and> sl_inv t' \<and> sl_elems t' = insort_key ekey (m, sc) (sl_elems t)"
    using Insert_elems [OF rep sc, of coins m] el sl_elems_rep by (metis sl_inv_def)
  show "\<exists>t'. Delete t m sc = Some (ekey (m, sc) \<in> ekey ` set (sl_elems t), t') \<and> sl_inv t' \<and>
      sl_elems t' = del_key (ekey (m, sc)) (sl_elems t)"
  proof (cases "ekey (m, sc) \<in> ckey ` set cs")
    case False
    then show ?thesis
      using Delete_absent [OF rep sc False] key \<open>sl_inv t\<close> del_key_notin by simp
  next
    case True
    obtain s' ls d gs where "cs = ls @ d # gs" "ckey d = ekey (m, sc)" "ekey (m, sc) \<notin> ckey ` set ls"
      "Delete t m sc = Some (True, s')" "sl_rep s' (ls @ gs)"
      using Delete_present [OF rep sc True] by blast
    moreover from this have "del_key (ekey (m, sc)) (map c_elem cs) = map c_elem (ls @ gs)"
      using del_key_skip [of "ekey (m, sc)" "map c_elem ls"] by (simp add: image_image)
    ultimately show ?thesis using True key el sl_elems_rep [of s'] by (auto simp: sl_inv_def)
  qed
  show "GetRank t m sc = Some (if ekey (m, sc) \<in> ekey ` set (sl_elems t)
      then int (length (takeWhile (\<lambda>e. ekey e < ekey (m, sc)) (sl_elems t))) + 1 else 0)"
    using GetRank_rep [OF rep sc, of m] key el by (simp add: takeWhile_map comp_def)
qed

subsection \<open>Properties\<close>

text \<open>C6. \<^verbatim>\<open>Insert\<close> always ends without a panic, whatever heights the coin flips give, keeps the pointer structure
  (levels, forward pointers and spans) consistent, and refines sorted insertion into the list of elements: the new
  pair is put behind every pair that is not greater.\<close>

theorem skip_list_insert:
  assumes "sl_inv t" and "\<not> f64_nan score"
  shows "\<exists>t'. Insert coins t member score = Some t' \<and> sl_inv t' \<and>
    sl_elems t' = insort_key ekey (member, score) (sl_elems t)"
  by (rule skip_list.ins_spec [OF assms])

theorem skip_list_insert_witness:
  "\<exists>t'. Insert (\<lambda>_. False) NewSkipList ''a'' f64_zero = Some t' \<and> sl_inv t' \<and> sl_elems t' = [(''a'', f64_zero)]"
proof -
  have "\<not> f64_nan f64_zero" by code_simp
  then show ?thesis
    using skip_list_insert [OF skip_list.inv_emp, of f64_zero "\<lambda>_. False" "''a''"] by (simp add: skip_list.elems_emp)
qed

text \<open>C25. \<^verbatim>\<open>Delete\<close> always ends without a panic, keeps the structure consistent, reports whether a pair with this
  score and member was there and removes exactly the first such pair.\<close>

theorem skip_list_delete:
  assumes "sl_inv t" and "\<not> f64_nan score"
  shows "\<exists>t'. Delete t member score = Some (ekey (member, score) \<in> ekey ` set (sl_elems t), t') \<and> sl_inv t' \<and>
    sl_elems t' = del_key (ekey (member, score)) (sl_elems t)"
  by (rule skip_list.del_spec [OF assms])

theorem skip_list_delete_witness:
  "\<exists>t'. Delete NewSkipList ''a'' f64_zero = Some (False, t') \<and> sl_inv t' \<and> sl_elems t' = []"
proof -
  have "\<not> f64_nan f64_zero" by code_simp
  then show ?thesis
    using skip_list_delete [OF skip_list.inv_emp, of f64_zero "''a''"] by (simp add: skip_list.elems_emp)
qed

text \<open>C12. \<^verbatim>\<open>GetRank\<close>, which adds up spans while it descends, equals the reference definition on the ordered list of
  elements: one more than the number of pairs in front, and 0 for a pair that is not there.\<close>

theorem skip_list_rank:
  assumes "sl_inv t" and "\<not> f64_nan score"
  shows "GetRank t member score = Some (if ekey (member, score) \<in> ekey ` set (sl_elems t)
    then int (length (takeWhile (\<lambda>e. ekey e < ekey (member, score)) (sl_elems t))) + 1 else 0)"
  by (rule skip_list.rank_spec [OF assms])

theorem skip_list_rank_witness: "GetRank NewSkipList ''a'' f64_zero = Some 0"
proof -
  have "\<not> f64_nan f64_zero" by code_simp
  then show ?thesis
    using skip_list_rank [OF skip_list.inv_emp, of f64_zero "''a''"] by (simp add: skip_list.elems_emp)
qed

text \<open>C26. \<^verbatim>\<open>Range\<close> with any bounds ends without a panic and gives the nodes at the positions from \<^verbatim>\<open>start\<close> to
  \<^verbatim>\<open>end\<close> that exist, counted from 1, in order.\<close>

theorem skip_list_range:
  assumes "sl_inv t"
  shows "\<exists>ns. sl_Range t start stop = Some ns \<and> map node_elem ns = range_of start stop (sl_elems t)"
  by (rule skip_list.range_spec [OF assms])

theorem skip_list_range_witness: "\<exists>ns. sl_Range NewSkipList 1 (-1) = Some ns \<and> map node_elem ns = []"
  using skip_list_range [OF skip_list.inv_emp, of 1 "-1"] by (simp add: skip_list.elems_emp range_of_def)

end
