(* ===== verification/ZSet.thy ===== *)
theory ZSet
  imports SkipListCorrect
begin

text \<open>
  The sorted set of \<^verbatim>\<open>store/store.go\<close>: a hash map from members to scores beside an ordered index of the same
  pairs. The lemmas of the interface \<open>ordered_index\<close> needed by a sorted set are proved once in its context,
  from the laws of the index alone, and used through the interpretation on the skip list.
\<close>

definition indexes :: "(string \<Rightarrow> f64 option) \<Rightarrow> elem list \<Rightarrow> bool" where
  "indexes hm es \<longleftrightarrow> distinct (map fst es) \<and> map_of es = hm"

subsection \<open>Ordered lists of pairs with distinct members\<close>

lemma map_of_insort_key:
  "m \<notin> fst ` set es \<Longrightarrow> map_of (insort_key ekey (m, sc) es) = (map_of es)(m \<mapsto> sc)"
  by (induction es) (auto simp: fun_eq_iff)

lemma distinct_insort_key:
  "distinct (map fst (insort_key ekey e es)) \<longleftrightarrow> fst e \<notin> fst ` set es \<and> distinct (map fst es)"
  by (induction es) (auto simp: set_insort_key)

lemma indexes_insort:
  "indexes hm es \<Longrightarrow> hm m = None \<Longrightarrow> indexes (hm(m \<mapsto> sc)) (insort_key ekey (m, sc) es)"
  by (auto simp: indexes_def distinct_insort_key map_of_insort_key map_of_eq_None_iff)

lemma del_key_member:
  "distinct (map fst es) \<Longrightarrow> (m, sc) \<in> set es \<Longrightarrow> del_key (ekey (m, sc)) es = filter (\<lambda>e. fst e \<noteq> m) es"
proof (induction es)
  case Nil
  then show ?case by simp
next
  case (Cons e es)
  show ?case
  proof (cases "e = (m, sc)")
    case True
    with Cons.prems have "m \<notin> fst ` set es" by simp
    then have "filter (\<lambda>e. fst e \<noteq> m) es = es" by (auto simp: filter_id_conv)
    with True show ?thesis by simp
  next
    case False
    with Cons.prems have "(m, sc) \<in> set es" by simp
    then have "fst e \<noteq> m" using Cons.prems(1) by (force simp: image_iff)
    then have "ekey e \<noteq> ekey (m, sc)" by (simp add: ekey_def)
    with Cons \<open>fst e \<noteq> m\<close> \<open>(m, sc) \<in> set es\<close> show ?thesis by simp
  qed
qed

lemma map_of_filter_fst: "map_of (filter (\<lambda>e. fst e \<noteq> m) es) = (map_of es)(m := None)"
  by (induction es) (auto simp: fun_eq_iff)

lemma indexes_del:
  assumes "indexes hm es" and "hm m = Some sc"
  shows "indexes (hm(m := None)) (del_key (ekey (m, sc)) es)"
proof -
  have "(m, sc) \<in> set es" using assms by (auto simp: indexes_def dest: map_of_SomeD)
  then show ?thesis
    using assms del_key_member [of es m sc]
    by (auto simp: indexes_def map_of_filter_fst distinct_map_filter)
qed

lemma indexes_mem: "indexes hm es \<Longrightarrow> (m, sc) \<in> set es \<longleftrightarrow> hm m = Some sc"
  by (auto simp: indexes_def)

lemma indexes_length: "indexes hm es \<Longrightarrow> length es = card (dom hm)"
  by (metis indexes_def gm_ok_def gm_length)

text \<open>The position of a member in the order is the number of pairs with a smaller key.\<close>

lemma takeWhile_sorted_set:
  assumes "sorted (map ekey es)"
  shows "set (takeWhile (\<lambda>e. ekey e < k) es) = {e \<in> set es. ekey e < k}"
proof -
  define ls where "ls = takeWhile (\<lambda>e. ekey e < k) es"
  define gs where "gs = dropWhile (\<lambda>e. ekey e < k) es"
  have es: "es = ls @ gs" by (simp add: ls_def gs_def)
  have "\<forall>e \<in> set ls. ekey e < k" by (auto simp: ls_def dest: set_takeWhileD)
  moreover have "\<forall>e \<in> set gs. k \<le> ekey e" using dropWhile_ge [OF assms] by (auto simp: gs_def)
  ultimately have "set ls = {e \<in> set (ls @ gs). ekey e < k}" by fastforce
  then show ?thesis unfolding es [symmetric] by (simp only: ls_def)
qed

lemma takeWhile_sorted_card:
  assumes "sorted (map ekey es)" and "distinct (map fst es)"
  shows "length (takeWhile (\<lambda>e. ekey e < k) es) = card {e \<in> set es. ekey e < k}"
proof -
  have "distinct es" using assms(2) by (simp add: distinct_map)
  then have "distinct (takeWhile (\<lambda>e. ekey e < k) es)" by (rule distinct_takeWhile)
  from distinct_card [OF this] show ?thesis by (simp only: takeWhile_sorted_set [OF assms(1)])
qed

definition smaller :: "(string \<Rightarrow> f64 option) \<Rightarrow> int \<times> string \<Rightarrow> elem set" where
  "smaller hm k = {(m, sc). hm m = Some sc \<and> ekey (m, sc) < k}"

subsection \<open>What a sorted set gets from its index\<close>

context ordered_index
begin

lemma ins_indexes:
  assumes "inv t" and "indexes hm (elems t)" and "hm m = None" and "\<not> f64_nan sc"
  shows "\<exists>t'. ins coins t m sc = Some t' \<and> inv t' \<and> indexes (hm(m \<mapsto> sc)) (elems t')"
  using ins_spec [OF assms(1,4), of coins m] indexes_insort [OF assms(2,3)] by auto

lemma del_indexes:
  assumes "inv t" and "indexes hm (elems t)" and "hm m = Some sc"
  shows "\<exists>t'. del t m sc = Some (True, t') \<and> inv t' \<and> indexes (hm(m := None)) (elems t')"
proof -
  have "(m, sc) \<in> set (elems t)" using assms(2,3) indexes_mem by blast
  then have "ekey (m, sc) \<in> ekey ` set (elems t)" "\<not> f64_nan sc"
    using elems_no_nan [OF assms(1)] by force+
  then show ?thesis
    using del_spec [OF assms(1), of sc m] indexes_del [OF assms(2,3)] by auto
qed

lemma rank_indexes:
  assumes "inv t" and "indexes hm (elems t)" and "hm m = Some sc"
  shows "rank t m sc = Some (int (card (smaller hm (ekey (m, sc)))) + 1)"
proof -
  have mem: "(m, sc) \<in> set (elems t)" using assms(2,3) indexes_mem by blast
  then have key: "ekey (m, sc) \<in> ekey ` set (elems t)" and nn: "\<not> f64_nan sc"
    using elems_no_nan [OF assms(1)] by force+
  have "{e \<in> set (elems t). ekey e < ekey (m, sc)} = smaller hm (ekey (m, sc))"
    using indexes_mem [OF assms(2)] by (auto simp: smaller_def)
  then have "length (takeWhile (\<lambda>e. ekey e < ekey (m, sc)) (elems t)) = card (smaller hm (ekey (m, sc)))"
    using takeWhile_sorted_card [OF elems_sorted [OF assms(1)]] assms(2) by (simp add: indexes_def)
  then show ?thesis using rank_spec [OF assms(1) nn, of m] key by simp
qed

lemma rank_in_range:
  assumes "inv t" and "indexes hm (elems t)" and "hm m = Some sc"
  shows "\<exists>r. rank t m sc = Some r \<and> 1 \<le> r \<and> r \<le> int (card (dom hm)) \<and> elems t ! (nat r - 1) = (m, sc)"
proof -
  let ?k = "ekey (m, sc)"
  let ?ls = "takeWhile (\<lambda>e. ekey e < ?k) (elems t)"
  have mem: "(m, sc) \<in> set (elems t)" using assms(2,3) indexes_mem by blast
  then have key: "?k \<in> ekey ` set (elems t)" and nn: "\<not> f64_nan sc"
    using elems_no_nan [OF assms(1)] by force+
  have lt: "length ?ls < length (elems t)"
    using mem length_takeWhile_le [of _ "elems t"] takeWhile_eq_all_conv [of "\<lambda>e. ekey e < ?k" "elems t"]
    by (metis (no_types, lifting) le_neq_implies_less less_irrefl takeWhile_eq_take take_all_iff order_refl)
  then have "\<not> ekey (elems t ! length ?ls) < ?k" by (rule nth_length_takeWhile)
  moreover have "ekey (elems t ! length ?ls) \<le> ?k"
  proof -
    from key obtain j where j: "j < length (elems t)" "ekey (elems t ! j) = ?k"
      by (metis (no_types, lifting) image_iff in_set_conv_nth)
    have "length ?ls \<le> j"
    proof (rule ccontr)
      assume "\<not> length ?ls \<le> j"
      then have lt: "j < length ?ls" by simp
      then have "elems t ! j \<in> set ?ls" using takeWhile_nth [OF lt] nth_mem [OF lt] by argo
      then show False using j(2) by (auto dest: set_takeWhileD)
    qed
    then show ?thesis
      using sorted_nth_mono [OF elems_sorted [OF assms(1)], of "length ?ls" j] j lt by simp
  qed
  ultimately have "ekey (elems t ! length ?ls) = ?k" by simp
  then have "fst (elems t ! length ?ls) = m" by (simp add: ekey_def)
  moreover obtain m' sc' where e: "elems t ! length ?ls = (m', sc')" by fastforce
  ultimately have "(m, sc') \<in> set (elems t)" "m' = m" using nth_mem [OF lt] by simp_all
  then have "sc' = sc" using mem indexes_mem [OF assms(2)] by simp
  with e \<open>m' = m\<close> have "elems t ! length ?ls = (m, sc)" by simp
  moreover have "rank t m sc = Some (int (length ?ls) + 1)"
    using rank_spec [OF assms(1) nn, of m] key by simp
  ultimately show ?thesis using lt indexes_length [OF assms(2)] by simp
qed

end

subsection \<open>The sorted set\<close>

record ZSet =
  HashMap :: "(string, f64) gomap"
  ZSkipList :: SkipList

definition zset_ok :: "ZSet \<Rightarrow> bool" where
  "zset_ok z \<longleftrightarrow> gm_ok (HashMap z) \<and> sl_inv (ZSkipList z) \<and> indexes (map_of (HashMap z)) (sl_elems (ZSkipList z))"

lemma zset_ok_no_nan: "zset_ok z \<Longrightarrow> map_of (HashMap z) m = Some sc \<Longrightarrow> \<not> f64_nan sc"
  using skip_list.elems_no_nan indexes_mem by (fastforce simp: zset_ok_def)

lemma zset_ok_length: "zset_ok z \<Longrightarrow> length (sl_elems (ZSkipList z)) = length (HashMap z)"
  by (simp add: zset_ok_def indexes_length gm_length)

end
