(* ===== verification/GoText.thy ===== *)
theory GoText
  imports GoPrelude
begin

text \<open>
  The functions of Go's packages \<^verbatim>\<open>strconv\<close>, \<^verbatim>\<open>strings\<close>, \<^verbatim>\<open>fmt\<close> and \<^verbatim>\<open>bufio\<close> that the program calls, on byte
  strings: decimal integers, case mapping, splitting into fields, the verbs \<^verbatim>\<open>%d\<close>, \<^verbatim>\<open>%c\<close> and \<^verbatim>\<open>%q\<close>, and a
  buffered reader over a finite input that ends with a fixed error. The lemmas are the round trip of decimal
  integers and the laws of the reader that the codecs of the protocol rest on.
\<close>

subsection \<open>Decimal integers\<close>

definition digit_char :: "nat \<Rightarrow> char" where
  "digit_char d = char_of (48 + d)"

fun nat_digits :: "nat \<Rightarrow> string" where
  "nat_digits n = (if n < 10 then [digit_char n] else nat_digits (n div 10) @ [digit_char (n mod 10)])"

declare nat_digits.simps [simp del]

definition Itoa :: "int \<Rightarrow> string" where
  "Itoa i = (if i < 0 then CHR ''-'' # nat_digits (nat (- i)) else nat_digits (nat i))"

definition is_digit :: "char \<Rightarrow> bool" where
  "is_digit c \<longleftrightarrow> 48 \<le> (of_char c :: nat) \<and> (of_char c :: nat) \<le> 57"

definition digit_val :: "char \<Rightarrow> nat" where
  "digit_val c = of_char c - 48"

definition digits_value :: "string \<Rightarrow> nat" where
  "digits_value s = foldl (\<lambda>v c. v * 10 + digit_val c) 0 s"

text \<open>\<^verbatim>\<open>strconv.ParseInt(s, 10, bits)\<close>: an optional sign, at least one decimal digit and nothing else, and a
  value that fits \<open>bits\<close> bits in two's complement. \<^verbatim>\<open>strconv.Atoi\<close> is the same with 64 bits.\<close>

definition split_sign :: "string \<Rightarrow> bool \<times> string" where
  "split_sign s = (case s of [] \<Rightarrow> (False, [])
     | c # cs \<Rightarrow> if c = CHR ''-'' then (True, cs) else if c = CHR ''+'' then (False, cs) else (False, s))"

definition ParseInt :: "nat \<Rightarrow> string \<Rightarrow> int option" where
  "ParseInt bits s =
     (let (neg, ds) = split_sign s; v = int (digits_value ds); i = (if neg then - v else v)
      in if ds = [] \<or> \<not> list_all is_digit ds then None
         else if - (2 ^ (bits - 1)) \<le> i \<and> i < 2 ^ (bits - 1) then Some i else None)"

definition Atoi :: "string \<Rightarrow> int option" where
  "Atoi s = ParseInt 64 s"

subsection \<open>Case mapping and fields\<close>

definition is_ascii :: "char \<Rightarrow> bool" where
  "is_ascii c \<longleftrightarrow> (of_char c :: nat) < 128"

definition lower_char :: "char \<Rightarrow> char" where
  "lower_char c = (if 65 \<le> (of_char c :: nat) \<and> (of_char c :: nat) \<le> 90 then char_of (of_char c + 32 :: nat) else c)"

definition upper_char :: "char \<Rightarrow> char" where
  "upper_char c = (if 97 \<le> (of_char c :: nat) \<and> (of_char c :: nat) \<le> 122 then char_of (of_char c - 32 :: nat) else c)"

definition ToLower :: "golib \<Rightarrow> string \<Rightarrow> string" where
  "ToLower lib s = (if list_all is_ascii s then map lower_char s else UniLower lib s)"

definition ToUpper :: "golib \<Rightarrow> string \<Rightarrow> string" where
  "ToUpper lib s = (if list_all is_ascii s then map upper_char s else UniUpper lib s)"

definition EqualFold :: "golib \<Rightarrow> string \<Rightarrow> string \<Rightarrow> bool" where
  "EqualFold lib s t = (if list_all is_ascii s \<and> list_all is_ascii t
     then map lower_char s = map lower_char t else UniFold lib s t)"

definition is_space :: "char \<Rightarrow> bool" where
  "is_space c \<longleftrightarrow> (9 \<le> (of_char c :: nat) \<and> (of_char c :: nat) \<le> 13) \<or> (of_char c :: nat) = 32"

fun ascii_fields :: "string \<Rightarrow> string \<Rightarrow> string list" where
  "ascii_fields acc [] = (if acc = [] then [] else [rev acc])"
| "ascii_fields acc (c # cs) =
     (if is_space c then (if acc = [] then ascii_fields [] cs else rev acc # ascii_fields [] cs)
      else ascii_fields (c # acc) cs)"

definition Fields :: "golib \<Rightarrow> string \<Rightarrow> string list" where
  "Fields lib s = (if list_all is_ascii s then ascii_fields [] s else UniFields lib s)"

text \<open>\<^verbatim>\<open>strings.SplitN(s, " ", 2)\<close>: the text before the first space and, if there is one, the text after it.\<close>

fun split_space :: "string \<Rightarrow> string \<times> string option" where
  "split_space [] = ([], None)"
| "split_space (c # cs) =
     (if c = CHR '' '' then ([], Some cs) else (case split_space cs of (a, b) \<Rightarrow> (c # a, b)))"

subsection \<open>Formatting verbs\<close>

definition CR :: char where "CR = CHR 0x0D"
definition LF :: char where "LF = CHR 0x0A"

abbreviation CRLF :: string where "CRLF \<equiv> [CR, LF]"

definition hex_char :: "nat \<Rightarrow> char" where
  "hex_char d = (if d < 10 then char_of (48 + d) else char_of (87 + d))"

definition utf8_byte :: "nat \<Rightarrow> string" where
  "utf8_byte n = (if n < 128 then [char_of n] else [char_of (192 + n div 64), char_of (128 + n mod 64)])"

text \<open>\<^verbatim>\<open>%c\<close> and \<^verbatim>\<open>%q\<close> of a byte, read as the code point of the same number. Of the code points below 256 the
  printable ones are 32 to 126 and 161 to 255 without 173.\<close>

definition quote_rune :: "nat \<Rightarrow> string" where
  "quote_rune n = (let q = char_of (39 :: nat); b = char_of (92 :: nat) in
     [q] @
     (if n = 39 \<or> n = 92 then [b, char_of n]
      else if (32 \<le> n \<and> n < 127) \<or> (161 \<le> n \<and> n \<le> 255 \<and> n \<noteq> 173) then utf8_byte n
      else if n = 7 then [b, CHR ''a''] else if n = 8 then [b, CHR ''b'']
      else if n = 12 then [b, CHR ''f''] else if n = 10 then [b, CHR ''n'']
      else if n = 13 then [b, CHR ''r''] else if n = 9 then [b, CHR ''t'']
      else if n = 11 then [b, CHR ''v'']
      else if n < 32 \<or> n = 127 then [b, CHR ''x'', hex_char (n div 16), hex_char (n mod 16)]
      else [b, CHR ''u'', CHR ''0'', CHR ''0'', hex_char (n div 16), hex_char (n mod 16)]) @ [q])"

subsection \<open>A buffered reader\<close>

text \<open>A \<^verbatim>\<open>bufio.Reader\<close> over an input of which the bytes in \<open>Pending\<close> are still to come; after them every
  read returns the error \<open>AtEnd\<close> (end of file, or the failure of the connection). \<^verbatim>\<open>ReadBytes\<close> returns what it
  read together with the error when the delimiter does not come.\<close>

record reader =
  Pending :: string
  AtEnd :: io_error

definition Peek1 :: "reader \<Rightarrow> io_error + char" where
  "Peek1 r = (case Pending r of [] \<Rightarrow> Inl (AtEnd r) | c # cs \<Rightarrow> Inr c)"

definition ReadByte :: "reader \<Rightarrow> (io_error + char) \<times> reader" where
  "ReadByte r = (case Pending r of [] \<Rightarrow> (Inl (AtEnd r), r) | c # cs \<Rightarrow> (Inr c, r\<lparr>Pending := cs\<rparr>))"

definition ReadBytes :: "char \<Rightarrow> reader \<Rightarrow> string \<times> io_error option \<times> reader" where
  "ReadBytes d r =
     (let line = takeWhile (\<lambda>c. c \<noteq> d) (Pending r); rest = dropWhile (\<lambda>c. c \<noteq> d) (Pending r)
      in case rest of [] \<Rightarrow> (line, Some (AtEnd r), r\<lparr>Pending := []\<rparr>)
         | c # cs \<Rightarrow> (line @ [c], None, r\<lparr>Pending := cs\<rparr>))"

text \<open>\<^verbatim>\<open>io.ReadFull(reader, buf)\<close> with \<open>n = len(buf)\<close>: \<^verbatim>\<open>io.EOF\<close> only when no byte was read, and then
  \<^verbatim>\<open>io.ErrUnexpectedEOF\<close>; another error is passed on.\<close>

definition ReadFull :: "nat \<Rightarrow> reader \<Rightarrow> (io_error + string) \<times> reader" where
  "ReadFull n r =
     (if n \<le> length (Pending r) then (Inr (take n (Pending r)), r\<lparr>Pending := drop n (Pending r)\<rparr>)
      else (Inl (if AtEnd r = EOF \<and> Pending r \<noteq> [] then UnexpectedEOF else AtEnd r), r\<lparr>Pending := []\<rparr>))"

text \<open>A parser reads from the reader and returns a result together with what is left. \<open>rd_bind\<close> is the
  sequence \<^verbatim>\<open>x, err := m(reader); if err != nil { return err }; ...\<close>.\<close>

type_synonym 'a parser = "reader \<Rightarrow> 'a go_result \<times> reader"

definition rd_ret :: "'a \<Rightarrow> 'a parser" where
  "rd_ret x r = (Ret x, r)"

definition rd_fail :: "go_error \<Rightarrow> 'a parser" where
  "rd_fail e r = (Err e, r)"

definition rd_panic :: "'a parser" where
  "rd_panic r = (Panic, r)"

definition rd_bind :: "'a parser \<Rightarrow> ('a \<Rightarrow> 'b parser) \<Rightarrow> 'b parser" where
  "rd_bind m f r = (case m r of (Ret x, r') \<Rightarrow> f x r' | (Err e, r') \<Rightarrow> (Err e, r') | (Panic, r') \<Rightarrow> (Panic, r'))"

text \<open>\<^verbatim>\<open>xs[lo:hi]\<close>: it panics unless \<^verbatim>\<open>0 <= lo <= hi <= len(xs)\<close>.\<close>

definition go_slice :: "int \<Rightarrow> int \<Rightarrow> 'a list \<Rightarrow> 'a list option" where
  "go_slice lo hi xs = (if 0 \<le> lo \<and> lo \<le> hi \<and> hi \<le> int (length xs)
     then Some (take (nat (hi - lo)) (drop (nat lo) xs)) else None)"

subsection \<open>Lemmas on integers\<close>

lemma of_char_digit_char [simp]: "d < 10 \<Longrightarrow> (of_char (digit_char d) :: nat) = 48 + d"
  by (simp add: digit_char_def)

lemma is_digit_digit_char [simp]: "d < 10 \<Longrightarrow> is_digit (digit_char d)"
  by (simp add: is_digit_def)

lemma digit_val_digit_char [simp]: "d < 10 \<Longrightarrow> digit_val (digit_char d) = d"
  by (simp add: digit_val_def)

lemma nat_digits_not_Nil [simp]: "nat_digits n \<noteq> []"
  by (subst nat_digits.simps) simp

lemma nat_digits_all_digits: "list_all is_digit (nat_digits n)"
proof (induction n rule: nat_digits.induct)
  case (1 n)
  then show ?case by (cases "n < 10") (simp_all add: nat_digits.simps [of n])
qed

lemma digits_value_append: "digits_value (s @ [c]) = digits_value s * 10 + digit_val c"
  by (simp add: digits_value_def)

lemma digits_value_nat_digits [simp]: "digits_value (nat_digits n) = n"
proof (induction n rule: nat_digits.induct)
  case (1 n)
  show ?case
  proof (cases "n < 10")
    case True
    then show ?thesis by (simp add: nat_digits.simps [of n] digits_value_def)
  next
    case False
    with 1 have "digits_value (nat_digits (n div 10)) = n div 10" by simp
    with False show ?thesis by (simp add: nat_digits.simps [of n] digits_value_append)
  qed
qed

lemma digit_not_sign: "is_digit c \<Longrightarrow> c \<noteq> CHR ''-'' \<and> c \<noteq> CHR ''+''"
  by (auto simp: is_digit_def)

lemma split_sign_nat_digits [simp]: "split_sign (nat_digits n) = (False, nat_digits n)"
proof -
  obtain c cs where c: "nat_digits n = c # cs"
    by (cases "nat_digits n") auto
  with nat_digits_all_digits [of n] have "is_digit c" by simp
  with c show ?thesis by (simp add: split_sign_def digit_not_sign)
qed

lemma split_sign_minus [simp]: "split_sign (CHR ''-'' # s) = (True, s)"
  by (simp add: split_sign_def)

lemma ParseInt_Itoa:
  assumes "- (2 ^ (bits - 1)) \<le> i" and "i < 2 ^ (bits - 1)"
  shows "ParseInt bits (Itoa i) = Some i"
  using assms by (simp add: ParseInt_def Itoa_def nat_digits_all_digits)

lemma Atoi_Itoa [simp]: "min_int64 \<le> i \<Longrightarrow> i \<le> max_int64 \<Longrightarrow> Atoi (Itoa i) = Some i"
  unfolding Atoi_def by (rule ParseInt_Itoa) (simp_all add: min_int64_def max_int64_def)

lemma Atoi_range: "Atoi s = Some i \<Longrightarrow> min_int64 \<le> i \<and> i \<le> max_int64"
  by (auto simp: Atoi_def ParseInt_def min_int64_def max_int64_def Let_def split: prod.splits if_splits)

lemma ParseInt_negD: "ParseInt bits s = Some i \<Longrightarrow> i < 0 \<Longrightarrow> \<exists>ds. s = CHR ''-'' # ds"
  by (cases s) (auto simp: ParseInt_def split_sign_def Let_def split: prod.splits if_splits)

lemma digit_not_LF: "is_digit c \<Longrightarrow> c \<noteq> LF \<and> c \<noteq> CR"
  by (auto simp: is_digit_def LF_def CR_def)

lemma Itoa_no_LF: "LF \<notin> set (Itoa i)"
proof
  assume "LF \<in> set (Itoa i)"
  then have "LF \<in> set (nat_digits (nat (- i))) \<or> LF \<in> set (nat_digits (nat i))"
    by (auto simp: Itoa_def LF_def split: if_splits)
  then show False
    using nat_digits_all_digits by (auto simp: list_all_iff dest: digit_not_LF)
qed

lemma Itoa_not_Nil [simp]: "Itoa i \<noteq> []"
  by (simp add: Itoa_def)

lemma CR_LF_distinct [simp]: "CR \<noteq> LF" "LF \<noteq> CR"
  by (simp_all add: CR_def LF_def)

subsection \<open>Lemmas on the reader\<close>

lemma ReadBytes_line:
  assumes "d \<notin> set line"
  shows "ReadBytes d (r\<lparr>Pending := line @ d # rest\<rparr>) = (line @ [d], None, r\<lparr>Pending := rest\<rparr>)"
proof -
  have "takeWhile (\<lambda>c. c \<noteq> d) (line @ d # rest) = line" and
    "dropWhile (\<lambda>c. c \<noteq> d) (line @ d # rest) = d # rest"
    using assms by (induction line) auto
  then show ?thesis by (simp add: ReadBytes_def)
qed

lemma ReadBytes_SomeE:
  assumes "ReadBytes d r = (data, None, r')"
  obtains line where "data = line @ [d]" and "d \<notin> set line"
    and "Pending r = data @ Pending r'" and "AtEnd r' = AtEnd r"
proof -
  let ?P = "\<lambda>c. c \<noteq> d"
  obtain c cs where rest: "dropWhile ?P (Pending r) = c # cs"
    using assms by (cases "dropWhile ?P (Pending r)") (auto simp: ReadBytes_def Let_def)
  then have c: "c = d" using hd_dropWhile [of ?P "Pending r"] by auto
  have split: "Pending r = takeWhile ?P (Pending r) @ d # cs"
    using rest c takeWhile_dropWhile_id [of ?P "Pending r"] by simp
  have *: "data = takeWhile ?P (Pending r) @ [d]" "r' = r\<lparr>Pending := cs\<rparr>"
    using assms rest c by (auto simp: ReadBytes_def Let_def)
  have "data @ Pending r' = takeWhile ?P (Pending r) @ d # cs"
    by (simp add: *)
  also have "\<dots> = Pending r"
    by (rule split [symmetric])
  finally have "Pending r = data @ Pending r'" ..
  moreover have "d \<notin> set (takeWhile ?P (Pending r))"
    by (auto dest: set_takeWhileD)
  moreover have "AtEnd r' = AtEnd r"
    by (simp add: *)
  ultimately show thesis
    using *(1) by (intro that)
qed

lemma ReadFull_exact:
  "ReadFull (length s) (r\<lparr>Pending := s @ rest\<rparr>) = (Inr s, r\<lparr>Pending := rest\<rparr>)"
  by (simp add: ReadFull_def)

lemma rd_bind_Ret [go_simps]:
  "rd_bind m f r = (Ret y, r'') \<longleftrightarrow> (\<exists>x r'. m r = (Ret x, r') \<and> f x r' = (Ret y, r''))"
  by (auto simp: rd_bind_def split: prod.splits go_result.splits)

lemma rd_bind_Panic [go_simps]:
  "fst (rd_bind m f r) = Panic \<longleftrightarrow> fst (m r) = Panic \<or> (\<exists>x r'. m r = (Ret x, r') \<and> fst (f x r') = Panic)"
  by (auto simp: rd_bind_def split: prod.splits go_result.splits)

lemma rd_bind_step: "m r = (Ret x, r') \<Longrightarrow> rd_bind m f r = f x r'"
  by (simp add: rd_bind_def)

lemma rd_simps [simp]:
  "rd_ret x r = (Ret x, r)" "rd_fail e r = (Err e, r)" "rd_panic r = (Panic, r)"
  by (simp_all add: rd_ret_def rd_fail_def rd_panic_def)

text \<open>A framed line: one leading byte, a body and a line end.\<close>

lemma slice_body: "go_slice 1 (int (length (c # s @ CRLF)) - 2) (c # s @ CRLF) = Some s"
  by (simp add: go_slice_def)

lemma slice_body_NoneD:
  assumes "go_slice 1 (int (length data) - 2) data = None"
  shows "length data < 3"
  using assms by (auto simp: go_slice_def split: if_splits)

lemma Peek1_Cons [simp]: "Peek1 (r\<lparr>Pending := c # cs\<rparr>) = Inr c"
  by (simp add: Peek1_def)

end
