(* ===== verification/Resp.thy ===== *)
theory Resp
  imports GoText
begin

text \<open>
  The RESP protocol of \<^verbatim>\<open>resp/resp.go\<close>: the reply types with their \<^verbatim>\<open>Marshal\<close> methods, the \<^verbatim>\<open>Unmarshal\<close>
  methods over a buffered reader, and the standard error replies. The lemmas show the round trips, that the
  codecs are uniquely decodable (through the locale \<open>wire_codec\<close>), and exactly when \<^verbatim>\<open>Unmarshal\<close> panics.
\<close>

subsection \<open>Marshalling\<close>

definition Array_Marshal :: "string list \<Rightarrow> string" where
  "Array_Marshal vs = ''*'' @ Itoa (int (length vs)) @ CRLF @ concat vs"

definition NullArray_Marshal :: string where
  "NullArray_Marshal = ''*-1'' @ CRLF"

definition SimpleString_Marshal :: "string \<Rightarrow> string" where
  "SimpleString_Marshal v = ''+'' @ v @ CRLF"

definition BulkString_Marshal :: "string \<Rightarrow> string" where
  "BulkString_Marshal v = ''$'' @ Itoa (int (length v)) @ CRLF @ v @ CRLF"

definition SimpleError_Marshal :: "string \<Rightarrow> string \<Rightarrow> string" where
  "SimpleError_Marshal t m = ''-'' @ t @ '' '' @ m @ CRLF"

definition NullBulkString_Marshal :: string where
  "NullBulkString_Marshal = ''$-1'' @ CRLF"

definition Integer_Marshal :: "int \<Rightarrow> string" where
  "Integer_Marshal i = '':'' @ Itoa i @ CRLF"

definition BulkError_Marshal :: string where
  "BulkError_Marshal = ''1''"

definition SimpleError_Error :: "string \<Rightarrow> string \<Rightarrow> string" where
  "SimpleError_Error t m = t @ '': '' @ m"

subsection \<open>Standard error replies\<close>

definition ERR :: string where "ERR = ''ERR''"
definition WRONGTYPE :: string where "WRONGTYPE = ''WRONGTYPE''"

definition ErrorMessageWrongType :: string where
  "ErrorMessageWrongType = ''Operation against a key holding the wrong kind of value''"
definition ErrorMessageNotInteger :: string where
  "ErrorMessageNotInteger = ''value is not an integer or out of range''"
definition ErrorMessageNotNumber :: string where
  "ErrorMessageNotNumber = ''value is not an number''"
definition ErrorMessageNotFloat :: string where
  "ErrorMessageNotFloat = ''value is not float or out of range''"

abbreviation apostrophe :: string where "apostrophe \<equiv> [CHR 0x27]"

definition ErrWrongArgCount :: "string \<Rightarrow> string" where
  "ErrWrongArgCount cmd =
     SimpleError_Marshal ERR (''wrong number of arguments for '' @ apostrophe @ cmd @ apostrophe @ '' command'')"

definition ErrUnknownCommand :: "string \<Rightarrow> string" where
  "ErrUnknownCommand cmd = SimpleError_Marshal ERR (''unknown command '' @ apostrophe @ cmd @ apostrophe)"

definition ErrGeneric :: string where
  "ErrGeneric = ''internal error occured''"

definition ErrWrongType :: string where
  "ErrWrongType = SimpleError_Marshal WRONGTYPE ErrorMessageWrongType"

definition ErrSyntax :: string where
  "ErrSyntax = SimpleError_Marshal ERR ''syntax error''"

definition ErrNotInteger :: string where
  "ErrNotInteger = SimpleError_Marshal ERR ErrorMessageNotInteger"

subsection \<open>Unmarshalling\<close>

definition conn_err :: "io_error \<Rightarrow> go_error" where
  "conn_err e = EWrap ''reading from connection: '' (EIo e)"

definition ReadHeader :: "string parser" where
  "ReadHeader r = (case ReadBytes LF r of (data, err, r') \<Rightarrow>
     (case err of
        Some e \<Rightarrow> (if e = EOF \<and> length data > 0 then (Err (conn_err UnexpectedEOF), r')
                   else (Err (conn_err e), r'))
      | None \<Rightarrow>
          (if length data \<le> 1 then
             (Err (EText (''insufficient data: expected at least 2 bytes and got '' @ Itoa (int (length data)))), r')
           else if data ! (length data - 2) \<noteq> CR then
             (Err (EText (''invalid RESP type header: expected header ending with '' @ CRLF @
                          '' and got '' @ data)), r')
           else (Ret data, r'))))"

definition size_hdr :: "string \<Rightarrow> int go_result" where
  "size_hdr data = (case go_slice 1 (int (length data) - 2) data of
     None \<Rightarrow> Panic
   | Some sizeArr \<Rightarrow>
       (case Atoi sizeArr of
          None \<Rightarrow> Err (EText (''invalid array RESP header: expecting size of Array got '' @ sizeArr))
        | Some count \<Rightarrow> Ret count))"

definition type_mismatch :: "string \<Rightarrow> char \<Rightarrow> char \<Rightarrow> go_error" where
  "type_mismatch what want got =
     EText (what @ ''expected '' @ quote_rune (of_char want) @ '', got '' @ quote_rune (of_char got))"

definition SimpleString_Unmarshal :: "string parser" where
  "SimpleString_Unmarshal r = (case ReadBytes LF r of (data, err, r') \<Rightarrow>
     (case err of
        Some e \<Rightarrow> (Err (conn_err e), r')
      | None \<Rightarrow>
          (if length data \<le> 3 then
             (Err (EText (''RESP simple string: invalid data count, '' @ quote_rune (length data))), r')
           else if data ! 0 \<noteq> CHR ''+'' then
             (Err (type_mismatch ''RESP simple string: '' (CHR ''+'') (data ! 0)), r')
           else if data ! (length data - 2) \<noteq> CR then
             (Err (EText ''RESP simple string: missing CRLF terminator''), r')
           else (case go_slice 1 (int (length data) - 2) data of None \<Rightarrow> (Panic, r') | Some v \<Rightarrow> (Ret v, r')))))"

definition bulk_body :: "int \<Rightarrow> string parser" where
  "bulk_body n r =
     (if n + 2 < 0 then (Panic, r)
      else (case ReadFull (nat (n + 2)) r of
          (Inl e, r') \<Rightarrow>
            (if e = EOF \<or> e = UnexpectedEOF then (Err (conn_err UnexpectedEOF), r')
             else (Err (EWrap ''reading from connection '' (EIo e)), r'))
        | (Inr buffer, r') \<Rightarrow>
            (case go_slice (int (length buffer) - 2) (int (length buffer)) buffer of
               None \<Rightarrow> (Panic, r')
             | Some crlf \<Rightarrow>
                 (if crlf \<noteq> CRLF then (Err (EText ''RESP bulk string: missing crlf terminator''), r')
                  else (Ret (take (length buffer - 2) buffer), r')))))"

definition BulkString_Unmarshal :: "string parser" where
  "BulkString_Unmarshal = rd_bind ReadHeader (\<lambda>data.
     if data ! 0 \<noteq> CHR ''$'' then rd_fail (type_mismatch ''RESP simple string: '' (CHR ''$'') (data ! 0))
     else (case go_slice 1 (int (length data) - 2) data of
         None \<Rightarrow> rd_panic
       | Some d \<Rightarrow>
           (case ParseInt 32 d of
              None \<Rightarrow> rd_fail (EText ''Resp bulk string: parsing size string '')
            | Some n \<Rightarrow> bulk_body n)))"

fun array_elems :: "nat \<Rightarrow> string list \<Rightarrow> string list parser" where
  "array_elems 0 vs = rd_ret vs"
| "array_elems (Suc n) vs = (\<lambda>r.
     case Peek1 r of
       Inl e \<Rightarrow> (Err (conn_err e), r)
     | Inr symbol \<Rightarrow>
         (if symbol = CHR ''+'' then rd_bind SimpleString_Unmarshal (\<lambda>v. array_elems n (vs @ [v])) r
          else if symbol = CHR ''$'' then rd_bind BulkString_Unmarshal (\<lambda>v. array_elems n (vs @ [v])) r
          else (Err (type_mismatch ''unexpected RESP type '' (CHR ''*'') symbol), r)))"

definition Array_Unmarshal :: "string list parser" where
  "Array_Unmarshal = rd_bind ReadHeader (\<lambda>data.
     if data ! 0 \<noteq> CHR ''*'' then rd_fail (type_mismatch ''unexpected RESP type '' (CHR ''*'') (data ! 0))
     else (case size_hdr data of
         Panic \<Rightarrow> rd_panic
       | Err e \<Rightarrow> rd_fail e
       | Ret n \<Rightarrow> array_elems (nat n) []))"

definition SimpleError_Unmarshal :: "(string \<times> string) parser" where
  "SimpleError_Unmarshal = rd_bind ReadHeader (\<lambda>data.
     if data ! 0 \<noteq> CHR ''-'' then rd_fail (type_mismatch ''RESP simple error: '' (CHR ''-'') (data ! 0))
     else (case go_slice 1 (int (length data) - 2) data of
         None \<Rightarrow> rd_panic
       | Some parts \<Rightarrow>
           (if parts = [] then rd_fail (EText ''RESP simple error: empty error'')
            else (case split_space parts of
                (t, None) \<Rightarrow> rd_ret (t, [])
              | (t, Some m) \<Rightarrow> rd_ret (t, m)))))"

definition Integer_Unmarshal :: "int parser" where
  "Integer_Unmarshal = rd_bind ReadHeader (\<lambda>data.
     if data ! 0 \<noteq> CHR '':'' then rd_fail (type_mismatch ''RESP integer: '' (CHR '':'') (data ! 0))
     else (case go_slice 1 (int (length data) - 2) data of
         None \<Rightarrow> rd_panic
       | Some d \<Rightarrow>
           (case ParseInt 64 d of
              None \<Rightarrow> rd_fail (EWrap ''RESP integer: '' (ENum d))
            | Some i \<Rightarrow> rd_ret i)))"

datatype response =
    RSimpleString string
  | RSimpleError string string
  | RInteger int
  | RBulkString string

definition ReadResponse :: "response parser" where
  "ReadResponse r = (case Peek1 r of
     Inl e \<Rightarrow> (Err (EIo e), r)
   | Inr pre \<Rightarrow>
       (if pre = CHR ''+'' then rd_bind SimpleString_Unmarshal (\<lambda>v. rd_ret (RSimpleString v)) r
        else if pre = CHR ''-'' then rd_bind SimpleError_Unmarshal (\<lambda>(t, m). rd_ret (RSimpleError t m)) r
        else if pre = CHR '':'' then rd_bind Integer_Unmarshal (\<lambda>i. rd_ret (RInteger i)) r
        else if pre = CHR ''$'' then rd_bind BulkString_Unmarshal (\<lambda>v. rd_ret (RBulkString v)) r
        else (Err (EText (''unsupported RESP response type '' @ quote_rune (of_char pre))), r)))"

subsection \<open>Codecs\<close>

text \<open>The interface every wire format offers its clients: decoding reads exactly the bytes that encoding
  wrote, whatever follows them. Unique decodability follows once and for all.\<close>

locale wire_codec =
  fixes enc :: "'a \<Rightarrow> string"
    and dec :: "'a parser"
    and valid :: "'a \<Rightarrow> bool"
  assumes dec_enc: "valid x \<Longrightarrow> dec (r\<lparr>Pending := enc x @ rest\<rparr>) = (Ret x, r\<lparr>Pending := rest\<rparr>)"
begin

lemma enc_prefix_unique:
  assumes "valid x" and "valid y" and "enc x @ s = enc y @ t"
  shows "x = y \<and> s = t"
proof -
  let ?r = "\<lparr>Pending = [], AtEnd = EOF\<rparr>"
  have "(Ret x, ?r\<lparr>Pending := s\<rparr>) = (Ret y, ?r\<lparr>Pending := t\<rparr>)"
    using dec_enc [OF assms(1), where r = ?r and rest = s]
      dec_enc [OF assms(2), where r = ?r and rest = t] assms(3) by simp
  then show ?thesis by simp
qed

lemma enc_stream_unique:
  assumes "\<forall>x \<in> set xs. valid x" and "\<forall>y \<in> set ys. valid y" and "length xs = length ys"
    and "concat (map enc xs) @ s = concat (map enc ys) @ t"
  shows "xs = ys \<and> s = t"
  using assms(3, 1, 2, 4)
proof (induction xs ys rule: list_induct2)
  case Nil
  then show ?case by simp
next
  case (Cons x xs y ys)
  then have "enc x @ (concat (map enc xs) @ s) = enc y @ (concat (map enc ys) @ t)"
    by simp
  then have *: "x = y \<and> concat (map enc xs) @ s = concat (map enc ys) @ t"
    using enc_prefix_unique [of x y] Cons.prems(1,2) by simp
  with Cons.IH Cons.prems(1,2) show ?case by simp
qed

end

subsection \<open>Reading one line\<close>

lemma symbol_neq_LF [simp]:
  "CHR ''+'' \<noteq> LF" "CHR ''-'' \<noteq> LF" "CHR '':'' \<noteq> LF" "CHR ''$'' \<noteq> LF" "CHR ''*'' \<noteq> LF" "CHR '' '' \<noteq> LF"
  "LF \<noteq> CHR ''+''" "LF \<noteq> CHR ''-''" "LF \<noteq> CHR '':''" "LF \<noteq> CHR ''$''" "LF \<noteq> CHR ''*''" "LF \<noteq> CHR '' ''"
  by (simp_all add: LF_def)

lemma symbol_neq_CR [simp]:
  "CHR ''+'' \<noteq> CR" "CHR ''-'' \<noteq> CR" "CHR '':'' \<noteq> CR" "CHR ''$'' \<noteq> CR" "CHR ''*'' \<noteq> CR"
  by (simp_all add: CR_def)

lemma ReadHeader_line:
  assumes "LF \<notin> set s" and "c \<noteq> LF"
  shows "ReadHeader (r\<lparr>Pending := c # s @ CRLF @ rest\<rparr>) = (Ret (c # s @ CRLF), r\<lparr>Pending := rest\<rparr>)"
proof -
  have "LF \<notin> set (c # s @ [CR])" using assms by simp
  from ReadBytes_line [OF this, where r = r and rest = rest] show ?thesis
    by (simp add: ReadHeader_def nth_append)
qed

lemma ReadHeader_RetE:
  assumes "ReadHeader r = (Ret data, r')"
  obtains s where "data = s @ CRLF" and "LF \<notin> set s" and "Pending r = data @ Pending r'"
    and "AtEnd r' = AtEnd r"
proof -
  obtain dat err r1 where rb: "ReadBytes LF r = (dat, err, r1)"
    by (metis prod_cases3)
  with assms have e: "err = None" "dat = data" "r1 = r'" "1 < length data" "data ! (length data - 2) = CR"
    by (auto simp: ReadHeader_def split: option.splits if_splits)
  with rb obtain line where l: "data = line @ [LF]" "LF \<notin> set line" "Pending r = data @ Pending r'" "AtEnd r' = AtEnd r"
    using ReadBytes_SomeE by metis
  with e have "line \<noteq> []" and "line ! (length line - 1) = CR"
    by (auto simp: nth_append split: if_splits)
  then obtain s where "line = s @ [CR]"
    by (metis append_butlast_last_id last_conv_nth)
  with l show thesis using that by simp
qed

lemma ReadHeader_no_panic [simp]: "fst (ReadHeader r) \<noteq> Panic"
  by (auto simp: ReadHeader_def split: prod.splits option.splits)

text \<open>A header that starts with a type symbol is at least three bytes long, so cutting out its body is
  always in range.\<close>

lemma header_slice:
  assumes "ReadHeader r = (Ret data, r')" and "data ! 0 = c" and "c \<noteq> CR"
  obtains s where "data = c # s @ CRLF" and "LF \<notin> set s"
    and "go_slice 1 (int (length data) - 2) data = Some s"
proof -
  obtain t where t: "data = t @ CRLF" "LF \<notin> set t"
    using assms(1) by (rule ReadHeader_RetE)
  with assms(2,3) obtain s where s: "t = c # s"
    by (cases t) auto
  with t have "data = c # s @ CRLF" by simp
  with t s that show thesis using slice_body by auto
qed

subsection \<open>Round trips\<close>

lemma BulkString_roundtrip:
  assumes "length v < 2 ^ 31"
  shows "BulkString_Unmarshal (r\<lparr>Pending := BulkString_Marshal v @ rest\<rparr>) = (Ret v, r\<lparr>Pending := rest\<rparr>)"
proof -
  let ?n = "Itoa (int (length v))"
  have hdr: "ReadHeader (r\<lparr>Pending := CHR ''$'' # ?n @ CRLF @ (v @ CRLF @ rest)\<rparr>)
      = (Ret (CHR ''$'' # ?n @ CRLF), r\<lparr>Pending := v @ CRLF @ rest\<rparr>)"
    by (rule ReadHeader_line) (simp_all add: Itoa_no_LF)
  have num: "ParseInt 32 ?n = Some (int (length v))"
    using assms by (intro ParseInt_Itoa) simp_all
  have full: "ReadFull (nat (int (length v) + 2)) (r\<lparr>Pending := v @ CRLF @ rest\<rparr>)
      = (Inr (v @ CRLF), r\<lparr>Pending := rest\<rparr>)"
    using ReadFull_exact [of "v @ CRLF", where r = r and rest = rest] by (simp add: nat_add_distrib)
  have body: "bulk_body (int (length v)) (r\<lparr>Pending := v @ CRLF @ rest\<rparr>) = (Ret v, r\<lparr>Pending := rest\<rparr>)"
    using full by (simp add: bulk_body_def go_slice_def)
  show ?thesis
    using hdr num body slice_body [of "CHR ''$''" ?n]
    by (simp add: BulkString_Unmarshal_def BulkString_Marshal_def rd_bind_def)
qed

interpretation bulk: wire_codec BulkString_Marshal BulkString_Unmarshal "\<lambda>v. length v < 2 ^ 31"
  by unfold_locales (rule BulkString_roundtrip)

lemma SimpleString_roundtrip:
  assumes "v \<noteq> []" and "LF \<notin> set v"
  shows "SimpleString_Unmarshal (r\<lparr>Pending := SimpleString_Marshal v @ rest\<rparr>) = (Ret v, r\<lparr>Pending := rest\<rparr>)"
proof -
  have "LF \<notin> set (CHR ''+'' # v @ [CR])" using assms(2) by simp
  from ReadBytes_line [OF this, where r = r and rest = rest] assms(1) show ?thesis
    using slice_body [of "CHR ''+''" v]
    by (cases v) (simp_all add: SimpleString_Unmarshal_def SimpleString_Marshal_def nth_append)
qed

interpretation simple_string: wire_codec SimpleString_Marshal SimpleString_Unmarshal
  "\<lambda>v. v \<noteq> [] \<and> LF \<notin> set v"
  by unfold_locales (blast intro: SimpleString_roundtrip)

lemma Integer_roundtrip:
  assumes "min_int64 \<le> i \<and> i \<le> max_int64"
  shows "Integer_Unmarshal (r\<lparr>Pending := Integer_Marshal i @ rest\<rparr>) = (Ret i, r\<lparr>Pending := rest\<rparr>)"
proof -
  have hdr: "ReadHeader (r\<lparr>Pending := CHR '':'' # Itoa i @ CRLF @ rest\<rparr>)
      = (Ret (CHR '':'' # Itoa i @ CRLF), r\<lparr>Pending := rest\<rparr>)"
    by (rule ReadHeader_line) (simp_all add: Itoa_no_LF)
  have num: "ParseInt 64 (Itoa i) = Some i"
    using assms Atoi_Itoa [of i] by (simp add: Atoi_def)
  show ?thesis
    using hdr num slice_body [of "CHR '':''" "Itoa i"]
    by (simp add: Integer_Unmarshal_def Integer_Marshal_def rd_bind_def)
qed

interpretation integer: wire_codec Integer_Marshal Integer_Unmarshal
  "\<lambda>i. min_int64 \<le> i \<and> i \<le> max_int64"
  by unfold_locales (rule Integer_roundtrip)

lemma split_space_append: "CHR '' '' \<notin> set t \<Longrightarrow> split_space (t @ CHR '' '' # m) = (t, Some m)"
  by (induction t) auto

lemma SimpleError_roundtrip:
  assumes "CHR '' '' \<notin> set t" and "LF \<notin> set t" and "LF \<notin> set m"
  shows "SimpleError_Unmarshal (r\<lparr>Pending := SimpleError_Marshal t m @ rest\<rparr>) = (Ret (t, m), r\<lparr>Pending := rest\<rparr>)"
proof -
  let ?s = "t @ CHR '' '' # m"
  have hdr: "ReadHeader (r\<lparr>Pending := CHR ''-'' # ?s @ CRLF @ rest\<rparr>)
      = (Ret (CHR ''-'' # ?s @ CRLF), r\<lparr>Pending := rest\<rparr>)"
    by (rule ReadHeader_line) (use assms in auto)
  show ?thesis
    using hdr slice_body [of "CHR ''-''" ?s] split_space_append [OF assms(1), of m]
    by (simp add: SimpleError_Unmarshal_def SimpleError_Marshal_def rd_bind_def)
qed

interpretation simple_error: wire_codec "\<lambda>(t, m). SimpleError_Marshal t m" SimpleError_Unmarshal
  "\<lambda>(t, m). CHR '' '' \<notin> set t \<and> LF \<notin> set t \<and> LF \<notin> set m"
  by unfold_locales (auto intro: SimpleError_roundtrip)

text \<open>A command is an array of bulk strings. Reading one back gives the arguments and stops where the
  command ends, so a pipeline of commands is read one at a time.\<close>

abbreviation bulk_array :: "string list \<Rightarrow> string" where
  "bulk_array args \<equiv> Array_Marshal (map BulkString_Marshal args)"

definition valid_args :: "string list \<Rightarrow> bool" where
  "valid_args args \<longleftrightarrow> (\<forall>a \<in> set args. length a < 2 ^ 31) \<and> length args < 2 ^ 63"

lemma BulkString_Marshal_Cons: "\<exists>s. BulkString_Marshal v = CHR ''$'' # s"
  by (simp add: BulkString_Marshal_def)

lemma array_elems_bulk:
  assumes "\<forall>a \<in> set args. length a < 2 ^ 31"
  shows "array_elems (length args) vs (r\<lparr>Pending := concat (map BulkString_Marshal args) @ rest\<rparr>)
    = (Ret (vs @ args), r\<lparr>Pending := rest\<rparr>)"
  using assms
proof (induction args arbitrary: vs)
  case Nil
  then show ?case by simp
next
  case (Cons a args)
  let ?tail = "concat (map BulkString_Marshal args) @ rest"
  have "BulkString_Unmarshal (r\<lparr>Pending := BulkString_Marshal a @ ?tail\<rparr>) = (Ret a, r\<lparr>Pending := ?tail\<rparr>)"
    using Cons.prems by (intro BulkString_roundtrip) simp
  moreover have "Peek1 (r\<lparr>Pending := BulkString_Marshal a @ ?tail\<rparr>) = Inr (CHR ''$'')"
    by (simp add: BulkString_Marshal_def)
  ultimately show ?case
    using Cons.IH [of "vs @ [a]"] Cons.prems by (simp add: rd_bind_def)
qed

lemma bulk_array_roundtrip:
  assumes "valid_args args"
  shows "Array_Unmarshal (r\<lparr>Pending := bulk_array args @ rest\<rparr>) = (Ret args, r\<lparr>Pending := rest\<rparr>)"
proof -
  let ?n = "Itoa (int (length args))" and ?body = "concat (map BulkString_Marshal args) @ rest"
  have hdr: "ReadHeader (r\<lparr>Pending := CHR ''*'' # ?n @ CRLF @ ?body\<rparr>)
      = (Ret (CHR ''*'' # ?n @ CRLF), r\<lparr>Pending := ?body\<rparr>)"
    by (rule ReadHeader_line) (simp_all add: Itoa_no_LF)
  have "Atoi ?n = Some (int (length args))"
    using assms by (intro Atoi_Itoa) (simp_all add: valid_args_def min_int64_def max_int64_def)
  then have "size_hdr (CHR ''*'' # ?n @ CRLF) = Ret (int (length args))"
    using slice_body [of "CHR ''*''" ?n] by (simp add: size_hdr_def)
  then show ?thesis
    using hdr array_elems_bulk [of args "[]"] assms
    by (simp add: Array_Unmarshal_def Array_Marshal_def rd_bind_def valid_args_def)
qed

interpretation command: wire_codec bulk_array Array_Unmarshal valid_args
  by unfold_locales (rule bulk_array_roundtrip)

subsection \<open>Reading never goes past the input, and when it panics\<close>

definition consuming :: "'a parser \<Rightarrow> bool" where
  "consuming m \<longleftrightarrow> (\<forall>r. suffix (Pending (snd (m r))) (Pending r))"

lemma consumingD: "consuming m \<Longrightarrow> m r = (x, r') \<Longrightarrow> suffix (Pending r') (Pending r)"
  by (metis consuming_def snd_conv)

lemma consuming_basic [simp]: "consuming (rd_ret x)" "consuming (rd_fail e)" "consuming rd_panic"
  by (simp_all add: consuming_def)

lemma consuming_bind [intro]:
  assumes "consuming m" and "\<And>x. consuming (f x)"
  shows "consuming (rd_bind m f)"
  unfolding consuming_def
proof
  fix r
  obtain x r' where m: "m r = (x, r')" by fastforce
  with assms(1) have "suffix (Pending r') (Pending r)" by (rule consumingD)
  moreover have "suffix (Pending (snd (f y r'))) (Pending r')" for y
    using assms(2) by (simp add: consuming_def)
  ultimately show "suffix (Pending (snd (rd_bind m f r))) (Pending r)"
    using m by (cases x) (auto simp: rd_bind_def intro: suffix_order.trans)
qed

lemma ReadBytes_suffix: "ReadBytes d r = (data, err, r') \<Longrightarrow> suffix (Pending r') (Pending r)"
  by (auto simp: ReadBytes_def Let_def split: list.splits intro: suffix_ConsD suffix_dropWhile)
    (metis suffix_ConsD suffix_dropWhile)

lemma consuming_ReadHeader [simp]: "consuming ReadHeader"
  unfolding consuming_def ReadHeader_def
  by (auto split: prod.splits option.splits dest: ReadBytes_suffix)

lemma consuming_SimpleString [simp]: "consuming SimpleString_Unmarshal"
  unfolding consuming_def SimpleString_Unmarshal_def
  by (auto split: prod.splits option.splits dest: ReadBytes_suffix)

lemma consuming_bulk_body [simp]: "consuming (bulk_body n)"
  by (auto simp: consuming_def bulk_body_def ReadFull_def suffix_drop
      split: prod.splits sum.splits option.splits)

lemma consuming_BulkString [simp]: "consuming BulkString_Unmarshal"
  unfolding BulkString_Unmarshal_def
  by (rule consuming_bind) (auto split: option.splits)

lemma bulk_body_panic_iff: "fst (bulk_body n r) = Panic \<longleftrightarrow> n < - 1 \<or> (n = - 1 \<and> Pending r \<noteq> [])"
proof -
  consider "n < - 2" | "n = - 2" | "n = - 1" | "0 \<le> n" by linarith
  then show ?thesis
  proof cases
    case 4
    then show ?thesis
      by (auto simp: bulk_body_def ReadFull_def go_slice_def split: option.splits if_splits)
  qed (auto simp: bulk_body_def ReadFull_def go_slice_def Suc_le_eq)
qed

lemma BulkString_panic_iff:
  "fst (BulkString_Unmarshal r) = Panic \<longleftrightarrow>
     (\<exists>d n r'. ReadHeader r = (Ret (CHR ''$'' # d @ CRLF), r') \<and> ParseInt 32 d = Some n \<and>
        (n < - 1 \<or> (n = - 1 \<and> Pending r' \<noteq> [])))" (is "?P \<longleftrightarrow> ?Q")
proof
  assume ?P
  then obtain data r' where h: "ReadHeader r = (Ret data, r')" and "data ! 0 = CHR ''$''"
    and p: "(case go_slice 1 (int (length data) - 2) data of None \<Rightarrow> Panic
      | Some d \<Rightarrow> (case ParseInt 32 d of None \<Rightarrow> Err (EText []) | Some n \<Rightarrow> fst (bulk_body n r'))) = Panic"
    by (auto simp: BulkString_Unmarshal_def rd_bind_Panic split: if_splits option.splits)
  then obtain d where d: "data = CHR ''$'' # d @ CRLF" "go_slice 1 (int (length data) - 2) data = Some d"
    using header_slice [OF h] by force
  with p obtain n where "ParseInt 32 d = Some n" "fst (bulk_body n r') = Panic"
    by (auto split: option.splits)
  with h d(1) show ?Q by (auto simp: bulk_body_panic_iff)
next
  assume ?Q
  then obtain d n r' where h: "ReadHeader r = (Ret (CHR ''$'' # d @ CRLF), r')" and "ParseInt 32 d = Some n"
    and "n < - 1 \<or> (n = - 1 \<and> Pending r' \<noteq> [])" by blast
  then show ?P
    using slice_body [of "CHR ''$''" d] bulk_body_panic_iff [of n r']
    by (simp add: BulkString_Unmarshal_def rd_bind_def)
qed

lemma SimpleString_no_panic [simp]: "fst (SimpleString_Unmarshal r) \<noteq> Panic"
  by (auto simp: SimpleString_Unmarshal_def go_slice_def split: prod.splits option.splits)

definition negative_bulk :: "string \<Rightarrow> bool" where
  "negative_bulk s \<longleftrightarrow> sublist ''$-'' s"

lemma negative_bulk_suffix: "suffix t s \<Longrightarrow> negative_bulk t \<Longrightarrow> negative_bulk s"
  by (auto simp: negative_bulk_def intro: sublist_order.order_trans)

lemma BulkString_panic_negative:
  assumes "fst (BulkString_Unmarshal r) = Panic"
  shows "negative_bulk (Pending r)"
proof -
  obtain d n r' where h: "ReadHeader r = (Ret (CHR ''$'' # d @ CRLF), r')" and "ParseInt 32 d = Some n" "n < 0"
    using assms by (auto simp: BulkString_panic_iff)
  then obtain ds where "d = CHR ''-'' # ds" using ParseInt_negD by blast
  moreover have "Pending r = (CHR ''$'' # d @ CRLF) @ Pending r'"
    using h by (rule ReadHeader_RetE) simp
  ultimately have "Pending r = [] @ ''$-'' @ (ds @ CRLF @ Pending r')" by simp
  then show ?thesis unfolding negative_bulk_def by (metis sublist_appendI)
qed

lemma array_elems_panic_negative:
  "fst (array_elems n vs r) = Panic \<Longrightarrow> negative_bulk (Pending r)"
proof (induction n arbitrary: vs r)
  case 0
  then show ?case by simp
next
  case (Suc n)
  have step: "negative_bulk (Pending r)"
    if m: "consuming m" "m r = (Ret v, r')" and "fst (array_elems n (vs @ [v]) r') = Panic" for m v r'
    using Suc.IH that consumingD [OF m] negative_bulk_suffix by blast
  from Suc.prems show ?case
    by (auto simp: rd_bind_Panic split: sum.splits if_splits
        intro: step [OF consuming_SimpleString] step [OF consuming_BulkString] BulkString_panic_negative)
qed

lemma Array_panic_negative:
  assumes "fst (Array_Unmarshal r) = Panic"
  shows "negative_bulk (Pending r)"
proof -
  obtain data r' where h: "ReadHeader r = (Ret data, r')" and d0: "data ! 0 = CHR ''*''"
    and p: "size_hdr data = Panic \<or> (\<exists>n. fst (array_elems (nat n) [] r') = Panic)"
    using assms by (auto simp: Array_Unmarshal_def rd_bind_Panic split: if_splits go_result.splits)
  obtain s where "go_slice 1 (int (length data) - 2) data = Some s"
    using header_slice [OF h d0] symbol_neq_CR(5) by blast
  then have "size_hdr data \<noteq> Panic" by (auto simp: size_hdr_def split: option.splits)
  with p obtain n where "fst (array_elems (nat n) [] r') = Panic" by blast
  then show ?thesis
    using array_elems_panic_negative consumingD [OF consuming_ReadHeader h] negative_bulk_suffix by blast
qed

lemma consuming_array_elems [simp]: "consuming (array_elems n vs)"
proof (induction n arbitrary: vs)
  case 0
  then show ?case by (simp add: consuming_def)
next
  case (Suc n)
  have elem: "suffix (Pending (snd (rd_bind m (\<lambda>v. array_elems n (vs @ [v])) r))) (Pending r)"
    if "consuming m" for m r
    using consuming_bind [OF that Suc.IH] by (simp add: consuming_def)
  show ?case
    unfolding consuming_def
    by (simp add: elem split: sum.split)
qed

lemma consuming_Array [simp]: "consuming Array_Unmarshal"
  unfolding Array_Unmarshal_def
  by (rule consuming_bind) (auto split: go_result.splits)

subsection \<open>Properties\<close>

text \<open>C17. A command written to the wire as an array of bulk strings, whatever follows it in the stream, is
  read back by \<open>Array_Unmarshal\<close> as exactly the same list of arguments, and the reader is left at the first byte
  after it, so pipelined commands are never confused.\<close>

theorem command_roundtrip:
  assumes "valid_args args"
  shows "Array_Unmarshal (r\<lparr>Pending := Array_Marshal (map BulkString_Marshal args) @ rest\<rparr>)
    = (Ret args, r\<lparr>Pending := rest\<rparr>)"
  by (rule command.dec_enc [OF assms])

theorem command_roundtrip_witness:
  "Array_Unmarshal \<lparr>Pending = Array_Marshal (map BulkString_Marshal [''SET'', ''k'', CRLF]) @ ''*1'', AtEnd = EOF\<rparr>
    = (Ret [''SET'', ''k'', CRLF], \<lparr>Pending = ''*1'', AtEnd = EOF\<rparr>)"
  using command_roundtrip [of "[''SET'', ''k'', CRLF]", where r = "\<lparr>Pending = [], AtEnd = EOF\<rparr>" and rest = "''*1''"]
  by (simp add: valid_args_def)

text \<open>C37. \<open>BulkString_Unmarshal\<close> panics exactly when the header line announces a negative length: below -1
  always, and -1 as soon as one more byte can be read. Nothing else a peer sends makes it panic.\<close>

theorem bulk_panics_iff_negative_length:
  "fst (BulkString_Unmarshal r) = Panic \<longleftrightarrow>
     (\<exists>d n r'. ReadHeader r = (Ret (CHR ''$'' # d @ CRLF), r') \<and> ParseInt 32 d = Some n \<and>
        (n < - 1 \<or> (n = - 1 \<and> Pending r' \<noteq> [])))"
  by (rule BulkString_panic_iff)

end
