(* ===== verification/Store.thy ===== *)
theory Store
  imports ZSet Resp
begin

text \<open>
  The key space of \<^verbatim>\<open>store/store.go\<close>: entries with their type tag, value and expiry time, and the clients
  blocked in \<^verbatim>\<open>BLPOP\<close>, each waiting on a channel of capacity one. A channel is a number; \<open>chans\<close> holds the
  values that were sent and not yet received, so a send to a channel that already holds one would block.
  Every operation runs under the store's mutex, so each is one atomic function from the state to a result and
  a new state; \<^verbatim>\<open>waitForResolution\<close>, which runs without the mutex, is the two possible continuations of a
  blocked \<^verbatim>\<open>BLPOP\<close>: the value arrives, or the timeout fires.
\<close>

subsection \<open>Data\<close>

datatype val = VString string | VList "string list" | VZSet ZSet

record Entry =
  EType :: string
  EValue :: val
  ExpireAt :: int

definition EntryTypeString :: string where "EntryTypeString = ''string''"
definition EntryTypeList :: string where "EntryTypeList = ''list''"
definition EntryTypeSortedSet :: string where "EntryTypeSortedSet = ''sortedset''"

definition ErrorMessageStringTypeCaste :: string where
  "ErrorMessageStringTypeCaste = ''internal error: list value is not []string''"
definition ErrorMessageZsetTypeCaste :: string where
  "ErrorMessageZsetTypeCaste = ''internal error: Zset value is not *Zset''"

text \<open>Times are nanoseconds since the Unix epoch; the zero value of \<^verbatim>\<open>time.Time\<close> is the first of January of
  year 1.\<close>

definition zero_time :: int where
  "zero_time = - 62135596800 * 1000000000"

record BLPopdata =
  BKey :: string
  BValue :: string

record BLPopWaiter =
  WChan :: nat
  WKey :: string

record Store =
  data :: "(string, Entry) gomap"
  waiterStore :: "(string, BLPopWaiter list) gomap"
  chans :: "(nat, BLPopdata) gomap"
  nextChan :: nat

definition New :: Store where
  "New = \<lparr>data = [], waiterStore = [], chans = [], nextChan = 0\<rparr>"

subsection \<open>Blocking pops\<close>

definition waiters_of :: "Store \<Rightarrow> string \<Rightarrow> BLPopWaiter list" where
  "waiters_of s key = (case map_of (waiterStore s) key of None \<Rightarrow> [] | Some ws \<Rightarrow> ws)"

definition addWaiter :: "Store \<Rightarrow> string \<Rightarrow> BLPopWaiter \<times> Store" where
  "addWaiter s key =
     (let waiter = \<lparr>WChan = nextChan s, WKey = key\<rparr>
      in (waiter, s\<lparr>nextChan := Suc (nextChan s),
                    waiterStore := gm_set key (waiters_of s key @ [waiter]) (waiterStore s)\<rparr>))"

definition removeWaiter :: "Store \<Rightarrow> BLPopWaiter \<Rightarrow> Store" where
  "removeWaiter s waiter =
     (let waiters = waiters_of s (WKey waiter)
      in case index_of (WChan waiter) (map WChan waiters) of
           None \<Rightarrow> s
         | Some idx \<Rightarrow>
             (let remainingWaiters = delete_at idx waiters
              in if remainingWaiters = [] then s\<lparr>waiterStore := gm_del (WKey waiter) (waiterStore s)\<rparr>
                 else s\<lparr>waiterStore := gm_set (WKey waiter) remainingWaiters (waiterStore s)\<rparr>))"

datatype blpop_outcome = Popped BLPopdata | Waiting BLPopWaiter

definition BLPOP :: "Store \<Rightarrow> string \<Rightarrow> blpop_outcome go_result \<times> Store" where
  "BLPOP s key =
     (case map_of (data s) key of
        None \<Rightarrow> (let (w, s') = addWaiter s key in (Ret (Waiting w), s'))
      | Some l \<Rightarrow>
          (case EValue l of
             VList elements \<Rightarrow>
               (case elements of
                  [] \<Rightarrow> (let (w, s') = addWaiter s key in (Ret (Waiting w), s'))
                | e # es \<Rightarrow> (Ret (Popped \<lparr>BKey = key, BValue = e\<rparr>),
                            s\<lparr>data := gm_set key (l\<lparr>EValue := VList es\<rparr>) (data s)\<rparr>))
           | _ \<Rightarrow> (Err (EText ErrorMessageStringTypeCaste), s)))"

definition resolve_receive :: "Store \<Rightarrow> BLPopWaiter \<Rightarrow> (BLPopdata \<times> Store) option" where
  "resolve_receive s w =
     (case map_of (chans s) (WChan w) of
        None \<Rightarrow> None
      | Some d \<Rightarrow> Some (d, s\<lparr>chans := gm_del (WChan w) (chans s)\<rparr>))"

definition resolve_timeout :: "f64 \<Rightarrow> Store \<Rightarrow> BLPopWaiter \<Rightarrow> (BLPopdata \<times> Store) option" where
  "resolve_timeout timeout s w =
     (if f64_eq timeout f64_zero then None
      else Some (\<lparr>BKey = [], BValue = []\<rparr>, removeWaiter s w))"

subsection \<open>Entries\<close>

definition Get :: "Store \<Rightarrow> string \<Rightarrow> Entry option" where
  "Get s key = map_of (data s) key"

definition Set :: "Store \<Rightarrow> string \<Rightarrow> Entry \<Rightarrow> Store" where
  "Set s key entry = s\<lparr>data := gm_set key entry (data s)\<rparr>"

text \<open>\<^verbatim>\<open>Update\<close> applies a function to the entry, \<^verbatim>\<open>nil\<close> if there is none. Beside the new entry the function
  gives the value of the variable that the Go closure assigns.\<close>

definition Update :: "Store \<Rightarrow> string \<Rightarrow> (Entry option \<Rightarrow> (Entry option \<times> 'a) go_result) \<Rightarrow>
    (Entry option \<times> 'a) go_result \<times> Store" where
  "Update s key fn =
     (case fn (map_of (data s) key) of
        Err e \<Rightarrow> (Err e, s)
      | Panic \<Rightarrow> (Panic, s)
      | Ret (newEntry, out) \<Rightarrow>
          (case newEntry of
             None \<Rightarrow> (Ret (None, out), s)
           | Some e \<Rightarrow> (Ret (Some e, out), s\<lparr>data := gm_set key e (data s)\<rparr>)))"

definition Delete_key :: "Store \<Rightarrow> string \<Rightarrow> Store" where
  "Delete_key s key = s\<lparr>data := gm_del key (data s)\<rparr>"

definition Keys :: "(string list \<Rightarrow> string list) \<Rightarrow> Store \<Rightarrow> string list" where
  "Keys order s = order (map fst (data s))"

subsection \<open>Lists\<close>

definition Right :: bool where "Right = True"
definition Left :: bool where "Left = False"

definition send :: "nat \<Rightarrow> BLPopdata \<Rightarrow> (nat, BLPopdata) gomap \<Rightarrow> (nat, BLPopdata) gomap option" where
  "send c d ch = (case map_of ch c of None \<Rightarrow> Some (gm_set c d ch) | Some _ \<Rightarrow> None)"

text \<open>\<^verbatim>\<open>SendToWaiters\<close>: send each value of the queue to its channel.\<close>

fun SendToWaiters :: "(nat \<times> BLPopdata) list \<Rightarrow> (nat, BLPopdata) gomap \<Rightarrow> (nat, BLPopdata) gomap option" where
  "SendToWaiters [] ch = Some ch"
| "SendToWaiters ((c, d) # q) ch = Option.bind (send c d ch) (SendToWaiters q)"

text \<open>The loop of \<^verbatim>\<open>ListPush\<close> over the waiters, first come first served.\<close>

fun serve :: "string \<Rightarrow> BLPopWaiter list \<Rightarrow> string list \<Rightarrow> (nat, BLPopdata) gomap \<Rightarrow>
    (BLPopWaiter list \<times> string list \<times> (nat, BLPopdata) gomap) option" where
  "serve key [] values ch = Some ([], values, ch)"
| "serve key (w # ws) [] ch = Some (w # ws, [], ch)"
| "serve key (w # ws) (v # vs) ch =
     Option.bind (send (WChan w) \<lparr>BKey = key, BValue = v\<rparr> ch) (serve key ws vs)"

definition push_rest :: "Store \<Rightarrow> string \<Rightarrow> string list \<Rightarrow> bool \<Rightarrow> Entry go_result \<times> Store" where
  "push_rest s key values direction =
     (case map_of (data s) key of
        None \<Rightarrow>
          (let entry = \<lparr>EType = EntryTypeList, EValue = VList values, ExpireAt = zero_time\<rparr>
           in (Ret entry, s\<lparr>data := gm_set key entry (data s)\<rparr>))
      | Some l \<Rightarrow>
          (case EValue l of
             VList existing \<Rightarrow>
               (let l' = l\<lparr>EValue := VList (if direction = Right then existing @ values else values @ existing)\<rparr>
                in (Ret l', s\<lparr>data := gm_set key l' (data s)\<rparr>))
           | _ \<Rightarrow> (Err (EText ErrorMessageStringTypeCaste), s)))"

definition ListPush :: "Store \<Rightarrow> string \<Rightarrow> string list \<Rightarrow> bool \<Rightarrow> Entry go_result \<times> Store" where
  "ListPush s key values direction =
     (let values = (if direction = Left then rev values else values)
      in case map_of (waiterStore s) key of
           None \<Rightarrow> push_rest s key values direction
         | Some waiters \<Rightarrow>
             (case serve key waiters values (chans s) of
                None \<Rightarrow> (Panic, s)
              | Some (ws, vs, ch) \<Rightarrow>
                  (let s' = s\<lparr>chans := ch,
                              waiterStore := (if ws \<noteq> [] then gm_set key ws (waiterStore s)
                                              else gm_del key (waiterStore s))\<rparr>
                   in if vs = [] then (Ret \<lparr>EType = EntryTypeList, EValue = VList [], ExpireAt = zero_time\<rparr>, s')
                      else push_rest s' key vs direction)))"

subsection \<open>Sorted sets\<close>

fun zadd_new :: "(nat \<Rightarrow> nat \<Rightarrow> bool) \<Rightarrow> nat \<Rightarrow> ZSet \<Rightarrow> elem list \<Rightarrow> ZSet option" where
  "zadd_new coins j z [] = Some z"
| "zadd_new coins j z ((m, sc) # ps) =
     Option.bind (Insert (coins j) (ZSkipList z) m sc) (\<lambda>sl.
       zadd_new coins (Suc j) (z\<lparr>HashMap := gm_set m sc (HashMap z), ZSkipList := sl\<rparr>) ps)"

fun zadd_existing :: "(nat \<Rightarrow> nat \<Rightarrow> bool) \<Rightarrow> nat \<Rightarrow> ZSet \<Rightarrow> int \<Rightarrow> elem list \<Rightarrow> (ZSet \<times> int) option" where
  "zadd_existing coins j z added [] = Some (z, added)"
| "zadd_existing coins j z added ((m, sc) # ps) =
     Option.bind
       (case map_of (HashMap z) m of
          Some oldScore \<Rightarrow> map_option (\<lambda>(b, sl). (sl, added)) (Delete (ZSkipList z) m oldScore)
        | None \<Rightarrow> Some (ZSkipList z, added + 1))
       (\<lambda>(sl, added').
         Option.bind (Insert (coins j) sl m sc) (\<lambda>sl'.
           zadd_existing coins (Suc j) (z\<lparr>HashMap := gm_set m sc (HashMap z), ZSkipList := sl'\<rparr>) added' ps))"

definition zadd_fn :: "(nat \<Rightarrow> nat \<Rightarrow> bool) \<Rightarrow> elem list \<Rightarrow> Entry option \<Rightarrow> (Entry option \<times> int) go_result" where
  "zadd_fn coins entries e =
     (case e of
        None \<Rightarrow>
          (case zadd_new coins 0 \<lparr>HashMap = [], ZSkipList = NewSkipList\<rparr> entries of
             None \<Rightarrow> Panic
           | Some z \<Rightarrow> Ret (Some \<lparr>EType = EntryTypeSortedSet, EValue = VZSet z, ExpireAt = zero_time\<rparr>,
                           int (length entries)))
      | Some en \<Rightarrow>
          (if EType en \<noteq> EntryTypeSortedSet then Err (ESimple ERR ErrorMessageWrongType)
           else (case EValue en of
                   VZSet z \<Rightarrow>
                     (case zadd_existing coins 0 z 0 entries of
                        None \<Rightarrow> Panic
                      | Some (z', added) \<Rightarrow> Ret (Some (en\<lparr>EValue := VZSet z'\<rparr>), added))
                 | _ \<Rightarrow> Err (EText ErrorMessageZsetTypeCaste))))"

definition ZAdd :: "(nat \<Rightarrow> nat \<Rightarrow> bool) \<Rightarrow> Store \<Rightarrow> string \<Rightarrow> elem list \<Rightarrow> int go_result \<times> Store" where
  "ZAdd coins s key entries =
     (case Update s key (zadd_fn coins entries) of
        (Ret (e, membersAdded), s') \<Rightarrow> (Ret membersAdded, s')
      | (Err e, s') \<Rightarrow> (Err e, s')
      | (Panic, s') \<Rightarrow> (Panic, s'))"

end
