(* ===== verification/StoreCorrect.thy ===== *)
theory StoreCorrect
  imports Store
begin

text \<open>
  What the key space keeps and what its operations promise. \<open>entry_ok\<close> says that the type tag of an entry names
  the kind of its value and that a sorted set is consistent; \<open>waiters_ok\<close> that the clients blocked in \<^verbatim>\<open>BLPOP\<close> hold
  distinct channels, that nothing has been sent to a client that is still queued, and that a key somebody waits
  for holds no element. \<open>store_ok\<close> is their conjunction, and every operation of the store keeps it. The laws
  of reading, writing, updating and deleting entries are the interface \<open>keyspace\<close>, interpreted on the store.
\<close>

subsection \<open>The invariant\<close>

definition entry_ok :: "Entry \<Rightarrow> bool" where
  "entry_ok e \<longleftrightarrow> (case EValue e of
       VString v \<Rightarrow> EType e = EntryTypeString
     | VList vs \<Rightarrow> EType e = EntryTypeList
     | VZSet z \<Rightarrow> EType e = EntryTypeSortedSet \<and> zset_ok z)"

definition has_elements :: "Entry \<Rightarrow> bool" where
  "has_elements e \<longleftrightarrow> (case EValue e of VList vs \<Rightarrow> vs \<noteq> [] | _ \<Rightarrow> False)"

definition waiters_ok :: "Store \<Rightarrow> bool" where
  "waiters_ok s \<longleftrightarrow> gm_ok (waiterStore s) \<and> gm_ok (chans s) \<and>
     (\<forall>key ws. map_of (waiterStore s) key = Some ws \<longrightarrow>
        ws \<noteq> [] \<and> distinct (map WChan ws) \<and>
        (\<forall>w \<in> set ws. WKey w = key \<and> WChan w < nextChan s \<and> map_of (chans s) (WChan w) = None) \<and>
        (\<forall>e. map_of (data s) key = Some e \<longrightarrow> \<not> has_elements e)) \<and>
     (\<forall>key ws key' ws'. map_of (waiterStore s) key = Some ws \<longrightarrow> map_of (waiterStore s) key' = Some ws' \<longrightarrow>
        key \<noteq> key' \<longrightarrow> WChan ` set ws \<inter> WChan ` set ws' = {}) \<and>
     (\<forall>c d. map_of (chans s) c = Some d \<longrightarrow> c < nextChan s)"

definition data_ok :: "Store \<Rightarrow> bool" where
  "data_ok s \<longleftrightarrow> gm_ok (data s) \<and> (\<forall>key e. map_of (data s) key = Some e \<longrightarrow> entry_ok e)"

definition store_ok :: "Store \<Rightarrow> bool" where
  "store_ok s \<longleftrightarrow> data_ok s \<and> waiters_ok s"

lemma store_ok_New [inv_intros]: "store_ok New"
  by (simp add: store_ok_def data_ok_def waiters_ok_def New_def)

lemma store_ok_entry: "store_ok s \<Longrightarrow> map_of (data s) key = Some e \<Longrightarrow> entry_ok e"
  by (simp add: store_ok_def data_ok_def)

lemma entry_ok_simps [simp]:
  "entry_ok \<lparr>EType = t, EValue = VString v, ExpireAt = x\<rparr> \<longleftrightarrow> t = EntryTypeString"
  "entry_ok \<lparr>EType = t, EValue = VList vs, ExpireAt = x\<rparr> \<longleftrightarrow> t = EntryTypeList"
  "entry_ok \<lparr>EType = t, EValue = VZSet z, ExpireAt = x\<rparr> \<longleftrightarrow> t = EntryTypeSortedSet \<and> zset_ok z"
  by (simp_all add: entry_ok_def)

lemma types_distinct [simp]:
  "EntryTypeString \<noteq> EntryTypeList" "EntryTypeList \<noteq> EntryTypeString"
  "EntryTypeString \<noteq> EntryTypeSortedSet" "EntryTypeSortedSet \<noteq> EntryTypeString"
  "EntryTypeList \<noteq> EntryTypeSortedSet" "EntryTypeSortedSet \<noteq> EntryTypeList"
  by (simp_all add: EntryTypeString_def EntryTypeList_def EntryTypeSortedSet_def)

text \<open>Reading the type tag of a correct entry determines the constructor of its value, so the type assertions
  of the handlers never fail.\<close>

lemma entry_okE:
  assumes "entry_ok e"
  obtains (Str) v where "EType e = EntryTypeString" and "EValue e = VString v"
  | (Lst) vs where "EType e = EntryTypeList" and "EValue e = VList vs"
  | (Zst) z where "EType e = EntryTypeSortedSet" and "EValue e = VZSet z" and "zset_ok z"
  using assms by (cases "EValue e") (auto simp: entry_ok_def)

lemma entry_ok_update:
  "entry_ok e \<Longrightarrow> EValue e = VString v \<Longrightarrow> entry_ok (e\<lparr>EValue := VString v'\<rparr>)"
  "entry_ok e \<Longrightarrow> EValue e = VList vs \<Longrightarrow> entry_ok (e\<lparr>EValue := VList vs'\<rparr>)"
  "entry_ok e \<Longrightarrow> EValue e = VZSet z \<Longrightarrow> zset_ok z' \<Longrightarrow> entry_ok (e\<lparr>EValue := VZSet z'\<rparr>)"
  by (simp_all add: entry_ok_def)

text \<open>An entry may be replaced or removed as long as a key with waiters gets no elements.\<close>

lemma store_ok_put:
  assumes "store_ok s" and "entry_ok e" and "map_of (waiterStore s) key = None \<or> \<not> has_elements e"
  shows "store_ok (s\<lparr>data := gm_set key e (data s)\<rparr>)"
  using assms unfolding store_ok_def data_ok_def waiters_ok_def by auto

lemma store_ok_Set [inv_intros]:
  "store_ok s \<Longrightarrow> entry_ok e \<Longrightarrow> \<not> has_elements e \<Longrightarrow> store_ok (Set s key e)"
  by (simp add: Set_def store_ok_put)

lemma store_ok_Delete_key [inv_intros]: "store_ok s \<Longrightarrow> store_ok (Delete_key s key)"
  unfolding store_ok_def data_ok_def waiters_ok_def Delete_key_def by auto

lemma waiting_no_elements:
  "store_ok s \<Longrightarrow> map_of (waiterStore s) key = Some ws \<Longrightarrow> map_of (data s) key = Some e \<Longrightarrow> \<not> has_elements e"
  by (auto simp: store_ok_def waiters_ok_def)

lemma store_ok_Update:
  assumes "store_ok s"
    and fn: "\<And>e' out. fn (map_of (data s) key) = Ret (Some e', out) \<Longrightarrow> entry_ok e' \<and>
       (has_elements e' \<longrightarrow> (\<exists>e. map_of (data s) key = Some e \<and> has_elements e))"
  shows "store_ok (snd (Update s key fn))"
proof (cases "fn (map_of (data s) key)")
  case (Ret r)
  obtain ne out where r: "r = (ne, out)" by fastforce
  show ?thesis
  proof (cases ne)
    case None
    with Ret r assms(1) show ?thesis by (simp add: Update_def)
  next
    case (Some e')
    with Ret r fn have ok: "entry_ok e'" and el: "has_elements e' \<longrightarrow> (\<exists>e. map_of (data s) key = Some e \<and> has_elements e)"
      by auto
    have "map_of (waiterStore s) key = None \<or> \<not> has_elements e'"
      using el waiting_no_elements [OF assms(1)] by (cases "map_of (waiterStore s) key") auto
    from store_ok_put [OF assms(1) ok this] Ret r Some show ?thesis by (simp add: Update_def)
  qed
qed (use assms(1) in \<open>simp_all add: Update_def\<close>)

subsection \<open>Waiters\<close>

lemma waiters_of_alt: "store_ok s \<Longrightarrow> (waiters_of s key = [] \<longleftrightarrow> map_of (waiterStore s) key = None)"
  by (auto simp: store_ok_def waiters_ok_def waiters_of_def split: option.splits)

lemma store_ok_waiters:
  assumes "store_ok s" and "map_of (waiterStore s) key = Some ws"
  shows "ws \<noteq> []" and "distinct (map WChan ws)" and "w \<in> set ws \<Longrightarrow> map_of (chans s) (WChan w) = None"
    and "w \<in> set ws \<Longrightarrow> WKey w = key" and "w \<in> set ws \<Longrightarrow> WChan w < nextChan s"
  using assms by (auto simp: store_ok_def waiters_ok_def)

lemma waiters_okI:
  assumes "gm_ok (waiterStore s)" and "gm_ok (chans s)"
    and "\<And>key ws. map_of (waiterStore s) key = Some ws \<Longrightarrow> ws \<noteq> [] \<and> distinct (map WChan ws)"
    and "\<And>key ws w. map_of (waiterStore s) key = Some ws \<Longrightarrow> w \<in> set ws \<Longrightarrow>
       WKey w = key \<and> WChan w < nextChan s \<and> map_of (chans s) (WChan w) = None"
    and "\<And>key ws e. map_of (waiterStore s) key = Some ws \<Longrightarrow> map_of (data s) key = Some e \<Longrightarrow> \<not> has_elements e"
    and "\<And>key ws key' ws'. map_of (waiterStore s) key = Some ws \<Longrightarrow> map_of (waiterStore s) key' = Some ws' \<Longrightarrow>
       key \<noteq> key' \<Longrightarrow> WChan ` set ws \<inter> WChan ` set ws' = {}"
    and "\<And>c d. map_of (chans s) c = Some d \<Longrightarrow> c < nextChan s"
  shows "waiters_ok s"
  unfolding waiters_ok_def using assms by blast

lemma waiters_okD:
  assumes "waiters_ok s"
  shows "gm_ok (waiterStore s)" and "gm_ok (chans s)"
    and "map_of (waiterStore s) key = Some ws \<Longrightarrow> ws \<noteq> [] \<and> distinct (map WChan ws)"
    and "map_of (waiterStore s) key = Some ws \<Longrightarrow> w \<in> set ws \<Longrightarrow>
       WKey w = key \<and> WChan w < nextChan s \<and> map_of (chans s) (WChan w) = None"
    and "map_of (waiterStore s) key = Some ws \<Longrightarrow> map_of (data s) key = Some e \<Longrightarrow> \<not> has_elements e"
    and "map_of (waiterStore s) key = Some ws \<Longrightarrow> map_of (waiterStore s) key' = Some ws' \<Longrightarrow>
       key \<noteq> key' \<Longrightarrow> WChan ` set ws \<inter> WChan ` set ws' = {}"
    and "map_of (chans s) c = Some d \<Longrightarrow> c < nextChan s"
  using assms by (simp_all add: waiters_ok_def)

text \<open>Changing the queue of one key, the channels and the channel counter.\<close>

lemma waiters_ok_requeue:
  assumes ok: "waiters_ok s" and new: "ws \<noteq> []" "distinct (map WChan ws)"
    "\<And>w. w \<in> set ws \<Longrightarrow> WKey w = key \<and> WChan w < n \<and> map_of ch (WChan w) = None"
    and apart: "\<And>ws' key'. map_of (waiterStore s) key' = Some ws' \<Longrightarrow> key' \<noteq> key \<Longrightarrow> WChan ` set ws \<inter> WChan ` set ws' = {}"
    and old: "\<And>w ws' key'. map_of (waiterStore s) key' = Some ws' \<Longrightarrow> key' \<noteq> key \<Longrightarrow> w \<in> set ws' \<Longrightarrow> map_of ch (WChan w) = None"
    and ch: "gm_ok ch" "nextChan s \<le> n" "\<And>c d. map_of ch c = Some d \<Longrightarrow> c < n"
    and el: "\<And>e. map_of (data s) key = Some e \<Longrightarrow> \<not> has_elements e"
  shows "waiters_ok (s\<lparr>nextChan := n, chans := ch, waiterStore := gm_set key ws (waiterStore s)\<rparr>)"
proof (rule waiters_okI, goal_cases)
  case (3 k ws')
  then show ?case using new waiters_okD(3) [OF ok, of k] by (auto split: if_splits)
next
  case (4 k ws' w)
  then show ?case using new(3) [of w] old [of k] ch(2) waiters_okD(4) [OF ok, of k ws' w] by (auto split: if_splits)
next
  case (5 k ws' e)
  then show ?case using el waiters_okD(5) [OF ok, of k] by (auto split: if_splits)
next
  case (6 k ws' k' ws'')
  then show ?case
    using apart [of k ws'] apart [of k' ws''] waiters_okD(6) [OF ok, of k ws' k' ws''] by (auto split: if_splits)
qed (use ok ch in \<open>auto simp: waiters_ok_def\<close>)

lemma waiters_ok_unqueue:
  assumes ok: "waiters_ok s"
    and old: "\<And>w ws' key'. map_of (waiterStore s) key' = Some ws' \<Longrightarrow> key' \<noteq> key \<Longrightarrow> w \<in> set ws' \<Longrightarrow> map_of ch (WChan w) = None"
    and ch: "gm_ok ch" "\<And>c d. map_of ch c = Some d \<Longrightarrow> c < nextChan s"
  shows "waiters_ok (s\<lparr>chans := ch, waiterStore := gm_del key (waiterStore s)\<rparr>)"
proof (rule waiters_okI, goal_cases)
  case (3 k ws')
  then show ?case using waiters_okD(3) [OF ok, of k] by (auto split: if_splits)
next
  case (4 k ws' w)
  then show ?case using old [of k] waiters_okD(4) [OF ok, of k ws' w] by (auto split: if_splits)
next
  case (5 k ws' e)
  then show ?case using waiters_okD(5) [OF ok, of k] by (auto split: if_splits)
next
  case (6 k ws' k' ws'')
  then show ?case
    using waiters_okD(6) [OF ok, of k ws' k' ws''] by (auto split: if_splits)
qed (use ok ch in \<open>auto simp: waiters_ok_def\<close>)
lemma store_ok_addWaiter:
  assumes "store_ok s" and "\<And>e. map_of (data s) key = Some e \<Longrightarrow> \<not> has_elements e"
  shows "store_ok (snd (addWaiter s key))"
proof -
  let ?w = "\<lparr>WChan = nextChan s, WKey = key\<rparr>"
  let ?s' = "s\<lparr>nextChan := Suc (nextChan s), chans := chans s,
    waiterStore := gm_set key (waiters_of s key @ [?w]) (waiterStore s)\<rparr>"
  have ok: "waiters_ok s" using assms(1) by (simp add: store_ok_def)
  have fresh: "map_of (chans s) (nextChan s) = None"
    using waiters_okD(7) [OF ok, of "nextChan s"] by (cases "map_of (chans s) (nextChan s)") auto
  have old: "w \<in> set ws' \<Longrightarrow> map_of (waiterStore s) key' = Some ws' \<Longrightarrow>
      WKey w = key' \<and> WChan w < nextChan s \<and> map_of (chans s) (WChan w) = None" for w ws' key'
    using waiters_okD(4) [OF ok] by blast
  have mem: "w \<in> set (waiters_of s key) \<Longrightarrow> WKey w = key \<and> WChan w < nextChan s \<and> map_of (chans s) (WChan w) = None" for w
    using old [of w] by (auto simp: waiters_of_def split: option.splits)
  have "waiters_ok ?s'"
  proof (rule waiters_ok_requeue [OF ok])
    show "distinct (map WChan (waiters_of s key @ [?w]))"
    proof -
      have "distinct (map WChan (waiters_of s key))"
        using waiters_okD(3) [OF ok, of key] by (cases "map_of (waiterStore s) key") (auto simp: waiters_of_def)
      moreover have "nextChan s \<notin> WChan ` set (waiters_of s key)" using mem by fastforce
      ultimately show ?thesis by simp
    qed
    show "WChan ` set (waiters_of s key @ [?w]) \<inter> WChan ` set ws' = {}"
      if "map_of (waiterStore s) key' = Some ws'" "key' \<noteq> key" for ws' key'
    proof -
      have "WChan ` set (waiters_of s key) \<inter> WChan ` set ws' = {}"
        using waiters_okD(6) [OF ok _ that(1)] that(2)
        by (cases "map_of (waiterStore s) key") (auto simp: waiters_of_def)
      moreover have "nextChan s \<notin> WChan ` set ws'" using old [OF _ that(1)] by fastforce
      ultimately show ?thesis by simp
    qed
    show "c < Suc (nextChan s)" if "map_of (chans s) c = Some d" for c d
      using waiters_okD(7) [OF ok that] by simp
    show "WKey w = key \<and> WChan w < Suc (nextChan s) \<and> map_of (chans s) (WChan w) = None"
      if "w \<in> set (waiters_of s key @ [?w])" for w
      using that mem [of w] fresh by auto
    show "map_of (chans s) (WChan w) = None" if "map_of (waiterStore s) key' = Some ws'" "w \<in> set ws'" for w ws' key'
      using old [OF that(2,1)] by simp
  qed (use assms(2) waiters_okD(2) [OF ok] in simp_all)
  moreover have "data_ok ?s'" using assms(1) by (simp add: store_ok_def data_ok_def)
  ultimately show ?thesis by (simp add: store_ok_def addWaiter_def Let_def)
qed

lemma store_ok_BLPOP [inv_intros]:
  assumes "store_ok s"
  shows "store_ok (snd (BLPOP s key))"
proof (cases "map_of (data s) key")
  case None
  with store_ok_addWaiter [OF assms, of key] show ?thesis
    by (simp add: BLPOP_def case_prod_unfold Let_def)
next
  case (Some l)
  have l: "entry_ok l" using assms Some by (rule store_ok_entry)
  show ?thesis
  proof (cases "EValue l")
    case (VList elements)
    show ?thesis
    proof (cases elements)
      case Nil
      with Some VList store_ok_addWaiter [OF assms, of key] show ?thesis
        by (simp add: BLPOP_def has_elements_def case_prod_unfold Let_def)
    next
      case (Cons e es)
      have "map_of (waiterStore s) key = None"
        using waiting_no_elements [OF assms _ Some] VList Cons
        by (cases "map_of (waiterStore s) key") (auto simp: has_elements_def)
      with Some VList Cons assms l show ?thesis
        by (simp add: BLPOP_def store_ok_put entry_ok_update)
    qed
  qed (use Some assms in \<open>simp_all add: BLPOP_def\<close>)
qed

lemma store_ok_receive [inv_intros]:
  assumes "store_ok s" and "resolve_receive s w = Some (d, s')"
  shows "store_ok s'"
proof -
  have s': "s' = s\<lparr>chans := gm_del (WChan w) (chans s)\<rparr>"
    using assms(2) by (auto simp: resolve_receive_def split: option.splits)
  have ok: "waiters_ok s" using assms(1) by (simp add: store_ok_def)
  have "waiters_ok s'"
    unfolding s'
  proof (rule waiters_okI, goal_cases)
    case (6 k ws k' ws')
    then show ?case using waiters_okD(6) [OF ok, of k ws k' ws'] by simp
  qed (use waiters_okD [OF ok] in \<open>auto split: if_splits\<close>)
  then show ?thesis using assms(1) s' by (simp add: store_ok_def data_ok_def)
qed

lemma delete_at_map: "map f (delete_at i xs) = delete_at i (map f xs)"
  by (simp add: delete_at_def take_map drop_map)

lemma set_delete_at: "set (delete_at i xs) \<subseteq> set xs"
  by (auto simp: delete_at_def dest: in_set_takeD in_set_dropD)

lemma distinct_delete_at: "distinct xs \<Longrightarrow> distinct (delete_at i xs)"
  unfolding delete_at_def
  by (auto simp: set_take_disj_set_drop_if_distinct distinct_append dest: in_set_takeD)

text \<open>Removing the first waiter with a channel leaves the others in their order.\<close>

lemma delete_at_filter:
  "distinct (map f xs) \<Longrightarrow> index_of c (map f xs) = Some i \<Longrightarrow> delete_at i xs = filter (\<lambda>x. f x \<noteq> c) xs"
proof (induction xs arbitrary: i)
  case Nil
  then show ?case by simp
next
  case (Cons x xs)
  show ?case
  proof (cases "f x = c")
    case True
    with Cons.prems have "\<forall>y \<in> set xs. f y \<noteq> c" by (auto simp: image_iff)
    then have "filter (\<lambda>x. f x \<noteq> c) xs = xs" by (simp add: filter_id_conv)
    with True Cons.prems show ?thesis by (simp add: delete_at_def)
  next
    case False
    with Cons.prems obtain j where "index_of c (map f xs) = Some j" "i = Suc j" by auto
    with Cons False show ?thesis by (simp add: delete_at_def)
  qed
qed

lemma removeWaiter_alt:
  assumes "store_ok s"
  shows "removeWaiter s w = (case map_of (waiterStore s) (WKey w) of None \<Rightarrow> s
    | Some ws \<Rightarrow> (let rest = filter (\<lambda>x. WChan x \<noteq> WChan w) ws
                 in if rest = ws then s
                    else s\<lparr>waiterStore := (if rest = [] then gm_del (WKey w) (waiterStore s)
                                           else gm_set (WKey w) rest (waiterStore s))\<rparr>))"
proof (cases "map_of (waiterStore s) (WKey w)")
  case None
  then show ?thesis by (simp add: removeWaiter_def waiters_of_def)
next
  case (Some ws)
  note d = store_ok_waiters(2) [OF assms Some]
  show ?thesis
  proof (cases "index_of (WChan w) (map WChan ws)")
    case None
    then have "\<forall>x \<in> set ws. WChan x \<noteq> WChan w" by (auto simp: image_iff)
    then have "filter (\<lambda>x. WChan x \<noteq> WChan w) ws = ws" by (simp add: filter_id_conv)
    moreover have "removeWaiter s w = s"
      unfolding removeWaiter_def waiters_of_def Some by (simp only: option.case Let_def None)
    ultimately show ?thesis using Some by simp
  next
    case i: (Some i)
    then have "\<exists>x \<in> set ws. WChan x = WChan w" using index_of_SomeD [OF i] by (metis length_map nth_map nth_mem)
    then have "filter (\<lambda>x. WChan x \<noteq> WChan w) ws \<noteq> ws" by (metis (mono_tags, lifting) filter_id_conv)
    with i Some delete_at_filter [OF d i] show ?thesis
      by (simp add: removeWaiter_def waiters_of_def Let_def)
  qed
qed

lemma store_ok_removeWaiter [inv_intros]:
  assumes "store_ok s"
  shows "store_ok (removeWaiter s w)"
proof (cases "map_of (waiterStore s) (WKey w)")
  case None
  with assms show ?thesis by (simp add: removeWaiter_alt)
next
  case (Some ws)
  have ok: "waiters_ok s" using assms by (simp add: store_ok_def)
  let ?rest = "filter (\<lambda>x. WChan x \<noteq> WChan w) ws"
  have old: "map_of (waiterStore s) k = Some ws' \<Longrightarrow> x \<in> set ws' \<Longrightarrow> map_of (chans s) (WChan x) = None" for k ws' x
    using waiters_okD(4) [OF ok] by blast
  have "waiters_ok (s\<lparr>chans := chans s, waiterStore := gm_del (WKey w) (waiterStore s)\<rparr>)"
    by (rule waiters_ok_unqueue [OF ok]) (use old waiters_okD(2,7) [OF ok] in auto)
  moreover have "waiters_ok (s\<lparr>nextChan := nextChan s, chans := chans s, waiterStore := gm_set (WKey w) ?rest (waiterStore s)\<rparr>)"
    if "?rest \<noteq> []"
  proof (rule waiters_ok_requeue [OF ok that])
    show "distinct (map WChan ?rest)" using store_ok_waiters(2) [OF assms Some] by (rule distinct_map_filter)
    show "WChan ` set ?rest \<inter> WChan ` set ws' = {}"
      if "map_of (waiterStore s) k = Some ws'" "k \<noteq> WKey w" for ws' k
      using waiters_okD(6) [OF ok Some that(1)] that(2) by auto
    show "WKey x = WKey w \<and> WChan x < nextChan s \<and> map_of (chans s) (WChan x) = None" if "x \<in> set ?rest" for x
      using waiters_okD(4) [OF ok Some] that by simp
  qed (use old waiters_okD(2,7) [OF ok] waiters_okD(5) [OF ok Some] in auto)
  ultimately show ?thesis
    using assms Some by (simp add: removeWaiter_alt store_ok_def data_ok_def Let_def)
qed

lemma store_ok_timeout [inv_intros]:
  "store_ok s \<Longrightarrow> resolve_timeout t s w = Some (d, s') \<Longrightarrow> store_ok s'"
  by (auto simp: resolve_timeout_def store_ok_removeWaiter split: if_splits)
subsection \<open>Pushing to a list\<close>

definition delivered :: "string \<Rightarrow> BLPopWaiter list \<Rightarrow> string list \<Rightarrow> (nat \<times> BLPopdata) list" where
  "delivered key ws vs = zip (map WChan ws) (map (\<lambda>v. \<lparr>BKey = key, BValue = v\<rparr>) vs)"

lemma delivered_simps [simp]:
  "delivered key [] vs = []" "delivered key ws [] = []"
  "delivered key (w # ws) (v # vs) = (WChan w, \<lparr>BKey = key, BValue = v\<rparr>) # delivered key ws vs"
  by (simp_all add: delivered_def)

lemma delivered_take: "delivered key (take (length vs) ws) vs = delivered key ws vs"
  by (induction ws vs rule: list_induct2') simp_all

lemma dom_delivered: "c \<in> fst ` set (delivered key ws vs) \<Longrightarrow> c \<in> WChan ` set ws"
  by (auto simp: delivered_def dest!: set_zip_leftD)

text \<open>The loop over the waiters never blocks on a channel that is full: each waiter in turn gets the next
  value, until one of the two runs out.\<close>

lemma serve_spec:
  assumes "distinct (map WChan ws)" and "\<And>w. w \<in> set ws \<Longrightarrow> map_of ch (WChan w) = None" and "gm_ok ch"
  shows "\<exists>ch'. serve key ws vs ch = Some (drop (length vs) ws, drop (length ws) vs, ch') \<and> gm_ok ch' \<and>
    map_of ch' = map_of ch ++ map_of (delivered key ws vs)"
  using assms
proof (induction key ws vs ch rule: serve.induct)
  case (3 key w ws v vs ch)
  let ?ch = "gm_set (WChan w) \<lparr>BKey = key, BValue = v\<rparr> ch"
  have s: "send (WChan w) \<lparr>BKey = key, BValue = v\<rparr> ch = Some ?ch"
    using "3.prems"(2) by (simp add: send_def)
  have "\<exists>ch'. serve key ws vs ?ch = Some (drop (length vs) ws, drop (length ws) vs, ch') \<and> gm_ok ch' \<and>
      map_of ch' = map_of ?ch ++ map_of (delivered key ws vs)"
    using "3.prems" s by (intro "3.IH") (auto simp: image_iff)
  then obtain ch' where ch': "serve key ws vs ?ch = Some (drop (length vs) ws, drop (length ws) vs, ch')" "gm_ok ch'"
      "map_of ch' = map_of ?ch ++ map_of (delivered key ws vs)" by blast
  have "WChan w \<notin> fst ` set (delivered key ws vs)"
    using "3.prems"(1) dom_delivered [of "WChan w" key ws vs] by auto
  then have "map_of (delivered key ws vs) (WChan w) = None" by (simp add: map_of_eq_None_iff)
  with ch'(3) have "map_of ch' = map_of ch ++ map_of (delivered key (w # ws) (v # vs))"
    by (auto simp: fun_eq_iff map_add_def split: option.splits)
  with s ch'(1,2) show ?case by (simp del: delivered_simps)
qed simp_all

lemma store_ok_push_rest:
  assumes "store_ok s" and "map_of (waiterStore s) key = None"
  shows "store_ok (snd (push_rest s key values direction))"
  using assms store_ok_entry [OF assms(1), of key]
  by (auto simp: push_rest_def Let_def store_ok_put entry_ok_update split: option.splits val.splits)

text \<open>The state between serving the waiters and storing the rest of the values.\<close>

definition served :: "Store \<Rightarrow> string \<Rightarrow> string list \<Rightarrow> (nat, BLPopdata) gomap \<Rightarrow> Store" where
  "served s key vs ch = s\<lparr>chans := ch,
     waiterStore := (if drop (length vs) (waiters_of s key) \<noteq> []
                     then gm_set key (drop (length vs) (waiters_of s key)) (waiterStore s)
                     else gm_del key (waiterStore s))\<rparr>"

lemma store_ok_served:
  assumes "store_ok s" and ws: "map_of (waiterStore s) key = Some ws" and "gm_ok ch"
    and ch: "map_of ch = map_of (chans s) ++ map_of (delivered key ws vs)"
  shows "store_ok (served s key vs ch)"
proof -
  have ok: "waiters_ok s" using assms(1) by (simp add: store_ok_def)
  let ?n = "length vs"
  have dis: "distinct (map WChan ws)" by (rule store_ok_waiters(2) [OF assms(1) ws])
  have lt: "c < nextChan s" if "map_of ch c = Some d" for c d
  proof (cases "map_of (delivered key ws vs) c")
    case None
    with that ch waiters_okD(7) [OF ok, of c d] show ?thesis by (simp add: map_add_def)
  next
    case (Some d')
    then have "c \<in> WChan ` set ws" using dom_delivered by (force dest: map_of_SomeD)
    then show ?thesis using waiters_okD(4) [OF ok ws] by auto
  qed
  have keep: "map_of ch c = None" if "map_of (chans s) c = None" "c \<notin> fst ` set (delivered key ws vs)" for c
    using that by (simp add: ch map_of_eq_None_iff)
  have others: "map_of ch (WChan w) = None" if "map_of (waiterStore s) k = Some ws'" "k \<noteq> key" "w \<in> set ws'" for w ws' k
  proof (rule keep)
    show "map_of (chans s) (WChan w) = None" using waiters_okD(4) [OF ok that(1,3)] by simp
    show "WChan w \<notin> fst ` set (delivered key ws vs)"
      using dom_delivered [of "WChan w"] waiters_okD(6) [OF ok that(1) ws that(2)] that(3) by blast
  qed
  have rest: "map_of ch (WChan w) = None" if "w \<in> set (drop ?n ws)" for w
  proof (rule keep)
    show "map_of (chans s) (WChan w) = None"
      using waiters_okD(4) [OF ok ws] in_set_dropD [OF that] by simp
    have "WChan w \<notin> WChan ` set (take ?n ws)"
      using dis that by (metis append_take_drop_id distinct_append disjoint_iff image_eqI list.set_map map_append)
    then show "WChan w \<notin> fst ` set (delivered key ws vs)"
      using dom_delivered [of _ key "take ?n ws" vs] by (auto simp: delivered_take)
  qed
  have "waiters_ok (s\<lparr>nextChan := nextChan s, chans := ch, waiterStore := gm_set key (drop ?n ws) (waiterStore s)\<rparr>)"
    if "drop ?n ws \<noteq> []"
  proof (rule waiters_ok_requeue [OF ok that])
    show "distinct (map WChan (drop ?n ws))" using dis by (simp add: drop_map [symmetric])
    show "WKey w = key \<and> WChan w < nextChan s \<and> map_of ch (WChan w) = None" if "w \<in> set (drop ?n ws)" for w
      using waiters_okD(4) [OF ok ws in_set_dropD [OF that]] rest [OF that] by simp
    show "WChan ` set (drop ?n ws) \<inter> WChan ` set ws' = {}"
      if "map_of (waiterStore s) k = Some ws'" "k \<noteq> key" for ws' k
      using waiters_okD(6) [OF ok ws that(1)] that(2) set_drop_subset [of ?n ws] by blast
  qed (use others assms(3) lt waiters_okD(5) [OF ok ws] in auto)
  moreover have "waiters_ok (s\<lparr>chans := ch, waiterStore := gm_del key (waiterStore s)\<rparr>)"
    by (rule waiters_ok_unqueue [OF ok]) (use others assms(3) lt in auto)
  ultimately show ?thesis
    using assms(1) ws by (simp add: served_def waiters_of_def store_ok_def data_ok_def)
qed

lemma ListPush_serves:
  assumes "store_ok s" and ws: "map_of (waiterStore s) key = Some ws"
    and vs: "vs = (if direction = Left then rev values else values)"
  shows "\<exists>ch. gm_ok ch \<and> map_of ch = map_of (chans s) ++ map_of (delivered key ws vs) \<and>
    store_ok (served s key vs ch) \<and>
    ListPush s key values direction =
      (if length vs \<le> length ws then (Ret \<lparr>EType = EntryTypeList, EValue = VList [], ExpireAt = zero_time\<rparr>, served s key vs ch)
       else push_rest (served s key vs ch) key (drop (length ws) vs) direction)"
proof -
  have ok: "waiters_ok s" using assms(1) by (simp add: store_ok_def)
  obtain ch where ch: "serve key ws vs (chans s) = Some (drop (length vs) ws, drop (length ws) vs, ch)" "gm_ok ch"
      "map_of ch = map_of (chans s) ++ map_of (delivered key ws vs)"
    using serve_spec [of ws "chans s" key vs] store_ok_waiters [OF assms(1) ws] waiters_okD(2) [OF ok] by blast
  have "store_ok (served s key vs ch)" using store_ok_served [OF assms(1) ws ch(2,3)] .
  moreover have "ListPush s key values direction =
      (if length vs \<le> length ws then (Ret \<lparr>EType = EntryTypeList, EValue = VList [], ExpireAt = zero_time\<rparr>, served s key vs ch)
       else push_rest (served s key vs ch) key (drop (length ws) vs) direction)"
    using ch(1) ws by (simp add: ListPush_def served_def waiters_of_def Let_def vs [symmetric])
  ultimately show ?thesis using ch(2,3) by blast
qed

lemma ListPush_no_waiter:
  "map_of (waiterStore s) key = None \<Longrightarrow>
   ListPush s key values direction = push_rest s key (if direction = Left then rev values else values) direction"
  by (simp add: ListPush_def Let_def)

lemma store_ok_ListPush [inv_intros]:
  assumes "store_ok s"
  shows "store_ok (snd (ListPush s key values direction))"
proof (cases "map_of (waiterStore s) key")
  case None
  with assms show ?thesis by (simp add: ListPush_no_waiter store_ok_push_rest)
next
  case (Some ws)
  let ?vs = "if direction = Left then rev values else values"
  obtain ch where "store_ok (served s key ?vs ch)"
    "ListPush s key values direction =
      (if length ?vs \<le> length ws then (Ret \<lparr>EType = EntryTypeList, EValue = VList [], ExpireAt = zero_time\<rparr>, served s key ?vs ch)
       else push_rest (served s key ?vs ch) key (drop (length ws) ?vs) direction)"
    using ListPush_serves [OF assms Some refl] by blast
  moreover have "map_of (waiterStore (served s key ?vs ch)) key = None" if "\<not> length ?vs \<le> length ws"
    using that Some by (simp add: served_def waiters_of_def)
  ultimately show ?thesis by (simp add: store_ok_push_rest)
qed

lemma push_rest_no_panic: "fst (push_rest s key values direction) \<noteq> Panic"
  by (simp add: push_rest_def Let_def split: option.splits val.splits)

lemma ListPush_no_panic:
  assumes "store_ok s"
  shows "fst (ListPush s key values direction) \<noteq> Panic"
proof (cases "map_of (waiterStore s) key")
  case None
  then show ?thesis by (simp add: ListPush_no_waiter push_rest_no_panic)
next
  case (Some ws)
  from ListPush_serves [OF assms Some refl, of direction "values"] show ?thesis
    by (metis fst_conv go_result.distinct(3) push_rest_no_panic)
qed
subsection \<open>Adding to a sorted set\<close>

lemma zset_ok_insert:
  assumes "zset_ok z" and "map_of (HashMap z) m = None" and "\<not> f64_nan sc"
  shows "\<exists>sl. Insert coins (ZSkipList z) m sc = Some sl \<and>
    zset_ok (z\<lparr>HashMap := gm_set m sc (HashMap z), ZSkipList := sl\<rparr>)"
  using assms skip_list.ins_indexes [of "ZSkipList z" "map_of (HashMap z)" m sc coins]
  by (auto simp: zset_ok_def)

lemma zset_ok_delete:
  assumes "zset_ok z" and "map_of (HashMap z) m = Some sc"
  shows "\<exists>sl. Delete (ZSkipList z) m sc = Some (True, sl) \<and>
    zset_ok (z\<lparr>HashMap := gm_del m (HashMap z), ZSkipList := sl\<rparr>)"
  using assms skip_list.del_indexes [of "ZSkipList z" "map_of (HashMap z)" m sc]
  by (auto simp: zset_ok_def)

lemma zset_ok_replace:
  assumes "zset_ok z" and "map_of (HashMap z) m = Some old" and "\<not> f64_nan sc"
  shows "\<exists>sl sl'. Delete (ZSkipList z) m old = Some (True, sl) \<and> Insert coins sl m sc = Some sl' \<and>
    zset_ok (z\<lparr>HashMap := gm_set m sc (HashMap z), ZSkipList := sl'\<rparr>)"
proof -
  obtain sl where sl: "Delete (ZSkipList z) m old = Some (True, sl)"
      "zset_ok (z\<lparr>HashMap := gm_del m (HashMap z), ZSkipList := sl\<rparr>)"
    using zset_ok_delete [OF assms(1,2)] by blast
  obtain sl' where "Insert coins sl m sc = Some sl'"
      "zset_ok (z\<lparr>HashMap := gm_set m sc (gm_del m (HashMap z)), ZSkipList := sl'\<rparr>)"
    using zset_ok_insert [OF sl(2), of m sc coins] assms(3) by auto
  with sl(1) assms(1) show ?thesis by (auto simp: zset_ok_def)
qed

definition new_members :: "(string \<rightharpoonup> f64) \<Rightarrow> elem list \<Rightarrow> string set" where
  "new_members hm ps = fst ` set ps - dom hm"

lemma new_members_Nil [simp]: "new_members hm [] = {}"
  by (simp add: new_members_def)

lemma card_new_members_Cons:
  "card (new_members hm ((m, sc) # ps)) =
     (if hm m = None then 1 else 0) + card (new_members (hm(m \<mapsto> sc)) ps)"
proof -
  have "new_members hm ((m, sc) # ps) =
      (if hm m = None then insert m (new_members (hm(m \<mapsto> sc)) ps) else new_members (hm(m \<mapsto> sc)) ps)"
    by (auto simp: new_members_def)
  moreover have "finite (new_members (hm(m \<mapsto> sc)) ps)" "m \<notin> new_members (hm(m \<mapsto> sc)) ps"
    by (auto simp: new_members_def)
  ultimately show ?thesis by simp
qed

lemma map_add_rev_Cons: "hm ++ map_of (rev ((m, sc) # ps)) = hm(m \<mapsto> sc) ++ map_of (rev ps)"
  by (auto simp: fun_eq_iff map_add_def split: option.splits)

lemma zadd_existing_spec:
  assumes "zset_ok z" and "\<And>m sc. (m, sc) \<in> set ps \<Longrightarrow> \<not> f64_nan sc"
  shows "\<exists>z'. zadd_existing coins j z added ps
      = Some (z', added + int (card (new_members (map_of (HashMap z)) ps))) \<and>
    zset_ok z' \<and> map_of (HashMap z') = map_of (HashMap z) ++ map_of (rev ps)"
  using assms
proof (induction ps arbitrary: z j added)
  case Nil
  then show ?case by simp
next
  case (Cons p ps)
  obtain m sc where p: "p = (m, sc)" by fastforce
  let ?z = "\<lambda>sl. z\<lparr>HashMap := gm_set m sc (HashMap z), ZSkipList := sl\<rparr>"
  have nn: "\<not> f64_nan sc" using Cons.prems(2) p by auto
  let ?new = "if map_of (HashMap z) m = None then 1 else 0 :: int"
  obtain sl' where step: "zset_ok (?z sl')"
      "zadd_existing coins j z added (p # ps) = zadd_existing coins (Suc j) (?z sl') (added + ?new) ps"
  proof (cases "map_of (HashMap z) m")
    case None
    with zset_ok_insert [OF Cons.prems(1) None nn, of "coins j"] p that show thesis by auto
  next
    case (Some old)
    with zset_ok_replace [OF Cons.prems(1) Some nn, of "coins j"] p that show thesis by auto
  qed
  obtain z' where "zadd_existing coins (Suc j) (?z sl') (added + ?new) ps =
        Some (z', added + ?new + int (card (new_members (map_of (HashMap (?z sl'))) ps)))"
      "zset_ok z'" "map_of (HashMap z') = map_of (HashMap (?z sl')) ++ map_of (rev ps)"
    using Cons.IH [OF step(1)] Cons.prems(2) by (meson list.set_intros(2))
  with step(2) show ?case
    by (simp add: p card_new_members_Cons map_add_rev_Cons [unfolded rev.simps] del: zadd_existing.simps)
qed

lemma zadd_new_spec:
  assumes "zset_ok z" and "\<And>m sc. (m, sc) \<in> set ps \<Longrightarrow> \<not> f64_nan sc"
    and "distinct (map fst ps)" and "fst ` set ps \<inter> dom (map_of (HashMap z)) = {}"
  shows "\<exists>z'. zadd_new coins j z ps = Some z' \<and> zset_ok z' \<and>
    map_of (HashMap z') = map_of (HashMap z) ++ map_of (rev ps)"
  using assms
proof (induction ps arbitrary: z j)
  case Nil
  then show ?case by simp
next
  case (Cons p ps)
  obtain m sc where p: "p = (m, sc)" by fastforce
  have "map_of (HashMap z) m = None" "\<not> f64_nan sc" using Cons.prems(2,4) p by auto
  then obtain sl where sl: "Insert (coins j) (ZSkipList z) m sc = Some sl"
      "zset_ok (z\<lparr>HashMap := gm_set m sc (HashMap z), ZSkipList := sl\<rparr>)" (is "zset_ok ?z")
    using zset_ok_insert [OF Cons.prems(1)] by blast
  obtain z' where "zadd_new coins (Suc j) ?z ps = Some z'" "zset_ok z'"
      "map_of (HashMap z') = map_of (HashMap ?z) ++ map_of (rev ps)"
  proof -
    have "fst ` set ps \<inter> dom (map_of (HashMap ?z)) = {}" using Cons.prems(3,4) p by auto
    moreover have "distinct (map fst ps)" "\<And>m sc. (m, sc) \<in> set ps \<Longrightarrow> \<not> f64_nan sc"
      using Cons.prems(2,3) by auto
    ultimately show thesis using Cons.IH [OF sl(2), of "Suc j"] that by blast
  qed
  with sl(1) show ?case by (simp add: p map_add_rev_Cons [unfolded rev.simps])
qed

definition empty_zset :: ZSet where
  "empty_zset = \<lparr>HashMap = [], ZSkipList = NewSkipList\<rparr>"

lemma zset_ok_empty: "zset_ok empty_zset"
  by (simp add: empty_zset_def zset_ok_def skip_list.inv_emp skip_list.elems_emp indexes_def)

text \<open>The sorted set stored under a key, as a map from members to scores.\<close>

definition zmap :: "Store \<Rightarrow> string \<Rightarrow> (string \<rightharpoonup> f64)" where
  "zmap s key = (case map_of (data s) key of
      Some e \<Rightarrow> (case EValue e of VZSet z \<Rightarrow> map_of (HashMap z) | _ \<Rightarrow> Map.empty) | None \<Rightarrow> Map.empty)"

lemma ZAdd_existing:
  assumes "store_ok s" and "map_of (data s) key = Some e" and "EType e = EntryTypeSortedSet"
    and "\<And>m sc. (m, sc) \<in> set ps \<Longrightarrow> \<not> f64_nan sc"
  shows "\<exists>s'. ZAdd coins s key ps = (Ret (int (card (new_members (zmap s key) ps))), s') \<and> store_ok s' \<and>
    zmap s' key = zmap s key ++ map_of (rev ps)"
proof -
  have ok: "entry_ok e" using assms(1,2) by (rule store_ok_entry)
  from this assms(3) obtain z where z: "EValue e = VZSet z" "zset_ok z" by (auto elim: entry_okE)
  obtain z' where z': "zadd_existing coins 0 z 0 ps = Some (z', int (card (new_members (map_of (HashMap z)) ps)))"
      "zset_ok z'" "map_of (HashMap z') = map_of (HashMap z) ++ map_of (rev ps)"
    using zadd_existing_spec [OF z(2), where ps = ps and coins = coins and j = 0 and added = 0] assms(4) by auto
  let ?e = "e\<lparr>EValue := VZSet z'\<rparr>"
  have "store_ok (s\<lparr>data := gm_set key ?e (data s)\<rparr>)"
    using store_ok_put [OF assms(1), of ?e key] entry_ok_update(3) [OF ok z(1) z'(2)] by (simp add: has_elements_def)
  with assms(2,3) z z' show ?thesis
    by (simp add: ZAdd_def Update_def zadd_fn_def zmap_def)
qed

lemma ZAdd_fresh:
  assumes "store_ok s" and "map_of (data s) key = None"
    and "\<And>m sc. (m, sc) \<in> set ps \<Longrightarrow> \<not> f64_nan sc" and "distinct (map fst ps)"
  shows "\<exists>s'. ZAdd coins s key ps = (Ret (int (card (new_members (zmap s key) ps))), s') \<and> store_ok s' \<and>
    zmap s' key = zmap s key ++ map_of (rev ps)"
proof -
  obtain z' where z': "zadd_new coins 0 empty_zset ps = Some z'" "zset_ok z'" "map_of (HashMap z') = map_of (rev ps)"
    using zadd_new_spec [OF zset_ok_empty, where ps = ps and coins = coins and j = 0] assms(3,4)
    by (auto simp: empty_zset_def)
  let ?e = "\<lparr>EType = EntryTypeSortedSet, EValue = VZSet z', ExpireAt = zero_time\<rparr>"
  have "store_ok (s\<lparr>data := gm_set key ?e (data s)\<rparr>)"
    using store_ok_put [OF assms(1), of ?e key] z'(2) by (simp add: has_elements_def)
  moreover have "card (new_members (zmap s key) ps) = length ps"
    using assms(2,4) distinct_card [OF assms(4)] by (simp add: new_members_def zmap_def)
  ultimately show ?thesis
    using assms(2) z' by (simp add: ZAdd_def Update_def zadd_fn_def zmap_def empty_zset_def)
qed

lemma ZAdd_wrong_type:
  assumes "map_of (data s) key = Some e" and "EType e \<noteq> EntryTypeSortedSet"
  shows "ZAdd coins s key ps = (Err (ESimple ERR ErrorMessageWrongType), s)"
  using assms by (simp add: ZAdd_def Update_def zadd_fn_def)

text \<open>On a fresh key nothing looks for a member that was already added by the same command, so a repeated
  member gets two nodes in the skip list and one entry in the hash map.\<close>

lemma zadd_new_duplicate:
  assumes "\<not> f64_nan s1" and "\<not> f64_nan s2"
  shows "\<exists>z. zadd_new coins 0 empty_zset [(m, s1), (m, s2)] = Some z \<and> length (HashMap z) = 1 \<and>
    Length (ZSkipList z) = 2 \<and> \<not> zset_ok z"
proof -
  obtain t1 where t1: "Insert (coins 0) NewSkipList m s1 = Some t1" "sl_inv t1" "sl_elems t1 = [(m, s1)]"
    using skip_list.ins_spec [OF skip_list.inv_emp assms(1), of "coins 0" m] by (auto simp: skip_list.elems_emp)
  obtain t2 where t2: "Insert (coins 1) t1 m s2 = Some t2" "sl_inv t2" "sl_elems t2 = insort_key ekey (m, s2) [(m, s1)]"
    using skip_list.ins_spec [OF t1(2) assms(2), of "coins 1" m] t1(3) by auto
  have len: "length (sl_elems t2) = 2" using t2(3) by simp
  have "Length t2 = int (length (sl_elems t2))"
    using t2(2) sl_elems_rep by (auto simp: sl_inv_def sl_rep_def)
  with len have L: "Length t2 = 2" by simp
  let ?z = "\<lparr>HashMap = [(m, s2)], ZSkipList = t2\<rparr>"
  have "\<not> zset_ok ?z" using zset_ok_length [of ?z] len by auto
  moreover have "zadd_new coins 0 empty_zset [(m, s1), (m, s2)] = Some ?z"
    using t1(1) t2(1) by (simp add: empty_zset_def)
  ultimately show ?thesis using L by auto
qed

subsection \<open>The interface of the key space\<close>

text \<open>What the handlers rely on: reading a key after a write, a deletion or an update of any key.\<close>

locale keyspace =
  fixes get :: "'s \<Rightarrow> string \<Rightarrow> 'e option"
    and put :: "'s \<Rightarrow> string \<Rightarrow> 'e \<Rightarrow> 's"
    and del :: "'s \<Rightarrow> string \<Rightarrow> 's"
    and upd :: "'s \<Rightarrow> string \<Rightarrow> ('e option \<Rightarrow> ('e option \<times> 'a) go_result) \<Rightarrow> ('e option \<times> 'a) go_result \<times> 's"
  assumes get_put: "get (put s k e) k' = (if k' = k then Some e else get s k')"
    and get_del: "get (del s k) k' = (if k' = k then None else get s k')"
    and upd_spec: "upd s k f = (f (get s k), case f (get s k) of Ret (Some e, x) \<Rightarrow> put s k e | _ \<Rightarrow> s)"
begin

lemma upd_get:
  "get (snd (upd s k f)) k' =
     (if k' = k then (case f (get s k) of Ret (Some e, x) \<Rightarrow> Some e | _ \<Rightarrow> get s k) else get s k')"
  by (auto simp: upd_spec get_put split: go_result.splits option.splits)

lemma upd_written:
  "f (get s k) = Ret (Some e, x) \<Longrightarrow> upd s k f = (Ret (Some e, x), put s k e)"
  by (simp add: upd_spec)

lemma upd_failed: "(\<And>e x. f (get s k) \<noteq> Ret (Some e, x)) \<Longrightarrow> upd s k f = (f (get s k), s)"
  by (auto simp: upd_spec split: go_result.splits option.splits)

lemma upd_invariant:
  assumes "P s" and "\<And>e x. f (get s k) = Ret (Some e, x) \<Longrightarrow> P (put s k e)"
  shows "P (snd (upd s k f))"
  using assms by (auto simp: upd_spec split: go_result.splits option.splits)

end

interpretation store_keys: keyspace Get Set Delete_key Update
  by unfold_locales
    (auto simp: Get_def Set_def Delete_key_def Update_def split: go_result.splits option.splits)

subsection \<open>Blocked clients, seen from outside\<close>

lemma store_ok_blocked_New: "store_ok (snd (addWaiter New key))"
  using store_ok_BLPOP [OF store_ok_New, of key] by (simp add: BLPOP_def New_def split: prod.splits)

lemma waiters_served:
  "map_of (waiterStore s) key = Some ws \<Longrightarrow> waiters_of (served s key vs ch) key = drop (length vs) ws"
  by (auto simp: served_def waiters_of_def)

lemma sent_not_waiting:
  assumes "store_ok s" and "map_of (chans s) c = Some d"
  shows "\<forall>key. \<forall>w \<in> set (waiters_of s key). WChan w \<noteq> c"
proof (intro allI ballI)
  fix key w assume "w \<in> set (waiters_of s key)"
  then obtain ws where "map_of (waiterStore s) key = Some ws" "w \<in> set ws"
    by (cases "map_of (waiterStore s) key") (auto simp: waiters_of_def)
  with assms show "WChan w \<noteq> c" by (auto simp: store_ok_def waiters_ok_def)
qed

lemma removeWaiter_gone: "\<forall>w' \<in> set (waiters_of s (WKey w)). WChan w' \<noteq> WChan w \<Longrightarrow> removeWaiter s w = s"
proof -
  assume "\<forall>w' \<in> set (waiters_of s (WKey w)). WChan w' \<noteq> WChan w"
  then have "index_of (WChan w) (map WChan (waiters_of s (WKey w))) = None" by (auto simp: image_iff)
  then show ?thesis by (simp add: removeWaiter_def Let_def del: index_of_None)
qed

subsection \<open>Properties\<close>

text \<open>C9. A push to a list with blocked clients never blocks on a channel, never panics and serves them first come,
  first served: the longest waiting clients each receive one value, in the order in which the values are pushed (a left
  push starts with the last argument), the clients that remain keep their order, and only the values nobody waited for
  reach the list.\<close>

theorem push_serves_waiters_in_order:
  assumes "store_ok s" and "map_of (waiterStore s) key = Some ws"
    and "vs = (if direction = Left then rev values else values)"
  shows "\<exists>ch. map_of ch = map_of (chans s) ++ map_of (delivered key ws vs) \<and>
    store_ok (served s key vs ch) \<and>
    waiters_of (served s key vs ch) key = drop (length vs) ws \<and>
    ListPush s key values direction =
      (if length vs \<le> length ws
       then (Ret \<lparr>EType = EntryTypeList, EValue = VList [], ExpireAt = zero_time\<rparr>, served s key vs ch)
       else push_rest (served s key vs ch) key (drop (length ws) vs) direction)"
  using ListPush_serves [OF assms] waiters_served [OF assms(2)] by blast

theorem push_serves_waiters_in_order_witness:
  "\<exists>ch. map_of ch 0 = Some \<lparr>BKey = ''k'', BValue = ''b''\<rparr> \<and>
    ListPush (snd (addWaiter New ''k'')) ''k'' [''a'', ''b''] Left =
      push_rest (served (snd (addWaiter New ''k'')) ''k'' [''b'', ''a''] ch) ''k'' [''a''] Left"
proof -
  let ?s = "snd (addWaiter New ''k'')"
  have "store_ok ?s" by (rule store_ok_blocked_New)
  moreover have "map_of (waiterStore ?s) ''k'' = Some [\<lparr>WChan = 0, WKey = ''k''\<rparr>]"
    by (simp add: addWaiter_def New_def waiters_of_def Let_def)
  moreover have "chans ?s = []" by (simp add: addWaiter_def New_def Let_def)
  ultimately show ?thesis
    using push_serves_waiters_in_order [of ?s "''k''" "[\<lparr>WChan = 0, WKey = ''k''\<rparr>]" "[''b'', ''a'']" Left "[''a'', ''b'']"]
    by force
qed

text \<open>C11. On a store with its invariant, \<^verbatim>\<open>ZADD\<close> of scores none of which is NaN, to an existing sorted set, or to an absent key
  with distinct members, always succeeds, returns the number of members that were not in the set before, and afterwards every named
  member has the last score given for it and every other member its old score; the hash map and the skip list still agree. (To an
  absent key with a member named twice they do not: \<open>zadd_fresh_key_duplicates_member\<close>.)\<close>

theorem zadd_updates_scores:
  assumes "store_ok s"
    and "case map_of (data s) key of None \<Rightarrow> distinct (map fst ps) | Some e \<Rightarrow> EType e = EntryTypeSortedSet"
    and "\<forall>(m, sc) \<in> set ps. \<not> f64_nan sc"
  shows "\<exists>s'. ZAdd coins s key ps = (Ret (int (card (fst ` set ps - dom (zmap s key)))), s') \<and> store_ok s' \<and>
    zmap s' key = zmap s key ++ map_of (rev ps)"
  using ZAdd_existing [OF assms(1), of key _ ps coins] ZAdd_fresh [OF assms(1), of key ps coins] assms(2,3)
  by (auto simp: new_members_def split: option.splits)

theorem zadd_updates_scores_witness:
  "\<exists>s'. ZAdd (\<lambda>_ _. False) New ''z'' [(''a'', f64_zero), (''b'', f64_zero)] = (Ret 2, s') \<and> store_ok s' \<and>
    zmap s' ''z'' ''b'' = Some f64_zero"
proof -
  have "\<not> f64_nan f64_zero" by code_simp
  moreover have "map_of (data New) ''z'' = None" "zmap New ''z'' = Map.empty" by (simp_all add: New_def zmap_def)
  moreover have "card {''a'', ''b''} = 2" by simp
  ultimately show ?thesis
    using zadd_updates_scores [OF store_ok_New, where key = "''z''" and
      ps = "[(''a'', f64_zero), (''b'', f64_zero)]" and coins = "\<lambda>_ _. False"]
    by (force simp: card_insert_if)
qed

text \<open>\<^verbatim>\<open>ZADD\<close> that creates a key does not look for members it has just added: a member named twice gets two nodes in
  the skip list but one entry in the hash map, the reply counts it twice, and the set is inconsistent from then on.\<close>

theorem zadd_fresh_key_duplicates_member:
  assumes "\<not> f64_nan s1" and "\<not> f64_nan s2" and "map_of (data s) key = None"
  shows "\<exists>s' e z. ZAdd coins s key [(m, s1), (m, s2)] = (Ret 2, s') \<and> map_of (data s') key = Some e \<and>
    EValue e = VZSet z \<and> length (HashMap z) = 1 \<and> Length (ZSkipList z) = 2 \<and> \<not> zset_ok z"
  using zadd_new_duplicate [OF assms(1,2), of coins m] assms(3)
  by (auto simp: ZAdd_def Update_def zadd_fn_def empty_zset_def)

theorem zadd_fresh_key_duplicates_member_witness:
  "\<exists>s' e z. ZAdd (\<lambda>_ _. False) New ''z'' [(''a'', f64_zero), (''a'', f64_zero)] = (Ret 2, s') \<and>
    map_of (data s') ''z'' = Some e \<and> EValue e = VZSet z \<and> length (HashMap z) = 1 \<and> Length (ZSkipList z) = 2 \<and> \<not> zset_ok z"
proof -
  have "\<not> f64_nan f64_zero" by code_simp
  moreover have "map_of (data New) ''z'' = None" by (simp add: New_def)
  ultimately show ?thesis using zadd_fresh_key_duplicates_member by blast
qed

text \<open>C35. The race of \<^verbatim>\<open>waitForResolution\<close>: once a push has put a value into the channel of a blocked client, the client is
  no longer queued, so when its timer fires at that moment the store stays as it is and the client gets the empty answer.
  The value is then in no list and in no queue, only in a channel that nobody reads any more.\<close>

theorem blpop_timeout_loses_value:
  assumes "store_ok s" and "map_of (chans s) (WChan w) = Some d" and "\<not> f64_eq timeout f64_zero"
  shows "resolve_timeout timeout s w = Some (\<lparr>BKey = [], BValue = []\<rparr>, s) \<and>
    (\<forall>key. \<forall>w' \<in> set (waiters_of s key). WChan w' \<noteq> WChan w)"
  using sent_not_waiting [OF assms(1,2)] removeWaiter_gone [of s w] assms(3) by (auto simp: resolve_timeout_def)

theorem blpop_timeout_loses_value_witness:
  "resolve_timeout 1 (snd (ListPush (snd (addWaiter New ''k'')) ''k'' [''v''] Right)) \<lparr>WChan = 0, WKey = ''k''\<rparr>
     = Some (\<lparr>BKey = [], BValue = []\<rparr>, snd (ListPush (snd (addWaiter New ''k'')) ''k'' [''v''] Right))"
proof -
  let ?s = "snd (ListPush (snd (addWaiter New ''k'')) ''k'' [''v''] Right)"
  have "store_ok ?s" by (rule store_ok_ListPush [OF store_ok_blocked_New])
  moreover have "map_of (chans ?s) 0 = Some \<lparr>BKey = ''k'', BValue = ''v''\<rparr>" by code_simp
  moreover have "\<not> f64_eq 1 f64_zero" by code_simp
  ultimately show ?thesis using blpop_timeout_loses_value [of ?s "\<lparr>WChan = 0, WKey = ''k''\<rparr>"] by simp
qed

end
