(* ===== verification/Aof.thy ===== *)
theory Aof
  imports Resp
begin

text \<open>
  The append-only file of \<^verbatim>\<open>aof/aof.go\<close> and its manifest, \<^verbatim>\<open>aof/manifest.go\<close>. The file system is a map from
  paths to contents; a record of faults says which system calls fail, so that every error return of the source
  is a branch of the model. Loading replays every command of the file, in order, through a function that the
  server supplies; the loop ends because every command that is read makes the rest of the file shorter.

  The lemmas show that a log replays to the commands that were appended, that the manifest reads back as it was
  written, and what happens to a log that a crash cut short.
\<close>

subsection \<open>Paths\<close>

fun split_slash :: "string \<Rightarrow> string \<Rightarrow> string list" where
  "split_slash acc [] = [rev acc]"
| "split_slash acc (c # cs) =
     (if c = CHR ''/'' then rev acc # split_slash [] cs else split_slash (c # acc) cs)"

fun clean_parts :: "bool \<Rightarrow> string list \<Rightarrow> string list \<Rightarrow> string list" where
  "clean_parts rooted acc [] = rev acc"
| "clean_parts rooted acc (p # ps) =
     (if p = [] \<or> p = ''.'' then clean_parts rooted acc ps
      else if p = ''..'' then
        (case acc of
           [] \<Rightarrow> clean_parts rooted (if rooted then [] else [p]) ps
         | a # as \<Rightarrow> clean_parts rooted (if a = ''..'' then p # acc else as) ps)
      else clean_parts rooted (p # acc) ps)"

fun join_slash :: "string list \<Rightarrow> string" where
  "join_slash [] = []"
| "join_slash [p] = p"
| "join_slash (p # ps) = p @ ''/'' @ join_slash ps"

definition path_Clean :: "string \<Rightarrow> string" where
  "path_Clean s =
     (let rooted = (s \<noteq> [] \<and> s ! 0 = CHR ''/''); body = join_slash (clean_parts rooted [] (split_slash [] s))
      in if rooted then ''/'' @ body else if body = [] then ''.'' else body)"

definition path_Join :: "string \<Rightarrow> string \<Rightarrow> string" where
  "path_Join a b =
     (if a = [] \<and> b = [] then []
      else path_Clean (if a = [] then b else if b = [] then a else a @ ''/'' @ b))"

subsection \<open>The file system\<close>

type_synonym fs = "(string, string) gomap"

record faults =
  FMkdirAll :: "string \<Rightarrow> go_error option"
  FStat :: "string \<Rightarrow> go_error option"
  FWriteFile :: "string \<Rightarrow> go_error option"
  FReadFile :: "string \<Rightarrow> go_error option"
  FOpenFile :: "string \<Rightarrow> go_error option"
  FSeekStart :: "go_error option"
  FSeekEnd :: "go_error option"
  FWrite :: "(nat \<times> go_error) option"
  FSync :: "go_error option"
  FClose :: "go_error option"

definition no_faults :: faults where
  "no_faults = \<lparr>FMkdirAll = (\<lambda>_. None), FStat = (\<lambda>_. None), FWriteFile = (\<lambda>_. None), FReadFile = (\<lambda>_. None),
     FOpenFile = (\<lambda>_. None), FSeekStart = None, FSeekEnd = None, FWrite = None, FSync = None, FClose = None\<rparr>"

subsection \<open>The manifest\<close>

record Manifest =
  NodeType :: string
  AofFilename :: string
  Seq :: int
  FileType :: char

definition ParseManifest :: "golib \<Rightarrow> string \<Rightarrow> Manifest go_result" where
  "ParseManifest lib content =
     (let fields = Fields lib content
      in if length fields < 6 then Err (EText ''corrupted manifest file'')
         else (case Atoi (fields ! 3) of
             None \<Rightarrow> Err (EWrap ''invalid sequence in manifest: '' (ENum (fields ! 3)))
           | Some seq \<Rightarrow>
               (case fields ! 5 of
                  [] \<Rightarrow> Panic
                | c # cs \<Rightarrow> Ret \<lparr>NodeType = fields ! 0, AofFilename = fields ! 1, Seq = seq, FileType = c\<rparr>)))"

definition FormatManifest :: "Manifest \<Rightarrow> string" where
  "FormatManifest m = NodeType m @ '' '' @ AofFilename m @ '' seq '' @ Itoa (Seq m) @ '' type '' @
     utf8_byte (of_char (FileType m)) @ [LF]"

definition EnsureManifest :: "golib \<Rightarrow> faults \<Rightarrow> fs \<Rightarrow> string \<Rightarrow> string \<Rightarrow> Manifest go_result \<times> fs" where
  "EnsureManifest lib flt fs dir appendFilename =
     (let manifestPath = path_Join dir (appendFilename @ ''.manifest'')
      in case FStat flt manifestPath of
           Some e \<Rightarrow> (Err e, fs)
         | None \<Rightarrow>
             (case map_of fs manifestPath of
                None \<Rightarrow>
                  (case FMkdirAll flt dir of
                     Some e \<Rightarrow> (Err e, fs)
                   | None \<Rightarrow>
                       (let manifest = \<lparr>NodeType = ''file'', AofFilename = appendFilename @ ''.1.incr.aof'',
                                        Seq = 1, FileType = CHR ''i''\<rparr>
                        in case FWriteFile flt manifestPath of
                             Some e \<Rightarrow> (Err e, fs)
                           | None \<Rightarrow> (Ret manifest, gm_set manifestPath (FormatManifest manifest) fs)))
              | Some content \<Rightarrow>
                  (case FReadFile flt manifestPath of
                     Some e \<Rightarrow> (Err e, fs)
                   | None \<Rightarrow> (ParseManifest lib content, fs))))"

subsection \<open>The log\<close>

record aof_Config =
  cDir :: string
  cAppenddirname :: string
  cAppendfilename :: string
  cAppendfsync :: string

record AOFLocal =
  aof_dir :: string
  aof_manifest :: Manifest
  aof_filePath :: string
  aof_file :: bool
  aof_fsyncPolicy :: string

definition aof_New :: "golib \<Rightarrow> faults \<Rightarrow> fs \<Rightarrow> aof_Config \<Rightarrow> AOFLocal go_result \<times> fs" where
  "aof_New lib flt fs cfg =
     (let appendDir = path_Join (cDir cfg) (cAppenddirname cfg)
      in case FMkdirAll flt appendDir of
           Some e \<Rightarrow> (Err (EWrap ''failed to create append directory: '' e), fs)
         | None \<Rightarrow>
             (case EnsureManifest lib flt fs appendDir (cAppendfilename cfg) of
                (Err e, fs1) \<Rightarrow> (Err (EWrap ''failed to load or create manifest: '' e), fs1)
              | (Panic, fs1) \<Rightarrow> (Panic, fs1)
              | (Ret m, fs1) \<Rightarrow>
                  (let aofFilePath = path_Join appendDir (AofFilename m)
                   in case FOpenFile flt aofFilePath of
                        Some e \<Rightarrow> (Err (EWrap (''failed to open AOF file '' @ aofFilePath @ '': '') e), fs1)
                      | None \<Rightarrow>
                          (Ret \<lparr>aof_dir = appendDir, aof_manifest = m, aof_filePath = aofFilePath, aof_file = True,
                                aof_fsyncPolicy = cAppendfsync cfg\<rparr>,
                           (case map_of fs1 aofFilePath of None \<Rightarrow> gm_set aofFilePath [] fs1 | Some _ \<Rightarrow> fs1)))))"

lemma Array_Unmarshal_shorter:
  assumes "Array_Unmarshal r = (Ret vs, r')"
  shows "length (Pending r') < length (Pending r)"
proof -
  obtain data r1 where h: "ReadHeader r = (Ret data, r1)" and
    b: "(if data ! 0 \<noteq> CHR ''*'' then rd_fail (type_mismatch ''unexpected RESP type '' (CHR ''*'') (data ! 0))
     else (case size_hdr data of Panic \<Rightarrow> rd_panic | Err e \<Rightarrow> rd_fail e | Ret n \<Rightarrow> array_elems (nat n) [])) r1 = (Ret vs, r')"
    using assms unfolding Array_Unmarshal_def rd_bind_Ret by blast
  obtain s where "data = s @ CRLF" "Pending r = data @ Pending r1" using h by (rule ReadHeader_RetE)
  then have "length (Pending r1) < length (Pending r)" by simp
  moreover obtain n where "array_elems n [] r1 = (Ret vs, r')"
    using b by (auto split: if_splits go_result.splits)
  then have "length (Pending r') \<le> length (Pending r1)"
    using consumingD [OF consuming_array_elems] suffix_length_le by blast
  ultimately show ?thesis by simp
qed

function replay_loop :: "(string list \<Rightarrow> 's \<Rightarrow> unit go_result \<times> 's) \<Rightarrow> reader \<Rightarrow> 's \<Rightarrow> unit go_result \<times> 's" where
  "replay_loop replay r st =
     (case Array_Unmarshal r of
        (Err e, r') \<Rightarrow> (if is_EOF e then (Ret (), st) else (Err (EWrap ''AOF parse error: '' e), st))
      | (Panic, r') \<Rightarrow> (Panic, st)
      | (Ret vs, r') \<Rightarrow>
          (if length vs = 0 then (Err (EText ''replay error: empty command array''), st)
           else (case replay vs st of
                   (Err e, st') \<Rightarrow> (Err (EWrap ''replay error: '' e), st')
                 | (Panic, st') \<Rightarrow> (Panic, st')
                 | (Ret u, st') \<Rightarrow> replay_loop replay r' st')))"
  by pat_completeness auto
termination
  by (relation "measure (\<lambda>(replay, r, st). length (Pending r))")
    (auto dest: Array_Unmarshal_shorter [OF sym])

declare replay_loop.simps [simp del]

text \<open>The content of the open log; after \<^verbatim>\<open>Close\<close> the file is \<^verbatim>\<open>nil\<close> and every call on it returns
  \<^verbatim>\<open>os.ErrInvalid\<close>.\<close>

definition ErrInvalid :: go_error where "ErrInvalid = EText ''invalid argument''"

definition log_content :: "fs \<Rightarrow> AOFLocal \<Rightarrow> string" where
  "log_content fs a = (case map_of fs (aof_filePath a) of None \<Rightarrow> [] | Some c \<Rightarrow> c)"

definition aof_Load :: "(string list \<Rightarrow> 's \<Rightarrow> unit go_result \<times> 's) \<Rightarrow> faults \<Rightarrow> fs \<Rightarrow> AOFLocal \<Rightarrow> 's \<Rightarrow> unit go_result \<times> 's" where
  "aof_Load replay flt fs a st =
     (case (if aof_file a then FSeekStart flt else Some ErrInvalid) of
        Some e \<Rightarrow> (Err (EWrap ''AOF seek start error: '' e), st)
      | None \<Rightarrow>
          (case replay_loop replay \<lparr>Pending = log_content fs a, AtEnd = EOF\<rparr> st of
             (Ret u, st') \<Rightarrow>
               (case FSeekEnd flt of
                  Some e \<Rightarrow> (Err (EWrap ''AOF seek end error: '' e), st')
                | None \<Rightarrow> (Ret (), st'))
           | (Err e, st') \<Rightarrow> (Err e, st')
           | (Panic, st') \<Rightarrow> (Panic, st')))"

definition Append :: "faults \<Rightarrow> AOFLocal \<Rightarrow> string \<Rightarrow> fs \<Rightarrow> unit go_result \<times> fs" where
  "Append flt a payload fs =
     (case (if aof_file a then FWrite flt else Some (0, ErrInvalid)) of
        Some (n, e) \<Rightarrow> (Err (EWrap ''failed to write to AOF file: '' e),
                        (if aof_file a then gm_set (aof_filePath a) (log_content fs a @ take n payload) fs else fs))
      | None \<Rightarrow>
          (let fs' = gm_set (aof_filePath a) (log_content fs a @ payload) fs
           in if aof_fsyncPolicy a = ''always'' then
                (case FSync flt of
                   Some e \<Rightarrow> (Err (EWrap ''failed to sync AOF file: '' e), fs')
                 | None \<Rightarrow> (Ret (), fs'))
              else (Ret (), fs')))"

definition AppendCmd :: "faults \<Rightarrow> AOFLocal \<Rightarrow> string \<Rightarrow> string list \<Rightarrow> fs \<Rightarrow> unit go_result \<times> fs" where
  "AppendCmd flt a cmd args fs = Append flt a (Array_Marshal (map BulkString_Marshal (cmd # args))) fs"

definition aof_Close :: "faults \<Rightarrow> AOFLocal \<Rightarrow> unit go_result \<times> AOFLocal" where
  "aof_Close flt a =
     (if aof_file a then
        ((case FClose flt of Some e \<Rightarrow> Err e | None \<Rightarrow> Ret ()), a\<lparr>aof_file := False\<rparr>)
      else (Ret (), a))"


subsection \<open>Replaying a log\<close>

fun replay_all :: "(string list \<Rightarrow> 's \<Rightarrow> unit go_result \<times> 's) \<Rightarrow> string list list \<Rightarrow> 's \<Rightarrow> unit go_result \<times> 's" where
  "replay_all replay [] st = (Ret (), st)"
| "replay_all replay (c # cs) st =
     (case replay c st of
        (Ret u, st') \<Rightarrow> replay_all replay cs st'
      | (Err e, st') \<Rightarrow> (Err (EWrap ''replay error: '' e), st')
      | (Panic, st') \<Rightarrow> (Panic, st'))"

definition valid_cmd :: "string list \<Rightarrow> bool" where
  "valid_cmd c \<longleftrightarrow> valid_args c \<and> c \<noteq> []"

definition log_of :: "string list list \<Rightarrow> string" where
  "log_of cmds = concat (map bulk_array cmds)"

lemma log_of_simps [simp]: "log_of [] = []" "log_of (c # cs) = bulk_array c @ log_of cs"
  "log_of (cs @ ds) = log_of cs @ log_of ds"
  by (simp_all add: log_of_def)

lemma replay_loop_cmd:
  assumes "valid_cmd c"
  shows "replay_loop replay \<lparr>Pending = bulk_array c @ rest, AtEnd = e\<rparr> st =
    (case replay c st of
        (Ret u, st') \<Rightarrow> replay_loop replay \<lparr>Pending = rest, AtEnd = e\<rparr> st'
      | (Err x, st') \<Rightarrow> (Err (EWrap ''replay error: '' x), st')
      | (Panic, st') \<Rightarrow> (Panic, st'))"
  using assms command.dec_enc [of c, where r = "\<lparr>Pending = [], AtEnd = e\<rparr>" and rest = rest]
  by (subst replay_loop.simps) (auto simp: valid_cmd_def split: prod.splits go_result.splits)

text \<open>What follows the commands of a log is reached exactly when all of them replay.\<close>

lemma replay_loop_log:
  assumes "\<forall>c \<in> set cmds. valid_cmd c"
  shows "replay_loop replay \<lparr>Pending = log_of cmds @ rest, AtEnd = e\<rparr> st =
    (case replay_all replay cmds st of
        (Ret u, st') \<Rightarrow> replay_loop replay \<lparr>Pending = rest, AtEnd = e\<rparr> st'
      | (Err x, st') \<Rightarrow> (Err x, st')
      | (Panic, st') \<Rightarrow> (Panic, st'))"
  using assms
proof (induction cmds arbitrary: st)
  case (Cons c cs)
  then show ?case
    using replay_loop_cmd [of c replay "log_of cs @ rest" e st]
    by (auto split: prod.splits go_result.splits)
qed simp

lemma Array_Unmarshal_empty: "Array_Unmarshal \<lparr>Pending = [], AtEnd = e\<rparr> = (Err (conn_err e), \<lparr>Pending = [], AtEnd = e\<rparr>)"
  by (simp add: Array_Unmarshal_def rd_bind_def ReadHeader_def ReadBytes_def)

lemma replay_loop_log_exact:
  assumes "\<forall>c \<in> set cmds. valid_cmd c"
  shows "replay_loop replay \<lparr>Pending = log_of cmds, AtEnd = EOF\<rparr> st = replay_all replay cmds st"
proof -
  have "replay_loop replay \<lparr>Pending = [], AtEnd = EOF\<rparr> st' = (Ret (), st')" for st'
    by (subst replay_loop.simps) (simp add: Array_Unmarshal_empty conn_err_def)
  moreover obtain x st' where x: "replay_all replay cmds st = (x, st')" by fastforce
  ultimately show ?thesis
    using replay_loop_log [OF assms, where rest = "[]" and e = EOF and replay = replay and st = st]
    by (cases x) simp_all
qed

lemma log_content_Append:
  "log_content (snd (Append no_faults a payload fs)) a = (if aof_file a then log_content fs a @ payload else log_content fs a)"
  by (simp add: Append_def no_faults_def log_content_def Let_def)

fun AppendCmds :: "AOFLocal \<Rightarrow> string list list \<Rightarrow> fs \<Rightarrow> fs" where
  "AppendCmds a [] fs = fs"
| "AppendCmds a (c # cs) fs = AppendCmds a cs (snd (AppendCmd no_faults a (hd c) (tl c) fs))"

lemma log_content_AppendCmds:
  assumes "aof_file a" and "\<forall>c \<in> set cmds. c \<noteq> []"
  shows "log_content (AppendCmds a cmds fs) a = log_content fs a @ log_of cmds"
  using assms(2)
proof (induction cmds arbitrary: fs)
  case (Cons c cs)
  then show ?case using assms(1) by (simp add: AppendCmd_def log_content_Append)
qed simp

lemma aof_roundtrip:
  assumes "aof_file a" and "log_content fs a = log_of old" and "\<forall>c \<in> set (old @ cmds). valid_cmd c"
  shows "aof_Load replay no_faults (AppendCmds a cmds fs) a st = replay_all replay (old @ cmds) st"
proof -
  have "log_content (AppendCmds a cmds fs) a = log_of (old @ cmds)"
    using assms by (subst log_content_AppendCmds) (auto simp: valid_cmd_def)
  moreover obtain x st' where x: "replay_all replay (old @ cmds) st = (x, st')" by fastforce
  ultimately show ?thesis
    using replay_loop_log_exact [OF assms(3), of replay st] assms(1)
    by (cases x) (simp_all add: aof_Load_def no_faults_def)
qed

subsection \<open>A log that was cut short\<close>

text \<open>The header of an array and some of its elements, but not all.\<close>

definition cut_cmd :: "nat \<Rightarrow> string list \<Rightarrow> string" where
  "cut_cmd n args = ''*'' @ Itoa (int n) @ CRLF @ concat (map BulkString_Marshal args)"

lemma array_elems_prefix:
  assumes "\<forall>a \<in> set args. length a < 2 ^ 31"
  shows "array_elems (length args + k) vs (r\<lparr>Pending := concat (map BulkString_Marshal args) @ rest\<rparr>)
    = array_elems k (vs @ args) (r\<lparr>Pending := rest\<rparr>)"
  using assms
proof (induction args arbitrary: vs)
  case (Cons a args)
  let ?tail = "concat (map BulkString_Marshal args) @ rest"
  have "BulkString_Unmarshal (r\<lparr>Pending := BulkString_Marshal a @ ?tail\<rparr>) = (Ret a, r\<lparr>Pending := ?tail\<rparr>)"
    using Cons.prems by (intro BulkString_roundtrip) simp
  moreover have "Peek1 (r\<lparr>Pending := BulkString_Marshal a @ ?tail\<rparr>) = Inr (CHR ''$'')"
    by (simp add: BulkString_Marshal_def)
  ultimately show ?case
    using Cons.IH [of "vs @ [a]"] Cons.prems by (simp add: rd_bind_def)
qed simp

lemma Array_Unmarshal_cut:
  assumes "\<forall>a \<in> set args. length a < 2 ^ 31" and "length args + k = n" and "n < 2 ^ 63"
  shows "Array_Unmarshal (r\<lparr>Pending := cut_cmd n args @ rest\<rparr>) = array_elems k args (r\<lparr>Pending := rest\<rparr>)"
proof -
  let ?n = "Itoa (int n)" and ?body = "concat (map BulkString_Marshal args) @ rest"
  have hdr: "ReadHeader (r\<lparr>Pending := CHR ''*'' # ?n @ CRLF @ ?body\<rparr>)
      = (Ret (CHR ''*'' # ?n @ CRLF), r\<lparr>Pending := ?body\<rparr>)"
    by (rule ReadHeader_line) (simp_all add: Itoa_no_LF)
  have "Atoi ?n = Some (int n)"
    using assms(3) by (intro Atoi_Itoa) (simp_all add: min_int64_def max_int64_def)
  then have "size_hdr (CHR ''*'' # ?n @ CRLF) = Ret (int n)"
    using slice_body [of "CHR ''*''" ?n] by (simp add: size_hdr_def)
  then show ?thesis
    using hdr array_elems_prefix [OF assms(1), of k "[]"] assms(2)
    by (simp add: Array_Unmarshal_def cut_cmd_def rd_bind_def)
qed

lemma replay_loop_cut_boundary:
  assumes "\<forall>a \<in> set args. length a < 2 ^ 31" and "length args < n" and "n < 2 ^ 63"
  shows "replay_loop replay \<lparr>Pending = cut_cmd n args, AtEnd = EOF\<rparr> st = (Ret (), st)"
proof -
  obtain k where "n = length args + Suc k" using assms(2) less_iff_Suc_add by auto
  then have "Array_Unmarshal \<lparr>Pending = cut_cmd n args, AtEnd = EOF\<rparr> = (Err (conn_err EOF), \<lparr>Pending = [], AtEnd = EOF\<rparr>)"
    using Array_Unmarshal_cut [OF assms(1) _ assms(3), where k = "Suc k" and rest = "[]" and r = "\<lparr>Pending = [], AtEnd = EOF\<rparr>"]
    by (simp add: Peek1_def)
  then show ?thesis by (subst replay_loop.simps) (simp add: conn_err_def)
qed

lemma replay_loop_cut_then_cmd:
  assumes "\<forall>a \<in> set args. length a < 2 ^ 31" and "length args < n" and "n < 2 ^ 63"
  shows "replay_loop replay \<lparr>Pending = cut_cmd n args @ bulk_array c @ rest, AtEnd = EOF\<rparr> st =
    (Err (EWrap ''AOF parse error: '' (type_mismatch ''unexpected RESP type '' (CHR ''*'') (CHR ''*''))), st)"
proof -
  obtain k where "n = length args + Suc k" using assms(2) less_iff_Suc_add by auto
  then have "fst (Array_Unmarshal \<lparr>Pending = cut_cmd n args @ bulk_array c @ rest, AtEnd = EOF\<rparr>) =
      Err (type_mismatch ''unexpected RESP type '' (CHR ''*'') (CHR ''*''))"
    using Array_Unmarshal_cut [OF assms(1) _ assms(3), where k = "Suc k" and rest = "bulk_array c @ rest" and r = "\<lparr>Pending = [], AtEnd = EOF\<rparr>"]
    by (simp add: Array_Marshal_def Peek1_def)
  then show ?thesis by (subst replay_loop.simps) (auto simp: type_mismatch_def split: prod.splits)
qed

lemma ReadBytes_none:
  assumes "d \<notin> set s"
  shows "ReadBytes d \<lparr>Pending = s, AtEnd = e\<rparr> = (s, Some e, \<lparr>Pending = [], AtEnd = e\<rparr>)"
proof -
  have "\<forall>c \<in> set s. c \<noteq> d" using assms by auto
  then have tw: "takeWhile (\<lambda>c. c \<noteq> d) s = s" "dropWhile (\<lambda>c. c \<noteq> d) s = []" by simp_all
  show ?thesis
    by (simp only: ReadBytes_def Let_def reader.select_convs reader.update_convs tw list.case)
qed

lemma bulk_body_short:
  "length b < n + 2 \<Longrightarrow> fst (bulk_body (int n) \<lparr>Pending = b, AtEnd = EOF\<rparr>) = Err (conn_err UnexpectedEOF)"
  by (simp add: bulk_body_def ReadFull_def nat_add_distrib)

lemma BulkString_cut:
  assumes "length a < 2 ^ 31" and "0 < k" and "k < length (BulkString_Marshal a)"
  shows "fst (BulkString_Unmarshal \<lparr>Pending = take k (BulkString_Marshal a), AtEnd = EOF\<rparr>) = Err (conn_err UnexpectedEOF)"
proof -
  let ?n = "Itoa (int (length a))"
  let ?h = "CHR ''$'' # ?n @ CRLF"
  have m: "BulkString_Marshal a = ?h @ a @ CRLF" by (simp add: BulkString_Marshal_def)
  show ?thesis
  proof (cases "k < length ?h")
    case True
    then have t: "take k (BulkString_Marshal a) = take k (CHR ''$'' # ?n @ [CR])" by (simp add: m take_Cons')
    have "LF \<notin> set (CHR ''$'' # ?n @ [CR])" by (simp add: Itoa_no_LF)
    then have "LF \<notin> set (take k (CHR ''$'' # ?n @ [CR]))" by (meson in_set_takeD)
    then have "ReadBytes LF \<lparr>Pending = take k (BulkString_Marshal a), AtEnd = EOF\<rparr>
        = (take k (BulkString_Marshal a), Some EOF, \<lparr>Pending = [], AtEnd = EOF\<rparr>)"
      unfolding t by (rule ReadBytes_none)
    moreover have "take k (BulkString_Marshal a) \<noteq> []" using assms(2) by (simp add: m)
    ultimately show ?thesis by (simp add: BulkString_Unmarshal_def rd_bind_def ReadHeader_def)
  next
    case False
    let ?b = "take (k - length ?h) (a @ CRLF)"
    have t: "take k (BulkString_Marshal a) = CHR ''$'' # ?n @ CRLF @ ?b" using False by (simp add: m take_Cons')
    have hdr: "ReadHeader \<lparr>Pending = CHR ''$'' # ?n @ CRLF @ ?b, AtEnd = EOF\<rparr> = (Ret ?h, \<lparr>Pending = ?b, AtEnd = EOF\<rparr>)"
      using ReadHeader_line [of ?n "CHR ''$''", where r = "\<lparr>Pending = [], AtEnd = EOF\<rparr>" and rest = ?b]
      by (simp add: Itoa_no_LF)
    have num: "ParseInt 32 ?n = Some (int (length a))" using assms(1) by (intro ParseInt_Itoa) simp_all
    have "length ?b < length a + 2" using False assms(3) by (simp add: m)
    then have "fst (bulk_body (int (length a)) \<lparr>Pending = ?b, AtEnd = EOF\<rparr>) = Err (conn_err UnexpectedEOF)"
      by (rule bulk_body_short)
    then show ?thesis
      using hdr num slice_body [of "CHR ''$''" ?n] unfolding t
      by (simp add: BulkString_Unmarshal_def rd_bind_def)
  qed
qed

lemma replay_loop_cut_inside:
  assumes "\<forall>a \<in> set args. length a < 2 ^ 31" and "length args < n" and "n < 2 ^ 63"
    and "length a < 2 ^ 31" and "0 < k" and "k < length (BulkString_Marshal a)"
  shows "replay_loop replay \<lparr>Pending = cut_cmd n args @ take k (BulkString_Marshal a), AtEnd = EOF\<rparr> st =
    (Err (EWrap ''AOF parse error: '' (conn_err UnexpectedEOF)), st)"
proof -
  obtain j where j: "n = length args + Suc j" using assms(2) less_iff_Suc_add by auto
  have "Peek1 \<lparr>Pending = take k (BulkString_Marshal a), AtEnd = EOF\<rparr> = Inr (CHR ''$'')"
    using assms(5) by (simp add: Peek1_def BulkString_Marshal_def take_Cons')
  then have "fst (Array_Unmarshal \<lparr>Pending = cut_cmd n args @ take k (BulkString_Marshal a), AtEnd = EOF\<rparr>) =
      Err (conn_err UnexpectedEOF)"
    using Array_Unmarshal_cut [OF assms(1) _ assms(3), where k = "Suc j" and rest = "take k (BulkString_Marshal a)" and r = "\<lparr>Pending = [], AtEnd = EOF\<rparr>"]
      BulkString_cut [OF assms(4-6)] j
    by (auto simp: rd_bind_def split: prod.splits)
  then show ?thesis by (subst replay_loop.simps) (auto simp: conn_err_def split: prod.splits)
qed

subsection \<open>The manifest\<close>

lemma ascii_fields_word:
  assumes "\<forall>c \<in> set w. \<not> is_space c"
  shows "ascii_fields acc (w @ s) = ascii_fields (rev w @ acc) s"
  using assms by (induction w arbitrary: acc) simp_all

lemma ascii_fields_sep:
  "\<forall>c \<in> set w. \<not> is_space c \<Longrightarrow> w \<noteq> [] \<Longrightarrow> is_space d \<Longrightarrow> ascii_fields [] (w @ d # s) = w # ascii_fields [] s"
  by (simp add: ascii_fields_word)

definition plain_word :: "string \<Rightarrow> bool" where
  "plain_word w \<longleftrightarrow> w \<noteq> [] \<and> (\<forall>c \<in> set w. is_ascii c \<and> \<not> is_space c)"

lemma is_space_simps [simp]: "is_space (CHR '' '')" "is_space LF"
  by (simp_all add: is_space_def LF_def)

lemma plain_word_consts: "plain_word ''seq''" "plain_word ''type''" "plain_word ''file''"
  by code_simp+

lemma plain_word_Itoa: "plain_word (Itoa i)"
proof -
  have "is_ascii c \<and> \<not> is_space c" if "is_digit c \<or> c = CHR ''-''" for c
    using that by (auto simp: is_digit_def is_ascii_def is_space_def)
  moreover have "\<forall>c \<in> set (Itoa i). is_digit c \<or> c = CHR ''-''"
    using nat_digits_all_digits by (auto simp: Itoa_def list_all_iff)
  ultimately show ?thesis by (simp add: plain_word_def)
qed

lemma Fields_words:
  assumes "\<forall>w \<in> set ws. plain_word w" and "plain_word v"
  shows "Fields lib (concat (map (\<lambda>w. w @ '' '') ws) @ v @ [LF]) = ws @ [v]"
proof -
  have sp: "is_ascii (CHR '' '')" "is_ascii LF" by (simp_all add: is_ascii_def LF_def)
  have "ascii_fields [] (concat (map (\<lambda>w. w @ '' '') ws) @ v @ [LF]) = ws @ [v]"
    using assms by (induction ws) (auto simp: plain_word_def ascii_fields_sep)
  moreover have "list_all is_ascii (concat (map (\<lambda>w. w @ '' '') ws) @ v @ [LF])"
    using assms sp by (auto simp: plain_word_def list_all_iff)
  ultimately show ?thesis by (simp add: Fields_def)
qed

lemma manifest_roundtrip:
  assumes "plain_word (NodeType m)" and "plain_word (AofFilename m)" and "plain_word [FileType m]"
    and "min_int64 \<le> Seq m" and "Seq m \<le> max_int64"
  shows "ParseManifest lib (FormatManifest m) = Ret m"
proof -
  have ft: "utf8_byte (of_char (FileType m)) = [FileType m]"
    using assms(3) by (simp add: utf8_byte_def plain_word_def is_ascii_def)
  have "FormatManifest m = NodeType m @ '' '' @ AofFilename m @ '' '' @ ''seq'' @ '' '' @ Itoa (Seq m) @ '' '' @
      ''type'' @ '' '' @ [FileType m] @ [LF]"
    by (simp add: FormatManifest_def ft)
  moreover have "Fields lib \<dots> = [NodeType m, AofFilename m, ''seq'', Itoa (Seq m), ''type'', [FileType m]]"
    using assms(1-3) plain_word_consts plain_word_Itoa
      Fields_words [of "[NodeType m, AofFilename m, ''seq'', Itoa (Seq m), ''type'']" "[FileType m]" lib] by simp
  ultimately show ?thesis using assms(4,5) by (simp add: ParseManifest_def)
qed

lemma aof_New_fresh:
  assumes "map_of fs (path_Join (path_Join (cDir cfg) (cAppenddirname cfg)) (cAppendfilename cfg @ ''.manifest'')) = None"
  shows "\<exists>a fs1. aof_New lib no_faults fs cfg = (Ret a, fs1) \<and> aof_file a \<and>
    aof_manifest a = \<lparr>NodeType = ''file'', AofFilename = cAppendfilename cfg @ ''.1.incr.aof'', Seq = 1, FileType = CHR ''i''\<rparr> \<and>
    aof_filePath a = path_Join (path_Join (cDir cfg) (cAppenddirname cfg)) (cAppendfilename cfg @ ''.1.incr.aof'') \<and>
    (path_Join (path_Join (cDir cfg) (cAppenddirname cfg)) (cAppendfilename cfg @ ''.manifest'') \<noteq> aof_filePath a \<longrightarrow>
     map_of fs1 (path_Join (path_Join (cDir cfg) (cAppenddirname cfg)) (cAppendfilename cfg @ ''.manifest'')) =
       Some (FormatManifest (aof_manifest a)))"
  using assms by (auto simp: aof_New_def EnsureManifest_def no_faults_def Let_def split: option.splits)

lemma aof_New_existing:
  assumes "map_of fs (path_Join (path_Join (cDir cfg) (cAppenddirname cfg)) (cAppendfilename cfg @ ''.manifest'')) =
      Some content"
  shows "fst (aof_New lib no_faults fs cfg) = (case ParseManifest lib content of
      Ret m \<Rightarrow> Ret \<lparr>aof_dir = path_Join (cDir cfg) (cAppenddirname cfg), aof_manifest = m,
                   aof_filePath = path_Join (path_Join (cDir cfg) (cAppenddirname cfg)) (AofFilename m), aof_file = True,
                   aof_fsyncPolicy = cAppendfsync cfg\<rparr>
    | Err e \<Rightarrow> Err (EWrap ''failed to load or create manifest: '' e)
    | Panic \<Rightarrow> Panic)"
  using assms by (auto simp: aof_New_def EnsureManifest_def no_faults_def Let_def split: go_result.splits)

lemma FormatManifest_first:
  "FormatManifest \<lparr>NodeType = ''file'', AofFilename = f, Seq = 1, FileType = CHR ''i''\<rparr> = ''file '' @ f @ '' seq 1 type i'' @ [LF]"
proof -
  have "Itoa 1 = ''1''" "utf8_byte (of_char (CHR ''i'')) = ''i''" by code_simp+
  then show ?thesis by (simp add: FormatManifest_def)
qed

lemma manifest_space:
  assumes "plain_word a" and "plain_word b"
  shows "ParseManifest lib (''file '' @ (a @ '' '' @ b) @ '' seq 1 type i'' @ [LF])
    = Err (EWrap ''invalid sequence in manifest: '' (ENum ''seq''))"
proof -
  have w: "plain_word ''file''" "plain_word ''seq''" "plain_word ''1''" "plain_word ''type''" "plain_word ''i''" by code_simp+
  have "Fields lib (''file '' @ (a @ '' '' @ b) @ '' seq 1 type i'' @ [LF]) = [''file'', a, b, ''seq'', ''1'', ''type'', ''i'']"
    using Fields_words [of "[''file'', a, b, ''seq'', ''1'', ''type'']" "''i''" lib] w assms by simp
  moreover have "Atoi ''seq'' = None" by code_simp
  ultimately show ?thesis by (simp add: ParseManifest_def)
qed

text \<open>The manifest written on the first start leads the next start to the same log file, whatever was appended in
  between: reopening gives the same handle.\<close>

lemma aof_reopen:
  assumes "plain_word (cAppendfilename cfg)"
    and "M = path_Join (path_Join (cDir cfg) (cAppenddirname cfg)) (cAppendfilename cfg @ ''.manifest'')"
    and "map_of fs M = None" and "aof_New lib no_faults fs cfg = (Ret a, fs1)" and "M \<noteq> aof_filePath a"
    and "map_of fs2 M = map_of fs1 M"
  shows "fst (aof_New lib no_faults fs2 cfg) = Ret a"
proof -
  from aof_New_fresh [of fs cfg lib] assms(2-5)
  have m: "aof_manifest a = \<lparr>NodeType = ''file'', AofFilename = cAppendfilename cfg @ ''.1.incr.aof'', Seq = 1,
      FileType = CHR ''i''\<rparr>" and f: "map_of fs1 M = Some (FormatManifest (aof_manifest a))" by auto
  have "plain_word ''file''" "plain_word ''.1.incr.aof''" "plain_word ''i''" by code_simp+
  then have "ParseManifest lib (FormatManifest (aof_manifest a)) = Ret (aof_manifest a)"
    using assms(1) by (intro manifest_roundtrip) (auto simp: m plain_word_def min_int64_def max_int64_def)
  then have "fst (aof_New lib no_faults fs2 cfg) = Ret \<lparr>aof_dir = path_Join (cDir cfg) (cAppenddirname cfg),
      aof_manifest = aof_manifest a,
      aof_filePath = path_Join (path_Join (cDir cfg) (cAppenddirname cfg)) (AofFilename (aof_manifest a)), aof_file = True,
      aof_fsyncPolicy = cAppendfsync cfg\<rparr>"
    using aof_New_existing [of fs2 cfg "FormatManifest (aof_manifest a)" lib] assms(2,6) f by simp
  also have "\<dots> = Ret a" using assms(2-4) by (auto simp: aof_New_def EnsureManifest_def no_faults_def Let_def)
  finally show ?thesis .
qed

lemma aof_New_first_files:
  assumes "D = path_Join (cDir cfg) (cAppenddirname cfg)"
    and "M = path_Join D (cAppendfilename cfg @ ''.manifest'')" and "L = path_Join D (cAppendfilename cfg @ ''.1.incr.aof'')"
    and "map_of fs M = None" and "map_of fs L = None" and "M \<noteq> L"
  shows "\<exists>a fs1. aof_New lib no_faults fs cfg = (Ret a, fs1) \<and> aof_file a \<and> aof_filePath a = L \<and> log_content fs1 a = [] \<and>
    (\<forall>p. p \<noteq> M \<longrightarrow> p \<noteq> L \<longrightarrow> map_of fs1 p = map_of fs p)"
  using assms(4-6) unfolding assms(1-3)
  by (auto simp: aof_New_def EnsureManifest_def no_faults_def Let_def log_content_def split: option.splits)

lemma aof_New_again_files:
  assumes "map_of fs (path_Join (path_Join (cDir cfg) (cAppenddirname cfg)) (cAppendfilename cfg @ ''.manifest'')) \<noteq> None"
    and "aof_New lib no_faults fs cfg = (Ret a, fs1)"
  shows "log_content fs1 a = log_content fs a"
  using assms
  by (auto simp: aof_New_def EnsureManifest_def no_faults_def Let_def log_content_def split: option.splits go_result.splits)

subsection \<open>Properties\<close>

text \<open>C16. Commands appended to a log that holds complete commands are replayed, on the next load, in the order in which
  they were appended and behind the old ones, each exactly once, stopping at the first that fails.\<close>

theorem aof_replays_what_was_appended:
  assumes "aof_file a" and "log_content fs a = log_of old" and "\<forall>c \<in> set (old @ cmds). valid_cmd c"
  shows "aof_Load replay no_faults (AppendCmds a cmds fs) a st = replay_all replay (old @ cmds) st"
  by (rule aof_roundtrip [OF assms])

theorem aof_replays_what_was_appended_witness:
  "aof_Load (\<lambda>c st. (Ret (), st @ [c])) no_faults
     (AppendCmds \<lparr>aof_dir = [], aof_manifest = \<lparr>NodeType = [], AofFilename = [], Seq = 1, FileType = CHR ''i''\<rparr>,
        aof_filePath = ''log'', aof_file = True, aof_fsyncPolicy = ''always''\<rparr> [[''SET'', ''k'', ''v''], [''INCR'', ''n'']] [])
     \<lparr>aof_dir = [], aof_manifest = \<lparr>NodeType = [], AofFilename = [], Seq = 1, FileType = CHR ''i''\<rparr>,
        aof_filePath = ''log'', aof_file = True, aof_fsyncPolicy = ''always''\<rparr> []
   = (Ret (), [[''SET'', ''k'', ''v''], [''INCR'', ''n'']])"
  by (subst aof_replays_what_was_appended [where old = "[]"])
    (simp_all add: log_content_def valid_cmd_def valid_args_def)

text \<open>A log that was cut inside the bytes of an argument, at any byte, is refused with a parse error.\<close>

theorem aof_cut_inside_argument_is_an_error:
  assumes "\<forall>c \<in> set cmds. valid_cmd c" and "fst (replay_all replay cmds st) = Ret ()"
    and "\<forall>x \<in> set args. length x < 2 ^ 31" and "length args < n" and "n < 2 ^ 63"
    and "length v < 2 ^ 31" and "0 < k" and "k < length (BulkString_Marshal v)"
  shows "replay_loop replay \<lparr>Pending = log_of cmds @ cut_cmd n args @ take k (BulkString_Marshal v), AtEnd = EOF\<rparr> st =
    (Err (EWrap ''AOF parse error: '' (conn_err UnexpectedEOF)), snd (replay_all replay cmds st))"
  using replay_loop_log [OF assms(1), where e = EOF and replay = replay and st = st] assms(2)
  by (cases "replay_all replay cmds st") (simp add: replay_loop_cut_inside [OF assms(3-8)])

theorem aof_cut_inside_argument_is_an_error_witness:
  "replay_loop (\<lambda>c st. (Ret (), st @ [c]))
     \<lparr>Pending = log_of [[''INCR'', ''n'']] @ cut_cmd 2 [''INCR''] @ take 3 (BulkString_Marshal ''n''), AtEnd = EOF\<rparr> []
   = (Err (EWrap ''AOF parse error: '' (conn_err UnexpectedEOF)), [[''INCR'', ''n'']])"
  by (subst aof_cut_inside_argument_is_an_error)
    (simp_all add: valid_cmd_def valid_args_def BulkString_Marshal_def)

text \<open>C36. A log that was cut between two arguments of a command is taken for a complete one: the load reports success and
  silently ignores the unfinished command. The next command appended behind it makes the whole log unreadable.\<close>

theorem aof_cut_between_arguments:
  assumes "\<forall>c \<in> set cmds. valid_cmd c" and "fst (replay_all replay cmds st) = Ret ()"
    and "\<forall>x \<in> set args. length x < 2 ^ 31" and "length args < n" and "n < 2 ^ 63"
  shows "replay_loop replay \<lparr>Pending = log_of cmds @ cut_cmd n args, AtEnd = EOF\<rparr> st = replay_all replay cmds st \<and>
    fst (replay_loop replay \<lparr>Pending = (log_of cmds @ cut_cmd n args) @ bulk_array c, AtEnd = EOF\<rparr> st) =
      Err (EWrap ''AOF parse error: '' (type_mismatch ''unexpected RESP type '' (CHR ''*'') (CHR ''*'')))"
  using replay_loop_log [OF assms(1), where e = EOF and replay = replay and st = st] assms(2)
    replay_loop_cut_then_cmd [OF assms(3-5), where rest = "[]" and c = c and replay = replay]
  by (cases "replay_all replay cmds st") (simp add: replay_loop_cut_boundary [OF assms(3-5)])

theorem aof_cut_between_arguments_witness:
  "replay_loop (\<lambda>c st. (Ret (), st @ [c])) \<lparr>Pending = log_of [[''INCR'', ''n'']] @ cut_cmd 2 [''INCR''], AtEnd = EOF\<rparr> []
     = (Ret (), [[''INCR'', ''n'']])"
  using aof_cut_between_arguments [of "[[''INCR'', ''n'']]" "\<lambda>c st. (Ret (), st @ [c])" "[]" "[''INCR'']" 2]
  by (simp add: valid_cmd_def valid_args_def)

definition sample_cfg :: "string \<Rightarrow> aof_Config" where
  "sample_cfg f = \<lparr>cDir = ''/d'', cAppenddirname = ''a'', cAppendfilename = f, cAppendfsync = ''always''\<rparr>"

text \<open>With a space in \<^verbatim>\<open>appendfilename\<close> the first start succeeds, but the manifest it writes cannot be read back: every
  later start fails.\<close>

theorem aof_filename_with_space_cannot_restart:
  assumes "plain_word f" and "plain_word g" and "cAppendfilename cfg = f @ '' '' @ g"
    and "D = path_Join (cDir cfg) (cAppenddirname cfg)"
    and "M = path_Join D (cAppendfilename cfg @ ''.manifest'')"
    and "M \<noteq> path_Join D (cAppendfilename cfg @ ''.1.incr.aof'')" and "map_of fs M = None"
  shows "\<exists>a fs1. aof_New lib no_faults fs cfg = (Ret a, fs1) \<and>
    fst (aof_New lib no_faults fs1 cfg) = Err (EWrap ''failed to load or create manifest: ''
      (EWrap ''invalid sequence in manifest: '' (ENum ''seq'')))"
proof -
  obtain a fs1 where a: "aof_New lib no_faults fs cfg = (Ret a, fs1)"
      "aof_manifest a = \<lparr>NodeType = ''file'', AofFilename = cAppendfilename cfg @ ''.1.incr.aof'', Seq = 1, FileType = CHR ''i''\<rparr>"
      "map_of fs1 M = Some (FormatManifest (aof_manifest a))"
    using aof_New_fresh [of fs cfg lib] assms(4-7) by auto
  have "plain_word ''.1.incr.aof''" by code_simp
  then have "plain_word (g @ ''.1.incr.aof'')" using assms(2) by (auto simp: plain_word_def)
  from manifest_space [OF assms(1) this, of lib]
  have "ParseManifest lib (FormatManifest (aof_manifest a)) = Err (EWrap ''invalid sequence in manifest: '' (ENum ''seq''))"
    by (simp add: a(2) FormatManifest_first assms(3))
  then show ?thesis using a(1,3) aof_New_existing [of fs1 cfg _ lib] assms(4,5) by fastforce
qed

theorem aof_filename_with_space_cannot_restart_witness:
  "\<forall>lib. \<exists>a fs1. aof_New lib no_faults [] (sample_cfg ''my log'') = (Ret a, fs1) \<and>
    fst (aof_New lib no_faults fs1 (sample_cfg ''my log'')) = Err (EWrap ''failed to load or create manifest: ''
      (EWrap ''invalid sequence in manifest: '' (ENum ''seq'')))"
proof
  fix lib
  have "plain_word ''my''" "plain_word ''log''"
    "path_Join (path_Join ''/d'' ''a'') ''my log.manifest'' \<noteq> path_Join (path_Join ''/d'' ''a'') ''my log.1.incr.aof''"
    by code_simp+
  then show "\<exists>a fs1. aof_New lib no_faults [] (sample_cfg ''my log'') = (Ret a, fs1) \<and>
    fst (aof_New lib no_faults fs1 (sample_cfg ''my log'')) = Err (EWrap ''failed to load or create manifest: ''
      (EWrap ''invalid sequence in manifest: '' (ENum ''seq'')))"
    using aof_filename_with_space_cannot_restart [of "''my''" "''log''" "sample_cfg ''my log''" _ _ "[]" lib]
    by (simp add: sample_cfg_def)
qed

end
