(* ===== verification/Morton.thy ===== *)
theory Morton
  imports Float64
begin

unbundle bit_operations_syntax

text \<open>
  \<^verbatim>\<open>server/zorder_Morton_code.go\<close>. Two 32-bit grid numbers are interleaved to one 64-bit Morton code and taken
  apart again, with the shifts and masks of the source; both directions are described by the position each bit
  of the input ends at, and the round trips follow from the description. The grid numbers come from a latitude
  and a longitude and go back to them with IEEE 754 arithmetic, and the distance of two places uses the cosine,
  arc sine and square root of the library.
\<close>

subsection \<open>The code\<close>

definition spreadInt32ToInt64 :: "32 word \<Rightarrow> 64 word" where
  "spreadInt32ToInt64 v =
     (let r = (ucast v :: 64 word);
          r = (r OR push_bit 16 r) AND 0x0000FFFF0000FFFF;
          r = (r OR push_bit 8 r) AND 0x00FF00FF00FF00FF;
          r = (r OR push_bit 4 r) AND 0x0F0F0F0F0F0F0F0F;
          r = (r OR push_bit 2 r) AND 0x3333333333333333;
          r = (r OR push_bit 1 r) AND 0x5555555555555555
      in r)"

definition interleave :: "32 word \<Rightarrow> 32 word \<Rightarrow> 64 word" where
  "interleave x y = spreadInt32ToInt64 x OR push_bit 1 (spreadInt32ToInt64 y)"

definition compactInt64ToInt32 :: "64 word \<Rightarrow> 32 word" where
  "compactInt64ToInt32 v =
     (let r = v AND 0x5555555555555555;
          r = (r OR drop_bit 1 r) AND 0x3333333333333333;
          r = (r OR drop_bit 2 r) AND 0x0F0F0F0F0F0F0F0F;
          r = (r OR drop_bit 4 r) AND 0x00FF00FF00FF00FF;
          r = (r OR drop_bit 8 r) AND 0x0000FFFF0000FFFF;
          r = (r OR drop_bit 16 r) AND 0x00000000FFFFFFFF
      in ucast r)"

record Coordinates =
  Latitude :: f64
  Longitude :: f64

definition MIN_LATITUDE :: f64 where "MIN_LATITUDE = f64_of_rat False (- 85.05112878)"
definition MAX_LATITUDE :: f64 where "MAX_LATITUDE = f64_of_rat False 85.05112878"
definition MIN_LONGITUDE :: f64 where "MIN_LONGITUDE = f64_of_rat False (- 180)"
definition MAX_LONGITUDE :: f64 where "MAX_LONGITUDE = f64_of_rat False 180"
definition LATITUDE_RANGE :: f64 where "LATITUDE_RANGE = f64_of_rat False (85.05112878 - (- 85.05112878))"
definition LONGITUDE_RANGE :: f64 where "LONGITUDE_RANGE = f64_of_rat False (180 - (- 180))"

definition two_pow_26 :: f64 where "two_pow_26 = f64_of_uint (2 ^ 26)"

definition ValidateCoordinates :: "f64 \<Rightarrow> f64 \<Rightarrow> bool" where
  "ValidateCoordinates longitude latitude \<longleftrightarrow>
     f64_le longitude MAX_LONGITUDE \<and> f64_le MIN_LONGITUDE longitude \<and>
     f64_le latitude MAX_LATITUDE \<and> f64_le MIN_LATITUDE latitude"

definition Encode :: "golib \<Rightarrow> Coordinates \<Rightarrow> 64 word" where
  "Encode lib c =
     (let normalizedLatitude = f64_div (f64_mul two_pow_26 (f64_sub (Latitude c) MIN_LATITUDE)) LATITUDE_RANGE;
          normalizedLongitude = f64_div (f64_mul two_pow_26 (f64_sub (Longitude c) MIN_LONGITUDE)) LONGITUDE_RANGE;
          latInt = word_of_int (f64_to_uint lib 32 normalizedLatitude);
          lonInt = word_of_int (f64_to_uint lib 32 normalizedLongitude)
      in interleave latInt lonInt)"

definition grid_bound :: "f64 \<Rightarrow> f64 \<Rightarrow> 32 word \<Rightarrow> f64" where
  "grid_bound lo width n = f64_add lo (f64_mul width (f64_div (f64_of_uint (uint n)) two_pow_26))"

definition convertGridNumbersToCoordinates :: "32 word \<Rightarrow> 32 word \<Rightarrow> Coordinates" where
  "convertGridNumbersToCoordinates gridLatitudeNumber gridLongitudeNumber =
     (let gridLatitudeMin = grid_bound MIN_LATITUDE LATITUDE_RANGE gridLatitudeNumber;
          gridLatitudeMax = grid_bound MIN_LATITUDE LATITUDE_RANGE (gridLatitudeNumber + 1);
          gridLongitudeMin = grid_bound MIN_LONGITUDE LONGITUDE_RANGE gridLongitudeNumber;
          gridLongitudeMax = grid_bound MIN_LONGITUDE LONGITUDE_RANGE (gridLongitudeNumber + 1)
      in \<lparr>Latitude = f64_div (f64_add gridLatitudeMin gridLatitudeMax) f64_two,
          Longitude = f64_div (f64_add gridLongitudeMin gridLongitudeMax) f64_two\<rparr>)"

definition decode :: "64 word \<Rightarrow> Coordinates" where
  "decode geoCode =
     (let y = drop_bit 1 geoCode; x = geoCode;
          gridLatitudeNumber = compactInt64ToInt32 x;
          gridLongitudeNumber = compactInt64ToInt32 y
      in convertGridNumbersToCoordinates gridLatitudeNumber gridLongitudeNumber)"

definition EarthRadius :: f64 where "EarthRadius = f64_of_rat False 6372797.560856"
definition f64_pi :: f64 where "f64_pi = 0x400921FB54442D18"
definition f64_180 :: f64 where "f64_180 = f64_of_uint 180"
definition f64_half :: f64 where "f64_half = 0x3FE0000000000000"

record CoordinatedInRadian =
  phi :: f64
  lam :: f64

definition GetRadian :: "Coordinates \<Rightarrow> CoordinatedInRadian" where
  "GetRadian p = \<lparr>phi = f64_div (f64_mul (Latitude p) f64_pi) f64_180,
                  lam = f64_div (f64_mul (Longitude p) f64_pi) f64_180\<rparr>"

definition haversine :: "golib \<Rightarrow> f64 \<Rightarrow> f64" where
  "haversine lib theta = f64_mul f64_half (f64_sub f64_one (MathCos lib theta))"

definition Distance :: "golib \<Rightarrow> CoordinatedInRadian \<Rightarrow> CoordinatedInRadian \<Rightarrow> f64" where
  "Distance lib p1 p2 =
     (let haversineTheta = f64_add (haversine lib (f64_sub (phi p2) (phi p1)))
            (f64_mul (f64_mul (MathCos lib (phi p1)) (MathCos lib (phi p2)))
                     (haversine lib (f64_sub (lam p2) (lam p1))))
      in f64_mul (f64_mul f64_two EarthRadius) (MathAsin lib (MathSqrt lib haversineTheta)))"

definition GetDistance :: "golib \<Rightarrow> Coordinates \<Rightarrow> Coordinates \<Rightarrow> f64" where
  "GetDistance lib p1 p2 = Distance lib (GetRadian p1) (GetRadian p2)"

subsection \<open>Where each bit goes\<close>

text \<open>A word is in layout \<open>k\<close> for a number when its bits are in groups of \<open>k\<close>, each followed by \<open>k\<close> zero bits.
  \<open>pos k n\<close> is the number of the bit that stands at position \<open>n\<close> of layout \<open>k\<close>.\<close>

definition pos :: "nat \<Rightarrow> nat \<Rightarrow> nat" where
  "pos k n = n div (2 * k) * k + n mod k"

definition layout :: "nat \<Rightarrow> (nat \<Rightarrow> bool) \<Rightarrow> 64 word \<Rightarrow> bool" where
  "layout k b r \<longleftrightarrow> (\<forall>n < 64. bit r n \<longleftrightarrow> even (n div k) \<and> b (pos k n))"

definition group_mask :: "nat \<Rightarrow> 64 word \<Rightarrow> bool" where
  "group_mask k m \<longleftrightarrow> list_all (\<lambda>n. bit m n \<longleftrightarrow> even (n div k)) [0..<64]"

definition spread_moves :: "nat \<Rightarrow> bool" where
  "spread_moves k \<longleftrightarrow> list_all (\<lambda>n. even (n div k) \<longrightarrow>
     (if even (n div (2 * k)) then pos (2 * k) n = pos k n \<and> (k \<le> n \<longrightarrow> odd ((n - k) div (2 * k)))
      else k \<le> n \<and> even ((n - k) div (2 * k)) \<and> pos (2 * k) (n - k) = pos k n)) [0..<64]"

definition compact_moves :: "nat \<Rightarrow> bool" where
  "compact_moves k \<longleftrightarrow> list_all (\<lambda>n. even (n div (2 * k)) \<longrightarrow>
     (if even (n div k) then pos k n = pos (2 * k) n \<and> odd ((n + k) div k)
      else n + k < 64 \<and> even ((n + k) div k) \<and> pos k (n + k) = pos (2 * k) n)) [0..<64]"

lemma masks:
  "group_mask 16 0x0000FFFF0000FFFF" "group_mask 8 0x00FF00FF00FF00FF" "group_mask 4 0x0F0F0F0F0F0F0F0F"
  "group_mask 2 0x3333333333333333" "group_mask 1 0x5555555555555555" "group_mask 32 0x00000000FFFFFFFF"
  by code_simp+

lemma spread_moves_all: "spread_moves 16" "spread_moves 8" "spread_moves 4" "spread_moves 2" "spread_moves 1"
  by code_simp+

lemma compact_moves_all: "compact_moves 16" "compact_moves 8" "compact_moves 4" "compact_moves 2" "compact_moves 1"
  by code_simp+

lemma group_maskD: "group_mask k m \<Longrightarrow> n < 64 \<Longrightarrow> bit m n \<longleftrightarrow> even (n div k)"
  by (simp add: group_mask_def list_all_iff)

lemma spread_step:
  assumes "layout j b r" and "group_mask k m" and "spread_moves k" and j: "j = 2 * k"
  shows "layout k b ((r OR push_bit k r) AND m)"
  unfolding layout_def
proof (intro allI impI)
  fix n :: nat assume n: "n < 64"
  have B: "bit ((r OR push_bit k r) AND m) n \<longleftrightarrow> (bit r n \<or> (k \<le> n \<and> bit r (n - k))) \<and> even (n div k)"
    using n group_maskD [OF assms(2) n] by (auto simp: bit_simps)
  have R: "bit r i \<longleftrightarrow> even (i div (2 * k)) \<and> b (pos (2 * k) i)" if "i < 64" for i
    using assms(1) that by (simp add: layout_def j)
  have "even (n div k) \<Longrightarrow> (if even (n div (2 * k)) then pos (2 * k) n = pos k n \<and> (k \<le> n \<longrightarrow> odd ((n - k) div (2 * k)))
      else k \<le> n \<and> even ((n - k) div (2 * k)) \<and> pos (2 * k) (n - k) = pos k n)"
    using assms(3) n by (simp add: spread_moves_def list_all_iff)
  then show "bit ((r OR push_bit k r) AND m) n \<longleftrightarrow> even (n div k) \<and> b (pos k n)"
    using n by (auto simp: B R split: if_splits)
qed

lemma compact_step:
  assumes "layout k b r" and "group_mask j m" and "compact_moves k" and j: "j = 2 * k"
  shows "layout j b ((r OR drop_bit k r) AND m)"
  unfolding layout_def j
proof (intro allI impI)
  fix n :: nat assume n: "n < 64"
  have B: "bit ((r OR drop_bit k r) AND m) n \<longleftrightarrow> (bit r n \<or> bit r (n + k)) \<and> even (n div (2 * k))"
    using n group_maskD [OF assms(2) n] by (auto simp: bit_simps add.commute j)
  have R: "bit r i \<longleftrightarrow> i < 64 \<and> even (i div k) \<and> b (pos k i)" for i
    using assms(1) bit_imp_le_length [of r i] by (auto simp: layout_def)
  have "even (n div (2 * k)) \<Longrightarrow> (if even (n div k) then pos k n = pos (2 * k) n \<and> odd ((n + k) div k)
      else n + k < 64 \<and> even ((n + k) div k) \<and> pos k (n + k) = pos (2 * k) n)"
    using assms(3) n by (simp add: compact_moves_def list_all_iff)
  then show "bit ((r OR drop_bit k r) AND m) n \<longleftrightarrow> even (n div (2 * k)) \<and> b (pos (2 * k) n)"
    using n by (auto simp: B R split: if_splits)
qed

lemma bit_spread: "bit (spreadInt32ToInt64 v) n \<longleftrightarrow> n < 64 \<and> even n \<and> bit v (n div 2)"
proof -
  define r0 :: "64 word" where "r0 = ucast v"
  have l0: "layout 32 (bit v) r0"
  proof -
    have "bit r0 n \<longleftrightarrow> even (n div 32) \<and> bit v (pos 32 n)" if "n < 64" for n
    proof (cases "n < 32")
      case True
      then show ?thesis by (simp add: r0_def pos_def bit_simps)
    next
      case False
      then have "n div 32 = 1" using that by linarith
      moreover have "\<not> bit v n" using bit_imp_le_length [of v n] False by auto
      ultimately show ?thesis by (simp add: r0_def bit_simps)
    qed
    then show ?thesis by (simp add: layout_def)
  qed
  define r1 where "r1 = (r0 OR push_bit 16 r0) AND 0x0000FFFF0000FFFF"
  define r2 where "r2 = (r1 OR push_bit 8 r1) AND 0x00FF00FF00FF00FF"
  define r3 where "r3 = (r2 OR push_bit 4 r2) AND 0x0F0F0F0F0F0F0F0F"
  define r4 where "r4 = (r3 OR push_bit 2 r3) AND 0x3333333333333333"
  define r5 where "r5 = (r4 OR push_bit 1 r4) AND 0x5555555555555555"
  from spread_step [OF l0 masks(1) spread_moves_all(1)] have l1: "layout 16 (bit v) r1" by (simp add: r1_def)
  from spread_step [OF l1 masks(2) spread_moves_all(2)] have l2: "layout 8 (bit v) r2" by (simp add: r2_def)
  from spread_step [OF l2 masks(3) spread_moves_all(3)] have l3: "layout 4 (bit v) r3" by (simp add: r3_def)
  from spread_step [OF l3 masks(4) spread_moves_all(4)] have l4: "layout 2 (bit v) r4" by (simp add: r4_def)
  from spread_step [OF l4 masks(5) spread_moves_all(5)] have l5: "layout 1 (bit v) r5" by (simp add: r5_def)
  have "spreadInt32ToInt64 v = r5"
    by (simp only: spreadInt32ToInt64_def Let_def r0_def r1_def r2_def r3_def r4_def r5_def)
  with l5 show ?thesis
    using bit_imp_le_length [of r5 n] by (auto simp: layout_def pos_def)
qed

lemma bit_compact: "bit (compactInt64ToInt32 w) n \<longleftrightarrow> n < 32 \<and> bit w (2 * n)"
proof -
  define r0 where "r0 = w AND 0x5555555555555555"
  have l0: "layout 1 (\<lambda>i. bit w (2 * i)) r0"
    using group_maskD [OF masks(5)] by (auto simp: layout_def pos_def bit_simps r0_def)
  define r1 where "r1 = (r0 OR drop_bit 1 r0) AND 0x3333333333333333"
  define r2 where "r2 = (r1 OR drop_bit 2 r1) AND 0x0F0F0F0F0F0F0F0F"
  define r3 where "r3 = (r2 OR drop_bit 4 r2) AND 0x00FF00FF00FF00FF"
  define r4 where "r4 = (r3 OR drop_bit 8 r3) AND 0x0000FFFF0000FFFF"
  define r5 where "r5 = (r4 OR drop_bit 16 r4) AND 0x00000000FFFFFFFF"
  from compact_step [OF l0 masks(4) compact_moves_all(5)] have l1: "layout 2 (\<lambda>i. bit w (2 * i)) r1" by (simp add: r1_def)
  from compact_step [OF l1 masks(3) compact_moves_all(4)] have l2: "layout 4 (\<lambda>i. bit w (2 * i)) r2" by (simp add: r2_def)
  from compact_step [OF l2 masks(2) compact_moves_all(3)] have l3: "layout 8 (\<lambda>i. bit w (2 * i)) r3" by (simp add: r3_def)
  from compact_step [OF l3 masks(1) compact_moves_all(2)] have l4: "layout 16 (\<lambda>i. bit w (2 * i)) r4" by (simp add: r4_def)
  from compact_step [OF l4 masks(6) compact_moves_all(1)] have l5: "layout 32 (\<lambda>i. bit w (2 * i)) r5" by (simp add: r5_def)
  have "compactInt64ToInt32 w = ucast r5"
    by (simp only: compactInt64ToInt32_def Let_def r0_def r1_def r2_def r3_def r4_def r5_def)
  with l5 show ?thesis by (auto simp: layout_def pos_def bit_ucast_iff dest: bit_imp_le_length)
qed

subsection \<open>Round trips\<close>

lemma bit_interleave:
  "bit (interleave x y) n \<longleftrightarrow> n < 64 \<and> (if even n then bit x (n div 2) else bit y (n div 2))"
proof -
  have "bit (interleave x y) n \<longleftrightarrow> bit (spreadInt32ToInt64 x) n \<or> (1 \<le> n \<and> n < 64 \<and> bit (spreadInt32ToInt64 y) (n - 1))"
    by (simp only: interleave_def bit_or_iff bit_push_bit_iff) simp
  also have "\<dots> \<longleftrightarrow> n < 64 \<and> (if even n then bit x (n div 2) else bit y (n div 2))"
    by (cases n) (auto simp: bit_spread elim: oddE)
  finally show ?thesis .
qed

lemma compact_spread: "compactInt64ToInt32 (spreadInt32ToInt64 v) = v"
  by (rule bit_word_eqI) (simp add: bit_compact bit_spread)

lemma compact_interleave:
  "compactInt64ToInt32 (interleave x y) = x" "compactInt64ToInt32 (drop_bit 1 (interleave x y)) = y"
  by (rule bit_word_eqI, simp add: bit_compact bit_interleave bit_simps)+

lemma interleave_compact:
  "interleave (compactInt64ToInt32 w) (compactInt64ToInt32 (drop_bit 1 w)) = w"
  by (rule bit_word_eqI) (auto simp: bit_compact bit_interleave bit_simps elim: oddE)

lemma bit_below:
  assumes "uint (x :: 'a :: len word) < 2 ^ k" and "bit x n"
  shows "n < k"
proof -
  have "take_bit k (uint x) = uint x" using assms(1) by (simp add: take_bit_int_eq_self)
  moreover have "bit (uint x) n" using assms(2) by (simp add: bit_uint_iff bit_imp_le_length)
  ultimately show ?thesis by (metis bit_take_bit_iff)
qed

lemma interleave_bound:
  assumes "uint x < 2 ^ 26" and "uint y < 2 ^ 26"
  shows "uint (interleave x y) < 2 ^ 52"
proof -
  have "n < 52" if "bit (interleave x y) n" for n
    using that bit_below [OF assms(1), of "n div 2"] bit_below [OF assms(2), of "n div 2"]
    by (auto simp: bit_interleave split: if_splits)
  then have "take_bit 52 (uint (interleave x y)) = uint (interleave x y)"
    by (intro bit_eqI) (auto simp: bit_take_bit_iff bit_uint_iff)
  then show ?thesis by (metis take_bit_int_less_exp)
qed

subsection \<open>Properties\<close>

text \<open>The five masked shifts of \<^verbatim>\<open>spreadInt32ToInt64\<close> and \<^verbatim>\<open>compactInt64ToInt32\<close> equal the reference definition of bit
  interleaving: bit \<open>n\<close> of a Morton code is bit \<open>n div 2\<close> of the latitude number at even positions and of the longitude
  number at odd ones, and compacting picks the even bits.\<close>

theorem morton_bits:
  "(bit (interleave x y) n \<longleftrightarrow> n < 64 \<and> (if even n then bit x (n div 2) else bit y (n div 2))) \<and>
   (bit (compactInt64ToInt32 w) n \<longleftrightarrow> n < 32 \<and> bit w (2 * n))"
  by (simp only: bit_interleave bit_compact)

text \<open>C39. The conversion between pairs of grid numbers and codes is a bijection: decoding an interleaved pair gives both
  numbers back, and every 64-bit code is the interleaving of the two numbers decoded from it.\<close>

theorem morton_roundtrip:
  "compactInt64ToInt32 (interleave x y) = x \<and> compactInt64ToInt32 (drop_bit 1 (interleave x y)) = y \<and>
   interleave (compactInt64ToInt32 w) (compactInt64ToInt32 (drop_bit 1 w)) = w"
  by (simp only: compact_interleave interleave_compact)

text \<open>C40. A code built from two grid numbers of 26 bits fits in 52 bits, so storing it as a \<^verbatim>\<open>float64\<close> score and
  converting the score back, as \<^verbatim>\<open>GEOADD\<close> and the commands that read places do, loses nothing: the coordinates computed are
  those of the original grid cell.\<close>

theorem geo_code_survives_float:
  assumes "uint x < 2 ^ 26" and "uint y < 2 ^ 26"
  shows "uint (interleave x y) < 2 ^ 52 \<and>
    decode (word_of_int (f64_to_uint lib 64 (f64_of_uint (uint (interleave x y))))) =
      convertGridNumbersToCoordinates x y"
proof -
  have b: "uint (interleave x y) < 2 ^ 52" using assms by (rule interleave_bound)
  then have "f64_to_uint lib 64 (f64_of_uint (uint (interleave x y))) = uint (interleave x y)"
    by (intro f64_to_uint_of_uint) simp_all
  with b show ?thesis using compact_interleave [of x y] by (simp add: decode_def)
qed

theorem geo_code_survives_float_witness:
  "\<forall>lib. decode (word_of_int (f64_to_uint lib 64 (f64_of_uint (uint (interleave 5 7))))) = convertGridNumbersToCoordinates 5 7"
  using geo_code_survives_float [of 5 7] by simp

end
