(* ===== verification/Rdb.thy ===== *)
theory Rdb
  imports StoreCorrect
begin

text \<open>
  The RDB loader of \<^verbatim>\<open>rdb/rdb.go\<close>: length and string encodings, the opcodes, and the loading loop that puts
  the keys of a dump that have not expired into the key space. The file is a parameter, \<open>None\<close> when it cannot be
  opened; the clock is read once per opcode, so it is a function of the number of opcodes seen. What \<^verbatim>\<open>Load\<close>
  prints is left out.

  The lemmas give the format a meaning: \<open>rdb_file\<close> writes a sequence of records the way the format
  prescribes, and loading what it wrote puts exactly the live keys in the store.
\<close>

subsection \<open>Bytes\<close>

definition byte_val :: "char \<Rightarrow> nat" where
  "byte_val c = of_char c"

fun le_val :: "string \<Rightarrow> nat" where
  "le_val [] = 0"
| "le_val (c # cs) = byte_val c + 256 * le_val cs"

definition be_val :: "string \<Rightarrow> nat" where
  "be_val s = le_val (rev s)"

definition signed :: "nat \<Rightarrow> nat \<Rightarrow> int" where
  "signed bits n = (if n < 2 ^ (bits - 1) then int n else int n - 2 ^ bits)"

definition rd_byte :: "char parser" where
  "rd_byte r = (case ReadByte r of (Inl e, r') \<Rightarrow> (Err (EIo e), r') | (Inr c, r') \<Rightarrow> (Ret c, r'))"

definition rd_full :: "nat \<Rightarrow> string parser" where
  "rd_full n r = (case ReadFull n r of (Inl e, r') \<Rightarrow> (Err (EIo e), r') | (Inr s, r') \<Rightarrow> (Ret s, r'))"

subsection \<open>Lengths and strings\<close>

definition MAGIC_STRING :: string where "MAGIC_STRING = ''REDIS''"

definition LenEnc6Bit :: nat where "LenEnc6Bit = 0"
definition LenEnc14Bit :: nat where "LenEnc14Bit = 1"
definition LenEnc32Bit :: nat where "LenEnc32Bit = 2"
definition LenEncSpecial :: nat where "LenEncSpecial = 3"

definition StrEncInt8 :: nat where "StrEncInt8 = 0"
definition StrEncInt16 :: nat where "StrEncInt16 = 1"
definition StrEncInt32 :: nat where "StrEncInt32 = 2"
definition StrEncLZF :: nat where "StrEncLZF = 3"

definition OpAux :: char where "OpAux = CHR 0xFA"
definition OpSelectDB :: char where "OpSelectDB = CHR 0xFE"
definition OpResizeDB :: char where "OpResizeDB = CHR 0xFB"
definition OpExpirySec :: char where "OpExpirySec = CHR 0xFD"
definition OpExpiryMs :: char where "OpExpiryMs = CHR 0xFC"
definition OpEOF :: char where "OpEOF = CHR 0xFF"

definition EXPIRE_TIME_SEC :: nat where "EXPIRE_TIME_SEC = 1"
definition EXPIRE_TIME_MILLI_SEC :: nat where "EXPIRE_TIME_MILLI_SEC = 2"

definition ValTypeString :: nat where "ValTypeString = 0"
definition unsupported_types :: "nat list" where "unsupported_types = [1, 2, 3, 4, 9, 10, 11, 12, 13, 14]"

definition ErrInvalidMagic :: go_error where "ErrInvalidMagic = EText ''rdb: invalid magic string''"

definition GetTwoSignificantBits :: "char \<Rightarrow> nat" where
  "GetTwoSignificantBits bits = byte_val bits div 64"

definition low6 :: "char \<Rightarrow> nat" where
  "low6 bits = byte_val bits mod 64"

definition parseLength :: "(bool \<times> nat) parser" where
  "parseLength = rd_bind rd_byte (\<lambda>bits.
     if GetTwoSignificantBits bits = LenEnc6Bit then rd_ret (False, low6 bits)
     else if GetTwoSignificantBits bits = LenEnc14Bit then
       rd_bind rd_byte (\<lambda>secondByte. rd_ret (False, low6 bits * 256 + byte_val secondByte))
     else if GetTwoSignificantBits bits = LenEnc32Bit then
       rd_bind (rd_full 4) (\<lambda>buf. rd_ret (False, be_val buf))
     else if GetTwoSignificantBits bits = LenEncSpecial then rd_ret (True, low6 bits)
     else rd_fail (EText ''rdb: invalid length encoding''))"

definition ParseString :: "string parser" where
  "ParseString = rd_bind parseLength (\<lambda>(isSpecial, size).
     if \<not> isSpecial then rd_full size
     else if size = StrEncInt8 then rd_bind rd_byte (\<lambda>number. rd_ret (Itoa (signed 8 (byte_val number))))
     else if size = StrEncInt16 then rd_bind (rd_full 2) (\<lambda>buf. rd_ret (Itoa (signed 16 (le_val buf))))
     else if size = StrEncInt32 then rd_bind (rd_full 4) (\<lambda>buf. rd_ret (Itoa (signed 32 (le_val buf))))
     else if size = StrEncLZF then rd_fail (EText ''We do not support LZF string parsing'')
     else rd_fail (EText ''invalid string header received''))"

record RDBMetadata =
  meta_key :: string
  meta_value :: string

definition handleAux :: "RDBMetadata parser" where
  "handleAux = rd_bind ParseString (\<lambda>key. rd_bind ParseString (\<lambda>value.
     rd_ret \<lparr>meta_key = key, meta_value = value\<rparr>))"

definition ParseLengthEncoding :: "nat parser" where
  "ParseLengthEncoding = rd_bind parseLength (\<lambda>(isSpecial, size).
     if isSpecial then rd_fail (EText ''rdb: unexpected special encoding in length'') else rd_ret size)"

record DBMetaData =
  DBNumber :: nat

record ResizeDBMetaData =
  HashTableSize :: nat
  ExpireHashTableSize :: nat

definition ParseDBMetaData :: "DBMetaData parser" where
  "ParseDBMetaData = rd_bind ParseLengthEncoding (\<lambda>len. rd_ret \<lparr>DBNumber = len\<rparr>)"

definition ParseResizeMetadata :: "ResizeDBMetaData parser" where
  "ParseResizeMetadata = rd_bind ParseLengthEncoding (\<lambda>hashSize. rd_bind ParseLengthEncoding (\<lambda>expireHashSize.
     rd_ret \<lparr>HashTableSize = hashSize, ExpireHashTableSize = expireHashSize\<rparr>))"

subsection \<open>Keys\<close>

record ParsedKeyPair =
  PValueType :: nat
  PKey :: string
  PValue :: string
  PExpireAt :: int

definition parseKeyWithType :: "nat \<Rightarrow> ParsedKeyPair parser" where
  "parseKeyWithType valueType = rd_bind ParseString (\<lambda>key.
     if valueType = ValTypeString then
       rd_bind ParseString (\<lambda>str. rd_ret \<lparr>PValueType = valueType, PKey = key, PValue = str, PExpireAt = zero_time\<rparr>)
     else if valueType \<in> set unsupported_types then rd_fail (EText ''unsupported value type'')
     else rd_fail (EText ''unknown value type''))"

definition ParseKey :: "ParsedKeyPair parser" where
  "ParseKey = rd_bind rd_byte (\<lambda>valueType. parseKeyWithType (byte_val valueType))"

text \<open>\<^verbatim>\<open>time.Unix(sec, nsec)\<close> in nanoseconds, and integer division that truncates towards zero.\<close>

definition time_Unix :: "int \<Rightarrow> int \<Rightarrow> int" where
  "time_Unix sec nsec = sec * 1000000000 + nsec"

definition quot1000 :: "int \<Rightarrow> int" where
  "quot1000 ms = (if 0 \<le> ms then ms div 1000 else - (- ms div 1000))"

definition rem1000 :: "int \<Rightarrow> int" where
  "rem1000 ms = ms - 1000 * quot1000 ms"

definition ParseExpireKey :: "nat \<Rightarrow> ParsedKeyPair parser" where
  "ParseExpireKey expireUnit = rd_bind
     (if expireUnit = EXPIRE_TIME_SEC then
        rd_bind (rd_full 4) (\<lambda>buf. rd_ret (time_Unix (int (le_val buf)) 0))
      else if expireUnit = EXPIRE_TIME_MILLI_SEC then
        rd_bind (rd_full 8) (\<lambda>buf.
          let ms = signed 64 (le_val buf) in rd_ret (time_Unix (quot1000 ms) (rem1000 ms * 1000000)))
      else rd_fail (EText ''rdb: unknown expire unit''))
     (\<lambda>expireAt. rd_bind ParseKey (\<lambda>parsedKey. rd_ret (parsedKey\<lparr>PExpireAt := expireAt\<rparr>)))"

subsection \<open>Loading\<close>

definition unix_sec :: "int \<Rightarrow> int" where
  "unix_sec t = t div 1000000000"

definition string_entry :: "string \<Rightarrow> int \<Rightarrow> Entry" where
  "string_entry v t = \<lparr>EType = EntryTypeString, EValue = VString v, ExpireAt = t\<rparr>"

definition load_expiring :: "int \<Rightarrow> nat \<Rightarrow> reader \<Rightarrow> Store \<Rightarrow> bool go_result \<times> reader \<times> Store" where
  "load_expiring now unit r st =
     (case ParseExpireKey unit r of
        (Ret p, r') \<Rightarrow>
          (if unix_sec (PExpireAt p) \<le> unix_sec now then (Ret True, r', st)
           else (Ret True, r', Set st (PKey p) (string_entry (PValue p) (PExpireAt p))))
      | (Err e, r') \<Rightarrow> (Err e, r', st)
      | (Panic, r') \<Rightarrow> (Panic, r', st))"

text \<open>One iteration of the loop after its opcode: \<open>Ret True\<close> goes on, \<open>Ret False\<close> is the end marker.\<close>

definition load_op :: "int \<Rightarrow> char \<Rightarrow> reader \<Rightarrow> Store \<Rightarrow> bool go_result \<times> reader \<times> Store" where
  "load_op now opCode r st =
     (if opCode = OpAux then
        (case handleAux r of (Ret m, r') \<Rightarrow> (Ret True, r', st) | (Err e, r') \<Rightarrow> (Err e, r', st) | (Panic, r') \<Rightarrow> (Panic, r', st))
      else if opCode = OpSelectDB then
        (case ParseDBMetaData r of (Ret m, r') \<Rightarrow> (Ret True, r', st) | (Err e, r') \<Rightarrow> (Err e, r', st) | (Panic, r') \<Rightarrow> (Panic, r', st))
      else if opCode = OpResizeDB then
        (case ParseResizeMetadata r of (Ret m, r') \<Rightarrow> (Ret True, r', st) | (Err e, r') \<Rightarrow> (Err e, r', st) | (Panic, r') \<Rightarrow> (Panic, r', st))
      else if opCode = OpExpirySec then load_expiring now EXPIRE_TIME_SEC r st
      else if opCode = OpExpiryMs then load_expiring now EXPIRE_TIME_MILLI_SEC r st
      else if opCode = OpEOF then (Ret False, r, st)
      else (case parseKeyWithType (byte_val opCode) r of
          (Ret p, r') \<Rightarrow> (Ret True, r', Set st (PKey p) (string_entry (PValue p) zero_time))
        | (Err e, r') \<Rightarrow> (Err e, r', st)
        | (Panic, r') \<Rightarrow> (Panic, r', st)))"

subsubsection \<open>Every iteration consumes input\<close>

lemma consuming_rd_byte [simp]: "consuming rd_byte"
  by (auto simp: consuming_def rd_byte_def ReadByte_def suffix_def split: list.splits)

lemma consuming_rd_full [simp]: "consuming (rd_full n)"
  by (auto simp: consuming_def rd_full_def ReadFull_def suffix_drop split: sum.splits)

lemma consuming_parseLength [simp]: "consuming parseLength"
  unfolding parseLength_def by (intro consuming_bind consuming_rd_byte) (auto split: if_splits)

lemma consuming_ParseString [simp]: "consuming ParseString"
  unfolding ParseString_def
  by (rule consuming_bind [OF consuming_parseLength]) (auto split: prod.splits)

lemma consuming_parseKeyWithType [simp]: "consuming (parseKeyWithType t)"
  unfolding parseKeyWithType_def by (rule consuming_bind [OF consuming_ParseString]) auto

lemma consuming_ParseExpireKey [simp]: "consuming (ParseExpireKey u)"
  unfolding ParseExpireKey_def ParseKey_def
  by (rule consuming_bind) (auto simp: Let_def intro!: consuming_bind)

lemma consuming_ParseLengthEncoding [simp]: "consuming ParseLengthEncoding"
  unfolding ParseLengthEncoding_def by (rule consuming_bind [OF consuming_parseLength]) (auto split: prod.splits)

lemma consuming_meta [simp]:
  "consuming handleAux" "consuming ParseDBMetaData" "consuming ParseResizeMetadata"
  unfolding handleAux_def ParseDBMetaData_def ParseResizeMetadata_def
  by (auto intro!: consuming_bind)

lemma load_op_suffix: "load_op now c r st = (x, r', st') \<Longrightarrow> suffix (Pending r') (Pending r)"
  unfolding load_op_def load_expiring_def
  by (auto split: if_splits prod.splits go_result.splits dest: consumingD [rotated])

lemma load_op_length: "(x, r', st') = load_op now c r st \<Longrightarrow> length (Pending r') \<le> length (Pending r)"
  using load_op_suffix suffix_length_le by metis

subsubsection \<open>The loop\<close>

function load_loop :: "(nat \<Rightarrow> int) \<Rightarrow> nat \<Rightarrow> reader \<Rightarrow> Store \<Rightarrow> unit go_result \<times> Store" where
  "load_loop clock k r st =
     (case ReadByte r of
        (Inl e, r1) \<Rightarrow> (Err (EIo e), st)
      | (Inr opCode, r1) \<Rightarrow>
          (case load_op (clock k) opCode r1 st of
             (x, r2, st') \<Rightarrow>
               (case x of
                  Ret True \<Rightarrow> load_loop clock (Suc k) r2 st'
                | Ret False \<Rightarrow> (Ret (), st')
                | Err e \<Rightarrow> (Err e, st')
                | Panic \<Rightarrow> (Panic, st'))))"
  by pat_completeness auto
termination
  by (relation "measure (\<lambda>(clock, k, r, st). length (Pending r))")
    (auto simp: ReadByte_def split: list.splits dest!: load_op_length)

declare load_loop.simps [simp del]

definition Load :: "(nat \<Rightarrow> int) \<Rightarrow> string option \<Rightarrow> Store \<Rightarrow> unit go_result \<times> Store" where
  "Load clock file st =
     (case file of
        None \<Rightarrow> (Ret (), st)
      | Some content \<Rightarrow>
          (case rd_full 5 \<lparr>Pending = content, AtEnd = EOF\<rparr> of
             (Err e, r) \<Rightarrow> (Err e, st)
           | (Panic, r) \<Rightarrow> (Panic, st)
           | (Ret magicString, r) \<Rightarrow>
               (if magicString \<noteq> MAGIC_STRING then (Err ErrInvalidMagic, st)
                else (case rd_full 4 r of
                        (Err e, r') \<Rightarrow> (Err e, st)
                      | (Panic, r') \<Rightarrow> (Panic, st)
                      | (Ret RDBVersion, r') \<Rightarrow> load_loop clock 0 r' st))))"

subsection \<open>Loading never panics and keeps the invariant\<close>

definition no_panic :: "'a parser \<Rightarrow> bool" where
  "no_panic m \<longleftrightarrow> (\<forall>r. fst (m r) \<noteq> Panic)"

lemma no_panic_bind [intro]: "no_panic m \<Longrightarrow> (\<And>x. no_panic (f x)) \<Longrightarrow> no_panic (rd_bind m f)"
  by (simp add: no_panic_def rd_bind_Panic)

lemma no_panic_basic [simp]:
  "no_panic (rd_ret x)" "no_panic (rd_fail e)" "no_panic rd_byte" "no_panic (rd_full n)"
  by (auto simp: no_panic_def rd_byte_def rd_full_def split: prod.splits sum.splits)

lemma no_panic_parseLength [simp]: "no_panic parseLength"
  unfolding parseLength_def by (intro no_panic_bind no_panic_basic) (auto split: if_splits)

lemma no_panic_ParseString [simp]: "no_panic ParseString"
  unfolding ParseString_def by (rule no_panic_bind [OF no_panic_parseLength]) (auto split: prod.splits)

lemma no_panic_parseKeyWithType [simp]: "no_panic (parseKeyWithType t)"
  unfolding parseKeyWithType_def by (rule no_panic_bind [OF no_panic_ParseString]) auto

lemma no_panic_ParseExpireKey [simp]: "no_panic (ParseExpireKey u)"
  unfolding ParseExpireKey_def ParseKey_def by (rule no_panic_bind) (auto simp: Let_def intro!: no_panic_bind)

lemma no_panic_ParseLengthEncoding [simp]: "no_panic ParseLengthEncoding"
  unfolding ParseLengthEncoding_def by (rule no_panic_bind [OF no_panic_parseLength]) (auto split: prod.splits)

lemma no_panic_meta [simp]: "no_panic handleAux" "no_panic ParseDBMetaData" "no_panic ParseResizeMetadata"
  unfolding handleAux_def ParseDBMetaData_def ParseResizeMetadata_def
  by (intro no_panic_bind no_panic_ParseString no_panic_ParseLengthEncoding no_panic_basic)+

lemma no_panicD: "no_panic m \<Longrightarrow> m r \<noteq> (Panic, r')"
  by (metis no_panic_def fst_conv)

lemma load_expiring_no_panic: "fst (load_expiring now u r st) \<noteq> Panic"
  using no_panicD [OF no_panic_ParseExpireKey, of u r]
  by (simp add: load_expiring_def split: prod.split go_result.split)

lemma load_op_no_panic: "fst (load_op now c r st) \<noteq> Panic"
  unfolding load_op_def
  by (simp add: load_expiring_no_panic no_panicD split: prod.split go_result.split)

lemma store_ok_string_entry [inv_intros]: "store_ok st \<Longrightarrow> store_ok (Set st key (string_entry v t))"
  by (rule store_ok_Set) (simp_all add: string_entry_def has_elements_def)

lemma load_op_store_ok:
  assumes "store_ok st"
  shows "store_ok (snd (snd (load_op now c r st)))"
proof -
  have "store_ok (snd (snd (load_expiring now u r st)))" for u
    using assms by (simp add: load_expiring_def store_ok_string_entry split: prod.split go_result.split)
  then show ?thesis
    using assms by (simp add: load_op_def store_ok_string_entry split: prod.split go_result.split)
qed

lemma load_loop_safe:
  "store_ok st \<Longrightarrow> fst (load_loop clock k r st) \<noteq> Panic \<and> store_ok (snd (load_loop clock k r st))"
proof (induction clock k r st rule: load_loop.induct)
  case (1 clock k r st)
  obtain x r1 where rb: "ReadByte r = (x, r1)" by fastforce
  show ?case
  proof (cases x)
    case (Inl e)
    with rb 1 show ?thesis by (subst (1 2) load_loop.simps) simp
  next
    case (Inr c)
    obtain y r2 st' where op: "load_op (clock k) c r1 st = (y, r2, st')" by (metis prod_cases3)
    have ok: "store_ok st'" and y: "y \<noteq> Panic"
      using load_op_store_ok [OF 1(2), of "clock k" c r1] load_op_no_panic [of "clock k" c r1 st] op by auto
    have L: "load_loop clock k r st = (case y of Ret True \<Rightarrow> load_loop clock (Suc k) r2 st'
        | Ret False \<Rightarrow> (Ret (), st') | Err e \<Rightarrow> (Err e, st') | Panic \<Rightarrow> (Panic, st'))"
      using rb Inr op by (subst load_loop.simps) simp
    show ?thesis
    proof (cases "y = Ret True")
      case True
      have "fst (load_loop clock (Suc k) r2 st') \<noteq> Panic \<and> store_ok (snd (load_loop clock (Suc k) r2 st'))"
        using 1(1) rb [symmetric] Inr op [symmetric] True ok by blast
      with L True show ?thesis by simp
    next
      case False
      with L y ok show ?thesis by (cases y) (auto split: bool.splits)
    qed
  qed
qed

lemma Load_safe:
  assumes "store_ok st"
  shows "fst (Load clock file st) \<noteq> Panic \<and> store_ok (snd (Load clock file st))"
proof -
  have "rd_full n r \<noteq> (Panic, r')" for n r r' by (simp add: no_panicD)
  then show ?thesis
    using assms load_loop_safe [OF assms] unfolding Load_def
    by (auto split: option.splits prod.splits go_result.splits)
qed
subsection \<open>The meaning of a dump\<close>

fun le_bytes :: "nat \<Rightarrow> nat \<Rightarrow> string" where
  "le_bytes 0 n = []"
| "le_bytes (Suc k) n = char_of (n mod 256) # le_bytes k (n div 256)"

lemma length_le_bytes [simp]: "length (le_bytes k n) = k"
  by (induction k arbitrary: n) auto

lemma byte_val_char_of [simp]: "byte_val (char_of n) = n mod 256"
  by (simp add: byte_val_def)

lemma le_val_le_bytes: "n < 256 ^ k \<Longrightarrow> le_val (le_bytes k n) = n"
proof (induction k arbitrary: n)
  case (Suc k)
  then have "le_val (le_bytes k (n div 256)) = n div 256" by (simp add: less_mult_imp_div_less mult.commute)
  then show ?case by simp
qed simp

definition rdb_len :: "nat \<Rightarrow> string" where
  "rdb_len n =
     (if n < 64 then [char_of n]
      else if n < 2 ^ 14 then [char_of (64 + n div 256), char_of (n mod 256)]
      else char_of (128 :: nat) # rev (le_bytes 4 n))"

definition rdb_str :: "string \<Rightarrow> string" where
  "rdb_str s = rdb_len (length s) @ s"

lemma rd_byte_Cons [simp]: "rd_byte (r\<lparr>Pending := c # cs\<rparr>) = (Ret c, r\<lparr>Pending := cs\<rparr>)"
  by (simp add: rd_byte_def ReadByte_def)

lemma rd_full_append: "length s = n \<Longrightarrow> rd_full n (r\<lparr>Pending := s @ rest\<rparr>) = (Ret s, r\<lparr>Pending := rest\<rparr>)"
  using ReadFull_exact [of s, where r = r and rest = rest] by (simp add: rd_full_def)

lemma parseLength_rdb_len:
  assumes "n < 2 ^ 32"
  shows "parseLength (r\<lparr>Pending := rdb_len n @ rest\<rparr>) = (Ret (False, n), r\<lparr>Pending := rest\<rparr>)"
proof -
  consider "n < 64" | "64 \<le> n" "n < 2 ^ 14" | "2 ^ 14 \<le> n" by linarith
  then show ?thesis
  proof cases
    case 1
    then show ?thesis
      by (simp add: rdb_len_def parseLength_def rd_bind_def GetTwoSignificantBits_def low6_def LenEnc6Bit_def)
  next
    case 2
    then have "n div 256 < 64" by simp
    then have d: "(64 + n div 256) mod 256 = 64 + n div 256" "(64 + n div 256) div 64 = 1"
      "(64 + n div 256) mod 64 = n div 256" by simp_all
    have "n div 256 * 256 + n mod 256 = n" by simp
    with 2 d show ?thesis
      by (simp add: rdb_len_def parseLength_def rd_bind_def GetTwoSignificantBits_def low6_def
          LenEnc6Bit_def LenEnc14Bit_def)
  next
    case 3
    have f: "rd_full 4 (r\<lparr>Pending := rev (le_bytes 4 n) @ rest\<rparr>) = (Ret (rev (le_bytes 4 n)), r\<lparr>Pending := rest\<rparr>)"
      by (rule rd_full_append) simp
    have "le_val (le_bytes 4 n) = n" using assms by (intro le_val_le_bytes) simp
    then show ?thesis
      using 3 f by (simp add: rdb_len_def parseLength_def rd_bind_def GetTwoSignificantBits_def
          LenEnc6Bit_def LenEnc14Bit_def LenEnc32Bit_def be_val_def)
  qed
qed

interpretation rdb_length: wire_codec rdb_len ParseLengthEncoding "\<lambda>n. n < 2 ^ 32"
  by unfold_locales (simp add: ParseLengthEncoding_def rd_bind_def parseLength_rdb_len)

interpretation rdb_string: wire_codec rdb_str ParseString "\<lambda>s. length s < 2 ^ 32"
proof
  show "ParseString (r\<lparr>Pending := rdb_str s @ rest\<rparr>) = (Ret s, r\<lparr>Pending := rest\<rparr>)"
    if "length s < 2 ^ 32" for s r rest
    using that by (simp add: ParseString_def rdb_str_def rd_bind_def parseLength_rdb_len rd_full_append)
qed

text \<open>The integer encodings of strings: one byte, or two or four bytes with the lowest first, in two's
  complement.\<close>

definition unsigned :: "nat \<Rightarrow> int \<Rightarrow> nat" where
  "unsigned bits i = nat (i mod 2 ^ bits)"

lemma signed_unsigned:
  assumes "0 < bits" and "- (2 ^ (bits - 1)) \<le> i" and "i < 2 ^ (bits - 1)"
  shows "signed bits (unsigned bits i) = i" and "unsigned bits i < 2 ^ bits"
proof -
  have two: "(2 :: int) ^ bits = 2 * 2 ^ (bits - 1)" using assms(1) by (simp add: power_eq_if)
  have r: "int (unsigned bits i) = i mod 2 ^ bits" by (simp add: unsigned_def)
  show "unsigned bits i < 2 ^ bits" using r by (metis of_nat_less_iff of_nat_numeral of_nat_power pos_mod_bound zero_less_numeral zero_less_power)
  have lt: "unsigned bits i < 2 ^ (bits - 1) \<longleftrightarrow> i mod 2 ^ bits < 2 ^ (bits - 1)"
    using r by (metis of_nat_less_iff of_nat_numeral of_nat_power)
  show "signed bits (unsigned bits i) = i"
  proof (cases "0 \<le> i")
    case True
    then have "i mod 2 ^ bits = i" using assms two by simp
    with lt r assms(3) show ?thesis by (simp add: signed_def)
  next
    case False
    then have "i mod 2 ^ bits = i + 2 ^ bits"
    proof -
      have "0 \<le> i + 2 ^ bits" "i + 2 ^ bits < 2 ^ bits" using assms(2) two False by linarith+
      then have "(i + 2 ^ bits) mod 2 ^ bits = i + 2 ^ bits" by (rule mod_pos_pos_trivial)
      then show ?thesis by simp
    qed
    with lt r assms two False show ?thesis by (simp add: signed_def)
  qed
qed

lemma ParseString_int:
  "- 128 \<le> i \<Longrightarrow> i < 128 \<Longrightarrow>
   ParseString (r\<lparr>Pending := CHR 0xC0 # char_of (unsigned 8 i) # rest\<rparr>) = (Ret (Itoa i), r\<lparr>Pending := rest\<rparr>)"
  "- (2 ^ 15) \<le> i \<Longrightarrow> i < 2 ^ 15 \<Longrightarrow>
   ParseString (r\<lparr>Pending := CHR 0xC1 # le_bytes 2 (unsigned 16 i) @ rest\<rparr>) = (Ret (Itoa i), r\<lparr>Pending := rest\<rparr>)"
  "- (2 ^ 31) \<le> i \<Longrightarrow> i < 2 ^ 31 \<Longrightarrow>
   ParseString (r\<lparr>Pending := CHR 0xC2 # le_bytes 4 (unsigned 32 i) @ rest\<rparr>) = (Ret (Itoa i), r\<lparr>Pending := rest\<rparr>)"
proof -
  note enc = ParseString_def parseLength_def rd_bind_def GetTwoSignificantBits_def low6_def byte_val_def
    LenEnc6Bit_def LenEnc14Bit_def LenEnc32Bit_def LenEncSpecial_def StrEncInt8_def StrEncInt16_def StrEncInt32_def
  show "ParseString (r\<lparr>Pending := CHR 0xC0 # char_of (unsigned 8 i) # rest\<rparr>) = (Ret (Itoa i), r\<lparr>Pending := rest\<rparr>)"
    if "- 128 \<le> i" "i < 128"
    using signed_unsigned [of 8 i] that by (simp add: enc)
  show "ParseString (r\<lparr>Pending := CHR 0xC1 # le_bytes 2 (unsigned 16 i) @ rest\<rparr>) = (Ret (Itoa i), r\<lparr>Pending := rest\<rparr>)"
    if "- (2 ^ 15) \<le> i" "i < 2 ^ 15"
    using signed_unsigned [of 16 i] that rd_full_append [of "le_bytes 2 (unsigned 16 i)" 2, where r = r and rest = rest]
    by (simp add: enc le_val_le_bytes)
  show "ParseString (r\<lparr>Pending := CHR 0xC2 # le_bytes 4 (unsigned 32 i) @ rest\<rparr>) = (Ret (Itoa i), r\<lparr>Pending := rest\<rparr>)"
    if "- (2 ^ 31) \<le> i" "i < 2 ^ 31"
    using signed_unsigned [of 32 i] that rd_full_append [of "le_bytes 4 (unsigned 32 i)" 4, where r = r and rest = rest]
    by (simp add: enc le_val_le_bytes)
qed

datatype rdb_record =
    RAux string string
  | RSelectDB nat
  | RResizeDB nat nat
  | RKey string string
  | RKeySec nat string string
  | RKeyMs nat string string

fun rdb_enc :: "rdb_record \<Rightarrow> string" where
  "rdb_enc (RAux k v) = OpAux # rdb_str k @ rdb_str v"
| "rdb_enc (RSelectDB n) = OpSelectDB # rdb_len n"
| "rdb_enc (RResizeDB n m) = OpResizeDB # rdb_len n @ rdb_len m"
| "rdb_enc (RKey k v) = char_of ValTypeString # rdb_str k @ rdb_str v"
| "rdb_enc (RKeySec t k v) = OpExpirySec # le_bytes 4 t @ char_of ValTypeString # rdb_str k @ rdb_str v"
| "rdb_enc (RKeyMs t k v) = OpExpiryMs # le_bytes 8 t @ char_of ValTypeString # rdb_str k @ rdb_str v"

fun rdb_valid :: "rdb_record \<Rightarrow> bool" where
  "rdb_valid (RAux k v) \<longleftrightarrow> length k < 2 ^ 32 \<and> length v < 2 ^ 32"
| "rdb_valid (RSelectDB n) \<longleftrightarrow> n < 2 ^ 32"
| "rdb_valid (RResizeDB n m) \<longleftrightarrow> n < 2 ^ 32 \<and> m < 2 ^ 32"
| "rdb_valid (RKey k v) \<longleftrightarrow> length k < 2 ^ 32 \<and> length v < 2 ^ 32"
| "rdb_valid (RKeySec t k v) \<longleftrightarrow> t < 2 ^ 32 \<and> length k < 2 ^ 32 \<and> length v < 2 ^ 32"
| "rdb_valid (RKeyMs t k v) \<longleftrightarrow> t < 2 ^ 63 \<and> length k < 2 ^ 32 \<and> length v < 2 ^ 32"

text \<open>What a record means for the store: a key whose expiry second is not in the future is skipped.\<close>

fun rdb_apply :: "int \<Rightarrow> rdb_record \<Rightarrow> Store \<Rightarrow> Store" where
  "rdb_apply now (RKey k v) st = Set st k (string_entry v zero_time)"
| "rdb_apply now (RKeySec t k v) st =
     (if int t \<le> unix_sec now then st else Set st k (string_entry v (int t * 1000000000)))"
| "rdb_apply now (RKeyMs t k v) st =
     (if int t div 1000 \<le> unix_sec now then st else Set st k (string_entry v (int t * 1000000)))"
| "rdb_apply now rec st = st"

fun rdb_apply_all :: "(nat \<Rightarrow> int) \<Rightarrow> nat \<Rightarrow> rdb_record list \<Rightarrow> Store \<Rightarrow> Store" where
  "rdb_apply_all clock k [] st = st"
| "rdb_apply_all clock k (rec # recs) st = rdb_apply_all clock (Suc k) recs (rdb_apply (clock k) rec st)"

definition rdb_file :: "string \<Rightarrow> rdb_record list \<Rightarrow> string \<Rightarrow> string" where
  "rdb_file version recs checksum = MAGIC_STRING @ version @ concat (map rdb_enc recs) @ OpEOF # checksum"

lemmas rdb_ops = OpAux_def OpSelectDB_def OpResizeDB_def OpExpirySec_def OpExpiryMs_def OpEOF_def

lemma parseKeyWithType_string:
  assumes "length k < 2 ^ 32" and "length v < 2 ^ 32"
  shows "parseKeyWithType ValTypeString (r\<lparr>Pending := rdb_str k @ rdb_str v @ rest\<rparr>)
    = (Ret \<lparr>PValueType = ValTypeString, PKey = k, PValue = v, PExpireAt = zero_time\<rparr>, r\<lparr>Pending := rest\<rparr>)"
  using assms by (simp add: parseKeyWithType_def rd_bind_def rdb_string.dec_enc)

lemma ParseExpireKey_sec:
  assumes "t < 2 ^ 32" and "length k < 2 ^ 32" and "length v < 2 ^ 32"
  shows "ParseExpireKey EXPIRE_TIME_SEC (r\<lparr>Pending := le_bytes 4 t @ char_of ValTypeString # rdb_str k @ rdb_str v @ rest\<rparr>)
    = (Ret \<lparr>PValueType = ValTypeString, PKey = k, PValue = v, PExpireAt = int t * 1000000000\<rparr>, r\<lparr>Pending := rest\<rparr>)"
  using assms
  by (simp add: ParseExpireKey_def ParseKey_def rd_bind_def rd_full_append le_val_le_bytes time_Unix_def
      parseKeyWithType_string [unfolded ValTypeString_def] ValTypeString_def)

lemma ParseExpireKey_ms:
  assumes "t < 2 ^ 63" and "length k < 2 ^ 32" and "length v < 2 ^ 32"
  shows "ParseExpireKey EXPIRE_TIME_MILLI_SEC (r\<lparr>Pending := le_bytes 8 t @ char_of ValTypeString # rdb_str k @ rdb_str v @ rest\<rparr>)
    = (Ret \<lparr>PValueType = ValTypeString, PKey = k, PValue = v, PExpireAt = int t * 1000000\<rparr>, r\<lparr>Pending := rest\<rparr>)"
proof -
  have "le_val (le_bytes 8 t) = t" using assms(1) by (intro le_val_le_bytes) simp
  moreover have "signed 64 t = int t" using assms(1) by (simp add: signed_def)
  moreover have "time_Unix (quot1000 (int t)) (rem1000 (int t) * 1000000) = int t * 1000000"
    by (simp add: time_Unix_def quot1000_def rem1000_def algebra_simps)
  ultimately show ?thesis
    using assms(2,3)
    by (simp add: ParseExpireKey_def ParseKey_def rd_bind_def rd_full_append Let_def EXPIRE_TIME_SEC_def
        EXPIRE_TIME_MILLI_SEC_def parseKeyWithType_string [unfolded ValTypeString_def] ValTypeString_def)
qed

lemma unix_sec_ms: "unix_sec (int t * 1000000) = int t div 1000"
  using zdiv_zmult2_eq [of 1000000 "int t * 1000000" 1000] by (simp add: unix_sec_def)

lemma string_not_op:
  "(char_of ValTypeString :: char) \<noteq> OpAux" "(char_of ValTypeString :: char) \<noteq> OpSelectDB"
  "(char_of ValTypeString :: char) \<noteq> OpResizeDB" "(char_of ValTypeString :: char) \<noteq> OpExpirySec"
  "(char_of ValTypeString :: char) \<noteq> OpExpiryMs" "(char_of ValTypeString :: char) \<noteq> OpEOF"
  by (code_simp)+

lemma load_op_rdb_enc:
  assumes "rdb_valid rec" and "rdb_enc rec = c # body"
  shows "load_op now c (r\<lparr>Pending := body @ rest\<rparr>) st = (Ret True, r\<lparr>Pending := rest\<rparr>, rdb_apply now rec st)"
proof (cases rec)
  case (RAux k v)
  with assms show ?thesis by (auto simp: load_op_def handleAux_def rd_bind_def rdb_string.dec_enc)
next
  case (RSelectDB n)
  with assms show ?thesis by (auto simp: load_op_def rdb_ops ParseDBMetaData_def rd_bind_def rdb_length.dec_enc)
next
  case (RResizeDB n m)
  with assms show ?thesis by (auto simp: load_op_def rdb_ops ParseResizeMetadata_def rd_bind_def rdb_length.dec_enc)
next
  case (RKey k v)
  have "byte_val (char_of ValTypeString) = ValTypeString" by (simp add: ValTypeString_def)
  with RKey assms show ?thesis
    using parseKeyWithType_string [of k v, where r = r and rest = rest]
    by (auto simp: load_op_def string_not_op simp del: byte_val_char_of)
next
  case (RKeySec t k v)
  with assms show ?thesis
    by (auto simp: load_op_def rdb_ops load_expiring_def ParseExpireKey_sec unix_sec_def)
next
  case (RKeyMs t k v)
  with assms show ?thesis
    by (auto simp: load_op_def rdb_ops load_expiring_def ParseExpireKey_ms unix_sec_ms)
qed

lemma rdb_enc_Cons: "\<exists>c body. rdb_enc rec = c # body"
  by (cases rec) auto

lemma load_loop_records:
  assumes "\<forall>rec \<in> set recs. rdb_valid rec"
  shows "load_loop clock k (r\<lparr>Pending := concat (map rdb_enc recs) @ rest\<rparr>) st
    = load_loop clock (k + length recs) (r\<lparr>Pending := rest\<rparr>) (rdb_apply_all clock k recs st)"
  using assms
proof (induction recs arbitrary: k st)
  case Nil
  then show ?case by simp
next
  case (Cons rec recs)
  obtain c body where c: "rdb_enc rec = c # body" using rdb_enc_Cons by blast
  let ?rest = "concat (map rdb_enc recs) @ rest"
  have "load_op (clock k) c (r\<lparr>Pending := body @ ?rest\<rparr>) st = (Ret True, r\<lparr>Pending := ?rest\<rparr>, rdb_apply (clock k) rec st)"
    using Cons.prems by (intro load_op_rdb_enc [OF _ c]) simp
  then have "load_loop clock k (r\<lparr>Pending := c # body @ ?rest\<rparr>) st
      = load_loop clock (Suc k) (r\<lparr>Pending := ?rest\<rparr>) (rdb_apply (clock k) rec st)"
    by (subst load_loop.simps) (simp add: ReadByte_def)
  with c Cons.IH [of "Suc k"] Cons.prems show ?case by simp
qed

lemma Load_header:
  assumes "length version = 4"
  shows "Load clock (Some (MAGIC_STRING @ version @ body)) st = load_loop clock 0 \<lparr>Pending = body, AtEnd = EOF\<rparr> st"
proof -
  have "length MAGIC_STRING = 5" by (simp add: MAGIC_STRING_def)
  then show ?thesis
    using rd_full_append [of MAGIC_STRING 5, where r = "\<lparr>Pending = [], AtEnd = EOF\<rparr>" and rest = "version @ body"]
      rd_full_append [of version 4, where r = "\<lparr>Pending = [], AtEnd = EOF\<rparr>" and rest = body] assms
    by (simp add: Load_def)
qed

lemma Load_rdb_file:
  assumes "length version = 4" and "\<forall>rec \<in> set recs. rdb_valid rec"
  shows "Load clock (Some (rdb_file version recs checksum)) st = (Ret (), rdb_apply_all clock 0 recs st)"
proof -
  have "load_loop clock k \<lparr>Pending = OpEOF # checksum, AtEnd = EOF\<rparr> st' = (Ret (), st')" for k st'
    by (subst load_loop.simps) (simp add: ReadByte_def load_op_def rdb_ops)
  with load_loop_records [OF assms(2), where r = "\<lparr>Pending = [], AtEnd = EOF\<rparr>" and k = 0]
  show ?thesis by (simp add: rdb_file_def Load_header [OF assms(1)])
qed

text \<open>A dump that stops after a record, before its end marker, is an error, but the keys of the records before
  it stay loaded.\<close>

lemma Load_truncated:
  assumes "length version = 4" and "\<forall>rec \<in> set recs. rdb_valid rec"
  shows "Load clock (Some (MAGIC_STRING @ version @ concat (map rdb_enc recs))) st
    = (Err (EIo EOF), rdb_apply_all clock 0 recs st)"
proof -
  have "load_loop clock k \<lparr>Pending = [], AtEnd = EOF\<rparr> st' = (Err (EIo EOF), st')" for k st'
    by (subst load_loop.simps) (simp add: ReadByte_def)
  with load_loop_records [OF assms(2), where r = "\<lparr>Pending = [], AtEnd = EOF\<rparr>" and k = 0 and rest = "[]"]
  show ?thesis by (simp add: Load_header [OF assms(1)])
qed

subsection \<open>Properties\<close>

text \<open>C15. Loading a dump made of any sequence of auxiliary fields, database markers and string keys, with or without an
  expiry time, succeeds whatever length encodings its sizes need, and has exactly the effect of storing the keys in
  order, less those that have already expired when they are read.\<close>

theorem rdb_load_complete:
  assumes "length version = 4" and "\<forall>rec \<in> set recs. rdb_valid rec"
  shows "Load clock (Some (rdb_file version recs checksum)) st = (Ret (), rdb_apply_all clock 0 recs st)"
  by (rule Load_rdb_file [OF assms])

theorem rdb_load_complete_witness:
  "Load (\<lambda>_. 0) (Some (rdb_file ''0011'' [RAux ''ver'' ''7'', RSelectDB 0, RKey ''k'' ''v'', RKeyMs 5000 ''t'' ''w''] [])) New
    = (Ret (), Set (Set New ''k'' (string_entry ''v'' zero_time)) ''t'' (string_entry ''w'' 5000000000))"
  using rdb_load_complete [of "''0011''" "[RAux ''ver'' ''7'', RSelectDB 0, RKey ''k'' ''v'', RKeyMs 5000 ''t'' ''w'']"
      "\<lambda>_. 0" "[]" New]
  by (simp add: unix_sec_def)

text \<open>C27. Whatever bytes a dump file holds, loading it ends (the definition is total), never panics, and leaves a store
  that satisfies the invariant of the key space.\<close>

theorem rdb_load_safe:
  assumes "store_ok st"
  shows "fst (Load clock file st) \<noteq> Panic \<and> store_ok (snd (Load clock file st))"
  by (rule Load_safe [OF assms])

theorem rdb_load_safe_witness:
  "fst (Load (\<lambda>_. 0) (Some ''REDIS0011garbage'') New) \<noteq> Panic \<and> store_ok (snd (Load (\<lambda>_. 0) (Some ''REDIS0011garbage'') New))"
  using rdb_load_safe [OF store_ok_New] by blast

text \<open>A dump that stops after a record, before its end marker, is reported as an end-of-file error, yet the keys of
  all complete records stay in the store.\<close>

theorem rdb_truncated_dump_is_an_error:
  assumes "length version = 4" and "\<forall>rec \<in> set recs. rdb_valid rec"
  shows "Load clock (Some (MAGIC_STRING @ version @ concat (map rdb_enc recs))) st
    = (Err (EIo EOF), rdb_apply_all clock 0 recs st)"
  by (rule Load_truncated [OF assms])

theorem rdb_truncated_dump_is_an_error_witness:
  "Load (\<lambda>_. 0) (Some (MAGIC_STRING @ ''0011'' @ rdb_enc (RKey ''k'' ''v''))) New
    = (Err (EIo EOF), Set New ''k'' (string_entry ''v'' zero_time))"
  using rdb_truncated_dump_is_an_error [of "''0011''" "[RKey ''k'' ''v'']" "\<lambda>_. 0" New] by simp

end
