(* ===== verification/Server.thy ===== *)
theory Server
  imports StoreCorrect Aof Morton Rdb
begin

text \<open>
  The state of the server, \<^verbatim>\<open>server/server.go\<close>: configuration, the role of the node and its replicas, the
  client sessions, who watches which key and who subscribes to which channel, the key space and the append-only
  file, and the operations on sessions and connections.

  A \<^verbatim>\<open>*Client\<close> is its identifier: \<open>objs\<close> holds the object of every client ever created, \<open>clients\<close> the identifiers
  that are still registered in the map of the same name. A connection is a number and \<open>wire\<close> records the bytes
  written to each; whether a write to a connection fails is a parameter, as are the instant, the coin flips of the
  skip list and the order in which Go ranges over a map.
\<close>

subsection \<open>Configuration and constants\<close>

definition TypeAppendOnlyYes :: string where "TypeAppendOnlyYes = ''yes''"
definition TypeAppendOnlyNo :: string where "TypeAppendOnlyNo = ''no''"
definition TypeClientExternal :: string where "TypeClientExternal = ''external''"
definition TypeClientInternal :: string where "TypeClientInternal = ''internal''"
definition ClientModeNormal :: string where "ClientModeNormal = ''normal''"
definition ClientModeTransaction :: string where "ClientModeTransaction = ''transaction''"
definition ClientModeSubscribed :: string where "ClientModeSubscribed = ''subscribe''"
definition NodeRoleMaster :: string where "NodeRoleMaster = ''master''"
definition NodeRoleReplica :: string where "NodeRoleReplica = ''replica''"
definition ReSyncTypeFull :: string where "ReSyncTypeFull = ''FULLRESYNC''"

record Request =
  Command :: string
  Arguments :: "string list"

record Config =
  Port :: int
  Bind :: string
  Timeout :: int
  KeepAlive :: bool
  KeepAliveTimeout :: int
  Dir :: string
  Dbfilename :: string
  Appendonly :: string
  Appenddirname :: string
  Appendfilename :: string
  Appendfsync :: string
  Replicaof :: string

definition GetDefaultConfig :: "string \<Rightarrow> Config" where
  "GetDefaultConfig exeDir =
     \<lparr>Port = 6379, Bind = ''127.0.0.1'', Timeout = 5, KeepAlive = True, KeepAliveTimeout = 300, Dir = exeDir,
      Dbfilename = ''dump.rdb'', Appendonly = TypeAppendOnlyNo, Appenddirname = ''appendonlydir'',
      Appendfilename = ''appendonly.aof'', Appendfsync = ''everysec'', Replicaof = []\<rparr>"

subsection \<open>State\<close>

record Client =
  ClientType :: string
  Id :: int
  Mode :: string
  Conn :: nat
  CommandQueue :: "Request list"
  WatchedKeys :: "(string, bool) gomap"
  DirtyCompareAndSet :: bool
  SubscribedChannels :: "(string, bool) gomap"

record ReplicaConfig =
  ReplicaId :: string
  RConn :: nat
  ReplicaOffSet :: int

record NodeConfig =
  Role :: string
  MasterHost :: string
  MasterPort :: int
  replicaNodes :: "ReplicaConfig list"
  ReplicationId :: string
  ReplicationOffset :: int
  ReplicaReady :: bool

record Server =
  Node :: NodeConfig
  Cfg :: Config
  DB :: Store
  AOF :: "AOFLocal option"
  FS :: fs
  objs :: "(int, Client) gomap"
  clients :: "int list"
  watcherClients :: "(string, int list) gomap"
  subscribersMetaData :: "(string, int list) gomap"
  clientIDCounter :: int
  wire :: "(nat, string) gomap"

record env =
  Lib :: golib
  Now :: int
  Coins :: "nat \<Rightarrow> nat \<Rightarrow> bool"
  KeyOrder :: "string list \<Rightarrow> string list"
  ConnOk :: "nat \<Rightarrow> bool"
  Faults :: faults
  NewId :: string

text \<open>The server literal of \<^verbatim>\<open>NewServer\<close>, before it knows its role.\<close>

definition blank_server :: "Config \<Rightarrow> fs \<Rightarrow> Store \<Rightarrow> Server" where
  "blank_server cfg fs st =
     \<lparr>Node = \<lparr>Role = NodeRoleMaster, MasterHost = [], MasterPort = 0, replicaNodes = [], ReplicationId = [],
              ReplicationOffset = 0, ReplicaReady = True\<rparr>,
      Cfg = cfg, DB = st, AOF = None, FS = fs, objs = [], clients = [], watcherClients = [],
      subscribersMetaData = [], clientIDCounter = 0, wire = []\<rparr>"

subsection \<open>Clients and connections\<close>

definition blank_client :: Client where
  "blank_client = \<lparr>ClientType = [], Id = 0, Mode = [], Conn = 0, CommandQueue = [], WatchedKeys = [],
     DirtyCompareAndSet = False, SubscribedChannels = []\<rparr>"

definition client :: "Server \<Rightarrow> int \<Rightarrow> Client" where
  "client s c = (case map_of (objs s) c of Some x \<Rightarrow> x | None \<Rightarrow> blank_client)"

definition set_client :: "int \<Rightarrow> Client \<Rightarrow> Server \<Rightarrow> Server" where
  "set_client c x s = s\<lparr>objs := gm_set c x (objs s)\<rparr>"

definition nextClientID :: "Server \<Rightarrow> int \<times> Server" where
  "nextClientID s = (let i = clientIDCounter s + 1 in (i, s\<lparr>clientIDCounter := i\<rparr>))"

definition new_client :: "string \<Rightarrow> nat \<Rightarrow> Server \<Rightarrow> int \<times> Server" where
  "new_client ty conn s =
     (let (i, s1) = nextClientID s;
          x = \<lparr>ClientType = ty, Id = i, Mode = ClientModeNormal, Conn = conn, CommandQueue = [],
               WatchedKeys = [], DirtyCompareAndSet = False, SubscribedChannels = []\<rparr>
      in (i, set_client i x s1))"

definition AddClient :: "nat \<Rightarrow> Server \<Rightarrow> int \<times> Server" where
  "AddClient conn s =
     (let (i, s1) = new_client TypeClientExternal conn s
      in (i, s1\<lparr>clients := (if i \<in> set (clients s1) then clients s1 else i # clients s1)\<rparr>))"

definition CloseConnection :: "int \<Rightarrow> Server \<Rightarrow> Server" where
  "CloseConnection c s = s\<lparr>clients := removeAll c (clients s)\<rparr>"

text \<open>\<^verbatim>\<open>conn.Write\<close>: on success the bytes are on the wire.\<close>

definition conn_write :: "env \<Rightarrow> nat \<Rightarrow> string \<Rightarrow> Server \<Rightarrow> bool \<times> Server" where
  "conn_write env conn payload s =
     (if ConnOk env conn
      then (True, s\<lparr>wire := gm_set conn ((case map_of (wire s) conn of None \<Rightarrow> [] | Some w \<Rightarrow> w) @ payload) (wire s)\<rparr>)
      else (False, s))"

definition written :: "Server \<Rightarrow> nat \<Rightarrow> string" where
  "written s conn = (case map_of (wire s) conn of None \<Rightarrow> [] | Some w \<Rightarrow> w)"

subsection \<open>Watches and transactions\<close>

definition remove_id :: "int \<Rightarrow> string \<Rightarrow> (string, int list) gomap \<Rightarrow> (string, int list) gomap" where
  "remove_id c key wc =
     (case map_of wc key of
        None \<Rightarrow> wc
      | Some watchers \<Rightarrow>
          (case index_of c watchers of
             None \<Rightarrow> wc
           | Some i \<Rightarrow>
               (let watchers = delete_at i watchers
                in if watchers = [] then gm_del key wc else gm_set key watchers wc)))"

definition UnwatchAll :: "env \<Rightarrow> int \<Rightarrow> Server \<Rightarrow> Server" where
  "UnwatchAll env c s =
     (let keys = KeyOrder env (map fst (WatchedKeys (client s c)));
          s1 = s\<lparr>watcherClients := fold (remove_id c) keys (watcherClients s)\<rparr>
      in set_client c ((client s1 c)\<lparr>WatchedKeys := [], DirtyCompareAndSet := False\<rparr>) s1)"

definition ResetTransactionState :: "env \<Rightarrow> int \<Rightarrow> Server \<Rightarrow> Server" where
  "ResetTransactionState env c s =
     (let s1 = UnwatchAll env c s
      in set_client c ((client s1 c)\<lparr>CommandQueue := [], Mode := ClientModeNormal\<rparr>) s1)"

text \<open>The part of \<^verbatim>\<open>Execute\<close> after a successful write: every registered client that watches the key gets its
  flag set.\<close>

definition watchers_of :: "Server \<Rightarrow> string \<Rightarrow> int list" where
  "watchers_of s key = filter (\<lambda>w. w \<in> set (clients s))
     (case map_of (watcherClients s) key of None \<Rightarrow> [] | Some ws \<Rightarrow> ws)"

definition mark_dirty :: "int \<Rightarrow> Server \<Rightarrow> Server" where
  "mark_dirty w s = set_client w ((client s w)\<lparr>DirtyCompareAndSet := True\<rparr>) s"

definition touch :: "string \<Rightarrow> Server \<Rightarrow> Server" where
  "touch key s = fold mark_dirty (watchers_of s key) s"

subsection \<open>Replicas\<close>

definition getRequestinResp :: "golib \<Rightarrow> Request \<Rightarrow> string" where
  "getRequestinResp lib req =
     Array_Marshal (map BulkString_Marshal (ToUpper lib (Command req) # Arguments req))"

definition AddReplica :: "env \<Rightarrow> int \<Rightarrow> Server \<Rightarrow> Server" where
  "AddReplica env c s =
     s\<lparr>Node := (Node s)\<lparr>replicaNodes := replicaNodes (Node s) @
         [\<lparr>ReplicaId = NewId env, RConn = Conn (client s c), ReplicaOffSet = 0\<rparr>]\<rparr>\<rparr>"

definition DeleteReplica :: "int \<Rightarrow> Server \<Rightarrow> Server" where
  "DeleteReplica c s =
     (case index_of (Conn (client s c)) (map RConn (replicaNodes (Node s))) of
        None \<Rightarrow> s
      | Some i \<Rightarrow> s\<lparr>Node := (Node s)\<lparr>replicaNodes := delete_at i (replicaNodes (Node s))\<rparr>\<rparr>)"

fun write_all :: "env \<Rightarrow> nat list \<Rightarrow> string \<Rightarrow> Server \<Rightarrow> Server" where
  "write_all env [] payload s = s"
| "write_all env (c # cs) payload s = write_all env cs payload (snd (conn_write env c payload s))"

subsection \<open>Requests\<close>

definition ParseRequest :: "golib \<Rightarrow> Request parser" where
  "ParseRequest lib r =
     (case Peek1 r of
        Inl e \<Rightarrow> (Err (EIo e), r)
      | Inr c \<Rightarrow>
          (if c \<noteq> CHR ''*'' then
             (Err (EProtocol (EText (''expected '' @ quote_rune (of_char (CHR ''*'')) @ '', got '' @
                                     quote_rune (of_char c)))), r)
           else (case Array_Unmarshal r of
               (Err e, r') \<Rightarrow> (Err (EProtocol e), r')
             | (Panic, r') \<Rightarrow> (Panic, r')
             | (Ret vs, r') \<Rightarrow>
                 (case vs of
                    [] \<Rightarrow> (Err (EProtocol (EText ''empty command array'')), r')
                  | v # args \<Rightarrow> (Ret \<lparr>Command = ToLower lib v, Arguments = args\<rparr>, r')))))"

subsection \<open>A concrete environment for examples\<close>

text \<open>Library functions that know only the two numbers 0 and 1, a clock that shows the given instant, a skip list of one
  level, and connections and files that never fail.\<close>

definition sample_lib :: golib where
  "sample_lib = \<lparr>UniLower = id, UniUpper = id, UniFields = (\<lambda>s. [s]), UniFold = (=), NumErrorText = id,
     ParseFloat64 = (\<lambda>s. if s = ''0'' then Some f64_zero else if s = ''1'' then Some f64_one else None),
     ParseFloat32 = (\<lambda>s. if s = ''0'' then Some f64_zero else if s = ''1'' then Some f64_one else None),
     FormatFloat = (\<lambda>x. if x = f64_one then ''1'' else ''0''), FormatFixed = (\<lambda>x. if x = f64_one then ''1'' else ''0''),
     MathCos = id, MathAsin = id, MathSqrt = id, ConvUint = (\<lambda>_ _. 0)\<rparr>"

definition sample_env :: "int \<Rightarrow> env" where
  "sample_env now = \<lparr>Lib = sample_lib, Now = now, Coins = (\<lambda>_ _. False), KeyOrder = id, ConnOk = (\<lambda>_. True),
     Faults = no_faults, NewId = ''id''\<rparr>"

definition sample_server :: Server where
  "sample_server = blank_server (GetDefaultConfig ''/d'') [] New"

end
