(* ===== verification/Handlers.thy ===== *)
theory Handlers
  imports Server
begin

text \<open>
  The command handlers of \<^verbatim>\<open>server/commad_handlers.go\<close>, one definition each, in groups: strings, lists,
  sorted sets, places, transactions, channels, replication and administration. A handler takes the request, the
  calling client and the state and gives a reply or an error with the new state; \<open>Panic\<close> is an index or slice
  out of range, which ends the process. \<^verbatim>\<open>BLPOP\<close> can leave its client waiting on a channel.
\<close>

datatype reply = Bytes string | Wait BLPopWaiter f64

type_synonym handler = "env \<Rightarrow> Request \<Rightarrow> int \<Rightarrow> Server \<Rightarrow> reply go_result \<times> Server"

abbreviation reply_bytes :: "string \<Rightarrow> Server \<Rightarrow> reply go_result \<times> Server" where
  "reply_bytes b s \<equiv> (Ret (Bytes b), s)"

abbreviation simple_err :: "string \<Rightarrow> string \<Rightarrow> Server \<Rightarrow> reply go_result \<times> Server" where
  "simple_err t m s \<equiv> (Err (ESimple t m), s)"

definition OK :: string where "OK = SimpleString_Marshal ''OK''"

definition set_DB :: "Store \<Rightarrow> Server \<Rightarrow> Server" where
  "set_DB d s = s\<lparr>DB := d\<rparr>"

subsection \<open>Strings\<close>

text \<open>The loop of \<^verbatim>\<open>SET\<close> over its options. A duration is a multiple of a nanosecond in 64 bits, so the product
  wraps.\<close>

fun set_opts :: "env \<Rightarrow> int \<Rightarrow> string list \<Rightarrow> int go_result" where
  "set_opts env expireAt [] = Ret expireAt"
| "set_opts env expireAt (a # rest) =
     (let argument = ToLower (Lib env) a
      in if argument = ''px'' then
           (case rest of
              [] \<Rightarrow> Panic
            | v # rest' \<Rightarrow>
                (case Atoi v of
                   None \<Rightarrow> Err (ESimple ERR (''Expecting a integer for expire got '' @ v))
                 | Some timeInMilli \<Rightarrow> set_opts env (Now env + wrap64 (1000000 * timeInMilli)) rest'))
         else if argument = ''ex'' then
           (case rest of
              [] \<Rightarrow> Panic
            | v # rest' \<Rightarrow>
                (case Atoi v of
                   None \<Rightarrow> Err (ESimple ERR (''Expecting a integer for expire got '' @ v))
                 | Some timeInSec \<Rightarrow> set_opts env (Now env + wrap64 (1000000000 * timeInSec)) rest'))
         else Err (ESimple ERR (''unknown Optional parameter  '' @ apostrophe @ a @ apostrophe)))"

definition HandleSet :: handler where
  "HandleSet env req c s =
     (case Arguments req of
        key # val # opts \<Rightarrow>
          (case set_opts env zero_time opts of
             Ret expireAt \<Rightarrow>
               reply_bytes OK
                 (set_DB (Set (DB s) key \<lparr>EType = EntryTypeString, EValue = VString val, ExpireAt = expireAt\<rparr>) s)
           | Err e \<Rightarrow> (Err e, s)
           | Panic \<Rightarrow> (Panic, s))
      | _ \<Rightarrow> (Panic, s))"

definition expired :: "env \<Rightarrow> Entry \<Rightarrow> bool" where
  "expired env e \<longleftrightarrow> ExpireAt e \<noteq> zero_time \<and> ExpireAt e < Now env"

definition HandleGet :: handler where
  "HandleGet env req c s =
     (case Arguments req of
        key # _ \<Rightarrow>
          (case Get (DB s) key of
             None \<Rightarrow> reply_bytes NullBulkString_Marshal s
           | Some e \<Rightarrow>
               (if expired env e then reply_bytes NullBulkString_Marshal (set_DB (Delete_key (DB s) key) s)
                else reply_bytes (BulkString_Marshal (case EValue e of VString v \<Rightarrow> v | _ \<Rightarrow> [])) s))
      | _ \<Rightarrow> (Panic, s))"

definition incr_fn :: "Entry option \<Rightarrow> (Entry option \<times> unit) go_result" where
  "incr_fn e =
     (case e of
        None \<Rightarrow> Ret (Some \<lparr>EType = EntryTypeString, EValue = VString ''1'', ExpireAt = zero_time\<rparr>, ())
      | Some en \<Rightarrow>
          (if EType en \<noteq> EntryTypeString then Err (ESimple ERR ErrorMessageNotInteger)
           else (case EValue en of
                   VString v \<Rightarrow>
                     (case Atoi v of
                        None \<Rightarrow> Err (ESimple ERR ErrorMessageNotInteger)
                      | Some n \<Rightarrow> Ret (Some (en\<lparr>EValue := VString (Itoa (wrap64 (n + 1)))\<rparr>), ()))
                 | _ \<Rightarrow> Err (ESimple ERR ErrorMessageNotInteger))))"

definition HandleINCR :: handler where
  "HandleINCR env req c s =
     (case Arguments req of
        key # _ \<Rightarrow>
          (case Update (DB s) key incr_fn of
             (Ret (Some e, u), d) \<Rightarrow>
               (let v = (case EValue e of VString v \<Rightarrow> v | _ \<Rightarrow> []);
                    n = (case Atoi v of None \<Rightarrow> 0 | Some n \<Rightarrow> n)
                in reply_bytes (Integer_Marshal n) (set_DB d s))
           | (Ret (None, u), d) \<Rightarrow> (Panic, set_DB d s)
           | (Err e, d) \<Rightarrow> (Err e, set_DB d s)
           | (Panic, d) \<Rightarrow> (Panic, set_DB d s))
      | _ \<Rightarrow> (Panic, s))"

definition HandleKeys :: handler where
  "HandleKeys env req c s =
     (case Arguments req of
        pat # _ \<Rightarrow>
          (if pat \<noteq> ''*'' then (Err (EText ''we do not support regex/pattern other then *''), s)
           else reply_bytes (Array_Marshal (map BulkString_Marshal (Keys (KeyOrder env) (DB s)))) s)
      | _ \<Rightarrow> (Panic, s))"

subsection \<open>Lists\<close>

definition push_reply :: "Entry go_result \<times> Store \<Rightarrow> Server \<Rightarrow> reply go_result \<times> Server" where
  "push_reply r s =
     (case r of
        (Ret e, d) \<Rightarrow>
          (case EValue e of
             VList vs \<Rightarrow> reply_bytes (Integer_Marshal (int (length vs))) (set_DB d s)
           | _ \<Rightarrow> (Panic, set_DB d s))
      | (Err e, d) \<Rightarrow> (Err e, set_DB d s)
      | (Panic, d) \<Rightarrow> (Panic, set_DB d s))"

definition HandleRPush :: handler where
  "HandleRPush env req c s =
     (case Arguments req of
        key # vs \<Rightarrow> push_reply (ListPush (DB s) key vs Right) s
      | _ \<Rightarrow> (Panic, s))"

definition HandleLPush :: handler where
  "HandleLPush env req c s =
     (case Arguments req of
        key # vs \<Rightarrow> push_reply (ListPush (DB s) key vs Left) s
      | _ \<Rightarrow> (Panic, s))"

definition normalizeIndex :: "int \<Rightarrow> int \<Rightarrow> int" where
  "normalizeIndex idx listLen =
     (let idx = (if idx < 0 then (if listLen + idx < 0 then 0 else listLen + idx) else idx)
      in if listLen - 1 < idx then listLen - 1 else idx)"

text \<open>The elements \<^verbatim>\<open>xs[i]\<close> for \<open>i\<close> from \<open>start\<close> to \<open>stop\<close>: \<open>None\<close> when one of the indices is out of range.\<close>

definition index_range :: "int \<Rightarrow> int \<Rightarrow> 'a list \<Rightarrow> 'a list option" where
  "index_range start stop xs =
     (if stop < start then Some []
      else if start < 0 \<or> int (length xs) \<le> stop then None
      else Some (take (nat (stop - start + 1)) (drop (nat start) xs)))"

definition HandleLRange :: handler where
  "HandleLRange env req c s =
     (case Arguments req of
        key # a # b # _ \<Rightarrow>
          (case (Atoi a, Atoi b) of
             (Some startIdx, Some endIdx) \<Rightarrow>
               (case Get (DB s) key of
                  None \<Rightarrow> reply_bytes (Array_Marshal []) s
                | Some e \<Rightarrow>
                    (if EType e \<noteq> EntryTypeList then reply_bytes ErrWrongType s
                     else (case EValue e of
                         VList existing \<Rightarrow>
                           (let listLen = int (length existing)
                            in if listLen \<le> startIdx then reply_bytes (Array_Marshal []) s
                               else (let startIdx = normalizeIndex startIdx listLen;
                                         endIdx = normalizeIndex endIdx listLen
                                     in if endIdx < startIdx then reply_bytes (Array_Marshal []) s
                                        else (case index_range startIdx endIdx existing of
                                            None \<Rightarrow> (Panic, s)
                                          | Some vs \<Rightarrow> reply_bytes (Array_Marshal (map BulkString_Marshal vs)) s)))
                       | _ \<Rightarrow> (Err (EText ErrorMessageStringTypeCaste), s))))
           | _ \<Rightarrow> reply_bytes ErrNotInteger s)
      | _ \<Rightarrow> (Panic, s))"

definition HandleLLen :: handler where
  "HandleLLen env req c s =
     (case Arguments req of
        key # _ \<Rightarrow>
          (case Get (DB s) key of
             None \<Rightarrow> reply_bytes (Integer_Marshal 0) s
           | Some e \<Rightarrow>
               (if EType e \<noteq> EntryTypeList then simple_err WRONGTYPE ErrorMessageWrongType s
                else (case EValue e of
                        VList vs \<Rightarrow> reply_bytes (Integer_Marshal (int (length vs))) s
                      | _ \<Rightarrow> (Err (EText ErrorMessageStringTypeCaste), s))))
      | _ \<Rightarrow> (Panic, s))"

definition lpop_fn :: "int \<Rightarrow> Entry option \<Rightarrow> (Entry option \<times> string list) go_result" where
  "lpop_fn count e =
     (case e of
        None \<Rightarrow> Ret (None, [])
      | Some en \<Rightarrow>
          (case EValue en of
             VList vs \<Rightarrow>
               (if vs = [] then Ret (Some en, [])
                else (let n = (if int (length vs) < count then int (length vs) else count)
                      in case (go_slice 0 n vs, go_slice n (int (length vs)) vs) of
                           (Some popped, Some rest) \<Rightarrow> Ret (Some (en\<lparr>EValue := VList rest\<rparr>), popped)
                         | _ \<Rightarrow> Panic))
           | _ \<Rightarrow> Err (EText ErrorMessageStringTypeCaste)))"

definition HandleLPop :: handler where
  "HandleLPop env req c s =
     (case Arguments req of
        key # rest \<Rightarrow>
          (case (case rest of [] \<Rightarrow> Some 1 | n # _ \<Rightarrow> Atoi n) of
             None \<Rightarrow> simple_err [] [] s
           | Some count \<Rightarrow>
               (case Update (DB s) key (lpop_fn count) of
                  (Ret (e, popped), d) \<Rightarrow>
                    (case popped of
                       [] \<Rightarrow> reply_bytes NullBulkString_Marshal (set_DB d s)
                     | v # vs \<Rightarrow>
                         (if rest = [] then reply_bytes (BulkString_Marshal v) (set_DB d s)
                          else reply_bytes (Array_Marshal (map BulkString_Marshal popped)) (set_DB d s)))
                | (Err e, d) \<Rightarrow> (Err e, set_DB d s)
                | (Panic, d) \<Rightarrow> (Panic, set_DB d s)))
      | _ \<Rightarrow> (Panic, s))"

definition blpop_reply :: "BLPopdata \<Rightarrow> string" where
  "blpop_reply d =
     (if d = \<lparr>BKey = [], BValue = []\<rparr> then NullArray_Marshal
      else Array_Marshal [BulkString_Marshal (BKey d), BulkString_Marshal (BValue d)])"

definition HandleBLPop :: handler where
  "HandleBLPop env req c s =
     (case Arguments req of
        key # timeoutArg # _ \<Rightarrow>
          (case ParseFloat32 (Lib env) timeoutArg of
             None \<Rightarrow> simple_err WRONGTYPE ErrorMessageNotNumber s
           | Some timeoutInSec \<Rightarrow>
               (case BLPOP (DB s) key of
                  (Ret (Popped d), db) \<Rightarrow> reply_bytes (blpop_reply d) (set_DB db s)
                | (Ret (Waiting w), db) \<Rightarrow> (Ret (Wait w timeoutInSec), set_DB db s)
                | (Err e, db) \<Rightarrow> (Err e, set_DB db s)
                | (Panic, db) \<Rightarrow> (Panic, set_DB db s)))
      | _ \<Rightarrow> (Panic, s))"

subsection \<open>Sorted sets\<close>

fun zadd_pairs :: "golib \<Rightarrow> string list \<Rightarrow> elem list go_result" where
  "zadd_pairs lib [] = Ret []"
| "zadd_pairs lib [a] = Panic"
| "zadd_pairs lib (a # m # rest) =
     (case ParseFloat64 lib a of
        None \<Rightarrow> Err (ESimple ERR ErrorMessageNotFloat)
      | Some score \<Rightarrow> bind_go (zadd_pairs lib rest) (\<lambda>ps. Ret ((m, score) # ps)))"

definition HandleZAdd :: handler where
  "HandleZAdd env req c s =
     (case Arguments req of
        setKey # args \<Rightarrow>
          (if length args mod 2 \<noteq> 0 then simple_err ERR (ErrWrongArgCount (Command req)) s
           else (case zadd_pairs (Lib env) args of
               Ret entries \<Rightarrow>
                 (case ZAdd (Coins env) (DB s) setKey entries of
                    (Ret membersAdded, d) \<Rightarrow> reply_bytes (Integer_Marshal membersAdded) (set_DB d s)
                  | (Err e, d) \<Rightarrow> (Err e, set_DB d s)
                  | (Panic, d) \<Rightarrow> (Panic, set_DB d s))
             | Err e \<Rightarrow> (Err e, s)
             | Panic \<Rightarrow> (Panic, s)))
      | _ \<Rightarrow> (Panic, s))"

text \<open>The lookup every reading command of a sorted set starts with: the key may be absent, hold another type
  (with the error type the command reports), or hold a sorted set.\<close>

definition get_zset :: "Server \<Rightarrow> string \<Rightarrow> string \<Rightarrow> ZSet option go_result" where
  "get_zset s key errType =
     (case Get (DB s) key of
        None \<Rightarrow> Ret None
      | Some e \<Rightarrow>
          (if EType e \<noteq> EntryTypeSortedSet then Err (ESimple errType ErrorMessageWrongType)
           else (case EValue e of VZSet z \<Rightarrow> Ret (Some z) | _ \<Rightarrow> Err (EText ErrorMessageZsetTypeCaste))))"

definition HandleZRank :: handler where
  "HandleZRank env req c s =
     (case Arguments req of
        setKey # member # _ \<Rightarrow>
          (case get_zset s setKey ERR of
             Ret None \<Rightarrow> reply_bytes NullBulkString_Marshal s
           | Ret (Some zset) \<Rightarrow>
               (case map_of (HashMap zset) member of
                  None \<Rightarrow> reply_bytes NullBulkString_Marshal s
                | Some score \<Rightarrow>
                    (case GetRank (ZSkipList zset) member score of
                       None \<Rightarrow> (Panic, s)
                     | Some rank \<Rightarrow> reply_bytes (Integer_Marshal (rank - 1)) s))
           | Err e \<Rightarrow> (Err e, s)
           | Panic \<Rightarrow> (Panic, s))
      | _ \<Rightarrow> (Panic, s))"

definition HandleZRange :: handler where
  "HandleZRange env req c s =
     (case Arguments req of
        setKey # a # b # _ \<Rightarrow>
          (case (Atoi a, Atoi b) of
             (Some startIdx, Some endIdx) \<Rightarrow>
               (case get_zset s setKey WRONGTYPE of
                  Ret None \<Rightarrow> reply_bytes (Array_Marshal []) s
                | Ret (Some zset) \<Rightarrow>
                    (let len = int (length (HashMap zset));
                         startIdx = normalizeIndex startIdx len;
                         endIdx = normalizeIndex endIdx len
                     in if endIdx < startIdx then reply_bytes (Array_Marshal []) s
                        else (case sl_Range (ZSkipList zset) (startIdx + 1) (endIdx + 1) of
                            None \<Rightarrow> (Panic, s)
                          | Some memberList \<Rightarrow>
                              reply_bytes (Array_Marshal (map (\<lambda>n. BulkString_Marshal (Member n)) memberList)) s))
                | Err e \<Rightarrow> (Err e, s)
                | Panic \<Rightarrow> (Panic, s))
           | _ \<Rightarrow> simple_err ERR ErrorMessageNotInteger s)
      | _ \<Rightarrow> (Panic, s))"

definition zrem_fn :: "string \<Rightarrow> Entry option \<Rightarrow> (Entry option \<times> int) go_result" where
  "zrem_fn member e =
     (case e of
        None \<Rightarrow> Ret (None, 0)
      | Some en \<Rightarrow>
          (if EType en \<noteq> EntryTypeSortedSet then Err (ESimple ERR ErrorMessageWrongType)
           else (case EValue en of
                   VZSet zset \<Rightarrow>
                     (case map_of (HashMap zset) member of
                        None \<Rightarrow> Ret (Some en, 0)
                      | Some score \<Rightarrow>
                          (case Delete (ZSkipList zset) member score of
                             None \<Rightarrow> Panic
                           | Some (found, sl) \<Rightarrow>
                               Ret (Some (en\<lparr>EValue := VZSet (zset\<lparr>HashMap := gm_del member (HashMap zset),
                                                                 ZSkipList := sl\<rparr>)\<rparr>), 1)))
                 | _ \<Rightarrow> Err (EText ErrorMessageZsetTypeCaste))))"

definition HandleZRem :: handler where
  "HandleZRem env req c s =
     (case Arguments req of
        setKey # member # _ \<Rightarrow>
          (case Update (DB s) setKey (zrem_fn member) of
             (Ret (e, removed), d) \<Rightarrow> reply_bytes (Integer_Marshal removed) (set_DB d s)
           | (Err e, d) \<Rightarrow> (Err e, set_DB d s)
           | (Panic, d) \<Rightarrow> (Panic, set_DB d s))
      | _ \<Rightarrow> (Panic, s))"

definition HandleZScore :: handler where
  "HandleZScore env req c s =
     (case Arguments req of
        setKey # member # _ \<Rightarrow>
          (case get_zset s setKey ERR of
             Ret None \<Rightarrow> reply_bytes NullBulkString_Marshal s
           | Ret (Some zset) \<Rightarrow>
               (case map_of (HashMap zset) member of
                  None \<Rightarrow> reply_bytes NullBulkString_Marshal s
                | Some score \<Rightarrow> reply_bytes (BulkString_Marshal (FormatFloat (Lib env) score)) s)
           | Err e \<Rightarrow> (Err e, s)
           | Panic \<Rightarrow> (Panic, s))
      | _ \<Rightarrow> (Panic, s))"

definition HandleZCard :: handler where
  "HandleZCard env req c s =
     (case Arguments req of
        setKey # _ \<Rightarrow>
          (case get_zset s setKey WRONGTYPE of
             Ret None \<Rightarrow> reply_bytes (Integer_Marshal 0) s
           | Ret (Some zset) \<Rightarrow> reply_bytes (Integer_Marshal (int (length (HashMap zset)))) s
           | Err e \<Rightarrow> (Err e, s)
           | Panic \<Rightarrow> (Panic, s))
      | _ \<Rightarrow> (Panic, s))"

subsection \<open>Places\<close>

definition HandleGeoAdd :: handler where
  "HandleGeoAdd env req c s =
     (case Arguments req of
        zSetKey # lon # lat # rest \<Rightarrow>
          (case (ParseFloat64 (Lib env) lon, ParseFloat64 (Lib env) lat) of
             (Some longitude, Some latitude) \<Rightarrow>
               (case rest of
                  [] \<Rightarrow> (Panic, s)
                | member # _ \<Rightarrow>
                    (if \<not> ValidateCoordinates longitude latitude then
                       simple_err ERR (''invalid longitude,latitude pair '' @ FormatFixed (Lib env) longitude @
                                       '' '' @ FormatFixed (Lib env) latitude) s
                     else (let mortonCode = Encode (Lib env) \<lparr>Latitude = latitude, Longitude = longitude\<rparr>
                           in case ZAdd (Coins env) (DB s) zSetKey [(member, f64_of_uint (uint mortonCode))] of
                                (Ret memberAdded, d) \<Rightarrow> reply_bytes (Integer_Marshal memberAdded) (set_DB d s)
                              | (Err e, d) \<Rightarrow> (Err e, set_DB d s)
                              | (Panic, d) \<Rightarrow> (Panic, set_DB d s))))
           | _ \<Rightarrow> simple_err ERR ErrorMessageNotFloat s)
      | _ \<Rightarrow> (Panic, s))"

definition place :: "golib \<Rightarrow> f64 \<Rightarrow> Coordinates" where
  "place lib score = decode (word_of_int (f64_to_uint lib 64 score))"

definition HandleGeoPos :: handler where
  "HandleGeoPos env req c s =
     (case Arguments req of
        key # places \<Rightarrow>
          (case get_zset s key ERR of
             Ret None \<Rightarrow> reply_bytes (Array_Marshal (map (\<lambda>_. NullArray_Marshal) places)) s
           | Ret (Some zset) \<Rightarrow>
               reply_bytes (Array_Marshal (map (\<lambda>p.
                   case map_of (HashMap zset) p of
                     None \<Rightarrow> NullArray_Marshal
                   | Some score \<Rightarrow>
                       (let coordinate = place (Lib env) score
                        in Array_Marshal [BulkString_Marshal (FormatFloat (Lib env) (Longitude coordinate)),
                                          BulkString_Marshal (FormatFloat (Lib env) (Latitude coordinate))])) places)) s
           | Err e \<Rightarrow> (Err e, s)
           | Panic \<Rightarrow> (Panic, s))
      | _ \<Rightarrow> (Panic, s))"

definition HandleGeoDist :: handler where
  "HandleGeoDist env req c s =
     (case Arguments req of
        key # p1 # p2 # _ \<Rightarrow>
          (case get_zset s key ERR of
             Ret None \<Rightarrow> reply_bytes NullBulkString_Marshal s
           | Ret (Some zset) \<Rightarrow>
               (case (map_of (HashMap zset) p1, map_of (HashMap zset) p2) of
                  (Some score1, Some score2) \<Rightarrow>
                    reply_bytes (BulkString_Marshal (FormatFloat (Lib env)
                      (GetDistance (Lib env) (place (Lib env) score1) (place (Lib env) score2)))) s
                | _ \<Rightarrow> reply_bytes NullBulkString_Marshal s)
           | Err e \<Rightarrow> (Err e, s)
           | Panic \<Rightarrow> (Panic, s))
      | _ \<Rightarrow> (Panic, s))"

definition GetSearchRangeInMeter :: "f64 \<Rightarrow> string \<Rightarrow> f64" where
  "GetSearchRangeInMeter searchRange unit =
     (if unit = ''m'' then searchRange
      else if unit = ''km'' then f64_mul searchRange (f64_of_uint 1000)
      else if unit = ''mi'' then f64_mul searchRange (f64_of_rat False 1609.344)
      else if unit = ''ft'' then f64_mul searchRange (f64_of_rat False 0.3048)
      else searchRange)"

definition HandleGeoSearch :: handler where
  "HandleGeoSearch env req c s =
     (case Arguments req of
        key # src # lon # lat # srch # rng # unit # _ \<Rightarrow>
          (let lib = Lib env
           in case (ParseFloat64 lib lon, ParseFloat64 lib lat) of
                (Some longitude, Some latitude) \<Rightarrow>
                  (case ParseFloat64 lib rng of
                     None \<Rightarrow> simple_err ERR ErrorMessageNotInteger s
                   | Some range0 \<Rightarrow>
                       (if ToLower lib src \<noteq> ''fromlonlat'' then
                          simple_err ERR ''we only support fromlonlat sourceType iin search queries'' s
                        else if ToLower lib srch \<noteq> ''byradius'' then
                          simple_err ERR ''we only support byradius search type in search queries'' s
                        else (let searchRange = GetSearchRangeInMeter range0 (ToLower lib unit)
                              in case get_zset s key WRONGTYPE of
                                   Ret None \<Rightarrow> reply_bytes (Array_Marshal []) s
                                 | Ret (Some zset) \<Rightarrow>
                                     (let near = filter (\<lambda>m.
                                          case map_of (HashMap zset) m of
                                            None \<Rightarrow> False
                                          | Some score \<Rightarrow>
                                              f64_le (GetDistance lib (place lib score)
                                                        \<lparr>Latitude = latitude, Longitude = longitude\<rparr>) searchRange)
                                          (KeyOrder env (map fst (HashMap zset)))
                                      in reply_bytes (Array_Marshal (map BulkString_Marshal near)) s)
                                 | Err e \<Rightarrow> (Err e, s)
                                 | Panic \<Rightarrow> (Panic, s))))
              | _ \<Rightarrow> simple_err ERR ErrorMessageNotFloat s)
      | _ \<Rightarrow> (Panic, s))"

subsection \<open>Transactions\<close>

definition HandleUnwatch :: handler where
  "HandleUnwatch env req c s = reply_bytes OK (UnwatchAll env c s)"

definition watch_key :: "int \<Rightarrow> string \<Rightarrow> Server \<Rightarrow> Server" where
  "watch_key c key s =
     (let x = client s c;
          x' = (if map_of (WatchedKeys x) key = Some True then x
                else x\<lparr>WatchedKeys := gm_set key True (WatchedKeys x)\<rparr>);
          watcherList = (case map_of (watcherClients s) key of None \<Rightarrow> [] | Some ws \<Rightarrow> ws);
          watcherList' = (if c \<in> set watcherList then watcherList else watcherList @ [c])
      in (set_client c x' s)\<lparr>watcherClients := gm_set key watcherList' (watcherClients s)\<rparr>)"

definition HandleWatch :: handler where
  "HandleWatch env req c s =
     (if Mode (client s c) = ClientModeTransaction then simple_err ERR ''WATCH inside MULTI is not allowed'' s
      else reply_bytes OK (fold (watch_key c) (Arguments req) s))"

definition HandleDiscard :: handler where
  "HandleDiscard env req c s =
     (if Mode (client s c) \<noteq> ClientModeTransaction then simple_err ERR ''DISCARD without MULTI'' s
      else reply_bytes OK (ResetTransactionState env c s))"

definition HandleMulti :: handler where
  "HandleMulti env req c s =
     (if Mode (client s c) = ClientModeTransaction then simple_err ERR ''MULTI calls can not be nested'' s
      else reply_bytes OK (set_client c ((client s c)\<lparr>Mode := ClientModeTransaction\<rparr>) s))"

subsection \<open>Channels\<close>

definition HandleSubscribe :: handler where
  "HandleSubscribe env req c s =
     (case Arguments req of
        channel # _ \<Rightarrow>
          (let x = client s c;
               x1 = (if map_of (SubscribedChannels x) channel = Some True then x
                     else x\<lparr>SubscribedChannels := gm_set channel True (SubscribedChannels x)\<rparr>);
               subs = (case map_of (subscribersMetaData s) channel of None \<Rightarrow> [] | Some ids \<Rightarrow> ids);
               s1 = s\<lparr>subscribersMetaData := gm_set channel (subs @ [c]) (subscribersMetaData s)\<rparr>;
               x2 = x1\<lparr>Mode := ClientModeSubscribed\<rparr>
           in reply_bytes (Array_Marshal [BulkString_Marshal ''subscribe'', BulkString_Marshal channel,
                             Integer_Marshal (int (length (SubscribedChannels x2)))]) (set_client c x2 s1))
      | _ \<Rightarrow> (Panic, s))"

definition HandleUnsubscribe :: handler where
  "HandleUnsubscribe env req c s =
     (case Arguments req of
        channel # _ \<Rightarrow>
          (let x = client s c
           in if map_of (SubscribedChannels x) channel \<noteq> Some True then
                reply_bytes (Array_Marshal [BulkString_Marshal ''unsubscribe'', BulkString_Marshal channel,
                               Integer_Marshal 0]) s
              else (let x1 = x\<lparr>SubscribedChannels := gm_del channel (SubscribedChannels x)\<rparr>;
                        s1 = set_client c x1 (s\<lparr>subscribersMetaData := remove_id c channel (subscribersMetaData s)\<rparr>)
                    in reply_bytes (Array_Marshal [BulkString_Marshal ''unsubscribe'', BulkString_Marshal channel,
                                      Integer_Marshal (int (length (SubscribedChannels x1)))]) s1))
      | _ \<Rightarrow> (Panic, s))"

definition publish_message :: "string \<Rightarrow> string \<Rightarrow> string" where
  "publish_message channel message =
     Array_Marshal [BulkString_Marshal ''message'', BulkString_Marshal channel, BulkString_Marshal message]"

definition recipients_of :: "Server \<Rightarrow> string \<Rightarrow> int list" where
  "recipients_of s channel = filter (\<lambda>i. i \<in> set (clients s))
     (case map_of (subscribersMetaData s) channel of None \<Rightarrow> [] | Some ids \<Rightarrow> ids)"

fun publish_all :: "env \<Rightarrow> string \<Rightarrow> int list \<Rightarrow> Server \<Rightarrow> unit go_result \<times> Server" where
  "publish_all env payload [] s = (Ret (), s)"
| "publish_all env payload (i # is) s =
     (case conn_write env (Conn (client s i)) payload s of
        (True, s') \<Rightarrow> publish_all env payload is s'
      | (False, s') \<Rightarrow> (Err (EIo (IoFailure ''write error'')), s'))"

definition HandlePublish :: handler where
  "HandlePublish env req c s =
     (case Arguments req of
        channel # message # _ \<Rightarrow>
          (let recipients = recipients_of s channel
           in case publish_all env (publish_message channel message) recipients s of
                (Ret u, s') \<Rightarrow> reply_bytes (Integer_Marshal (int (length recipients))) s'
              | (Err e, s') \<Rightarrow> (Err e, s')
              | (Panic, s') \<Rightarrow> (Panic, s'))
      | _ \<Rightarrow> (Panic, s))"

subsection \<open>Replication and administration\<close>

definition HandlePSync :: handler where
  "HandlePSync env req c s =
     reply_bytes (SimpleString_Marshal (''FULLRESYNC '' @ ReplicationId (Node s) @ '' '' @
                    Itoa (ReplicationOffset (Node s)))) s"

definition HandleReplConf :: handler where
  "HandleReplConf env req c s = reply_bytes OK s"

definition HandleWait :: handler where
  "HandleWait env req c s =
     (case Arguments req of
        a # _ \<Rightarrow>
          (case Atoi a of
             None \<Rightarrow> simple_err ERR ErrorMessageNotInteger s
           | Some replicas \<Rightarrow>
               (let replicaCount = int (length (replicaNodes (Node s)))
                in if replicas < 0 then simple_err ERR ErrorMessageNotInteger s
                   else if replicaCount = 0 then reply_bytes (Integer_Marshal 0) s
                   else reply_bytes (Integer_Marshal (if replicaCount < replicas then replicaCount else replicas)) s))
      | _ \<Rightarrow> (Panic, s))"

definition HandleInfo :: handler where
  "HandleInfo env req c s =
     (let role = (if Role (Node s) = NodeRoleReplica then ''slave'' else Role (Node s))
      in reply_bytes (BulkString_Marshal (''role:'' @ role @ [LF] @ ''master_replid:'' @ ReplicationId (Node s) @ [LF] @
           ''master_repl_offset:'' @ Itoa (ReplicationOffset (Node s)) @ [LF])) s)"

text \<open>\<^verbatim>\<open>getConfig\<close> walks over the fields of the configuration and takes the first whose tag is the key.\<close>

definition config_fields :: "Config \<Rightarrow> (string \<times> string) list" where
  "config_fields g =
     [(''port'', Itoa (Port g)), (''bind'', Bind g), (''timeout'', Itoa (Timeout g)),
      (''-'', if KeepAlive g then ''true'' else ''false''), (''tcp-keepalive'', Itoa (KeepAliveTimeout g)),
      (''dir'', Dir g), (''dbfilename'', Dbfilename g), (''appendonly'', Appendonly g),
      (''appenddirname'', Appenddirname g), (''appendfilename'', Appendfilename g),
      (''appendfsync'', Appendfsync g), (''-'', Replicaof g)]"

definition getConfig :: "golib \<Rightarrow> Config \<Rightarrow> string \<Rightarrow> string option" where
  "getConfig lib g key = map_of (config_fields g) (ToLower lib key)"

definition HandleConfig :: handler where
  "HandleConfig env req c s =
     (case Arguments req of
        sub # k # _ \<Rightarrow>
          (if ToLower (Lib env) sub \<noteq> ''get'' then (Err (EText ''invalid parameter for command config''), s)
           else (let configKey = ToLower (Lib env) k
                 in case getConfig (Lib env) (Cfg s) configKey of
                      None \<Rightarrow> reply_bytes (Array_Marshal []) s
                    | Some configValue \<Rightarrow>
                        reply_bytes (Array_Marshal [BulkString_Marshal configKey, BulkString_Marshal configValue]) s))
      | _ \<Rightarrow> (Panic, s))"

definition HandlePing :: handler where
  "HandlePing env req c s =
     (if Mode (client s c) = ClientModeSubscribed
      then reply_bytes (Array_Marshal [BulkString_Marshal ''pong'', BulkString_Marshal []]) s
      else reply_bytes (SimpleString_Marshal ''PONG'') s)"

definition HandleEcho :: handler where
  "HandleEcho env req c s =
     (case Arguments req of
        a # _ \<Rightarrow> reply_bytes (BulkString_Marshal a) s
      | _ \<Rightarrow> (Panic, s))"

end
