(* ===== verification/Dispatch.thy ===== *)
theory Dispatch
  imports Handlers
begin

text \<open>
  The command table and \<^verbatim>\<open>Execute\<close> of \<^verbatim>\<open>server/server.go\<close>: unknown commands, argument counts, a replica that is
  still loading, queueing inside a transaction, the handler, and the flags of the clients that watch the key. A
  \<^verbatim>\<open>BLPOP\<close> that has to wait splits \<^verbatim>\<open>Execute\<close> in two halves, \<open>Execute_start\<close> up to the wait and \<open>Execute_finish\<close> after it. Where
  no other client can run meanwhile (inside a transaction, or while a log is replayed) the wait ends by its
  timeout or never, and \<open>Execute\<close> puts the halves together with that.
\<close>

subsection \<open>Commands\<close>

definition ECHO :: string where "ECHO = ''echo''"
definition SET :: string where "SET = ''set''"
definition GET :: string where "GET = ''get''"
definition PING :: string where "PING = ''ping''"
definition CONFIG :: string where "CONFIG = ''config''"
definition KEYS :: string where "KEYS = ''keys''"
definition RPUSH :: string where "RPUSH = ''rpush''"
definition LPUSH :: string where "LPUSH = ''lpush''"
definition LPOP :: string where "LPOP = ''lpop''"
definition LLEN :: string where "LLEN = ''llen''"
definition cmd_BLPOP :: string where "cmd_BLPOP = ''blpop''"
definition LRANGE :: string where "LRANGE = ''lrange''"
definition INCR :: string where "INCR = ''incr''"
definition MULTI :: string where "MULTI = ''multi''"
definition DISCARD :: string where "DISCARD = ''discard''"
definition EXEC :: string where "EXEC = ''exec''"
definition WATCH :: string where "WATCH = ''watch''"
definition UNWATCH :: string where "UNWATCH = ''unwatch''"
definition SUBSCRIBE :: string where "SUBSCRIBE = ''subscribe''"
definition UNSUBSCRIBE :: string where "UNSUBSCRIBE = ''unsubscribe''"
definition PSUBSCRIBE :: string where "PSUBSCRIBE = ''psubscribe''"
definition PUNSUBSCRIBE :: string where "PUNSUBSCRIBE = ''punsubscribe''"
definition QUIT :: string where "QUIT = ''quit''"
definition PUBLISH :: string where "PUBLISH = ''publish''"
definition ZADD :: string where "ZADD = ''zadd''"
definition ZCARD :: string where "ZCARD = ''zcard''"
definition ZRANGE :: string where "ZRANGE = ''zrange''"
definition ZRANK :: string where "ZRANK = ''zrank''"
definition ZREM :: string where "ZREM = ''zrem''"
definition ZSCORE :: string where "ZSCORE = ''zscore''"
definition GEOADD :: string where "GEOADD = ''geoadd''"
definition GEOPOS :: string where "GEOPOS = ''geopos''"
definition GEODIST :: string where "GEODIST = ''geodist''"
definition GEOSEARCH :: string where "GEOSEARCH = ''geosearch''"
definition INFO :: string where "INFO = ''info''"
definition REPLCONF :: string where "REPLCONF = ''replconf''"
definition PSYNC :: string where "PSYNC = ''psync''"
definition WAIT :: string where "WAIT = ''wait''"

lemmas command_names = ECHO_def SET_def GET_def PING_def CONFIG_def KEYS_def RPUSH_def LPUSH_def LPOP_def
  LLEN_def cmd_BLPOP_def LRANGE_def INCR_def MULTI_def DISCARD_def EXEC_def WATCH_def UNWATCH_def SUBSCRIBE_def
  UNSUBSCRIBE_def PSUBSCRIBE_def PUNSUBSCRIBE_def QUIT_def PUBLISH_def ZADD_def ZCARD_def ZRANGE_def ZRANK_def
  ZREM_def ZSCORE_def GEOADD_def GEOPOS_def GEODIST_def GEOSEARCH_def INFO_def REPLCONF_def PSYNC_def WAIT_def

definition SubcribedModeCommands :: "string list" where
  "SubcribedModeCommands = [SUBSCRIBE, UNSUBSCRIBE, PSUBSCRIBE, PUNSUBSCRIBE, PING, QUIT]"

definition TransactionalCommands :: "string list" where
  "TransactionalCommands = [MULTI, DISCARD, EXEC, WATCH]"

record CommandEntry =
  Handler :: handler
  MinArgs :: int
  MaxArgs :: int
  IsWrite :: bool

definition command_table :: "(string \<times> CommandEntry) list" where
  "command_table =
    [(ECHO, \<lparr>Handler = HandleEcho, MinArgs = 1, MaxArgs = 1, IsWrite = False\<rparr>),
     (SET, \<lparr>Handler = HandleSet, MinArgs = 2, MaxArgs = -1, IsWrite = True\<rparr>),
     (GET, \<lparr>Handler = HandleGet, MinArgs = 1, MaxArgs = -1, IsWrite = False\<rparr>),
     (PING, \<lparr>Handler = HandlePing, MinArgs = 0, MaxArgs = -1, IsWrite = False\<rparr>),
     (CONFIG, \<lparr>Handler = HandleConfig, MinArgs = 2, MaxArgs = -1, IsWrite = False\<rparr>),
     (KEYS, \<lparr>Handler = HandleKeys, MinArgs = 1, MaxArgs = -1, IsWrite = False\<rparr>),
     (RPUSH, \<lparr>Handler = HandleRPush, MinArgs = 2, MaxArgs = -1, IsWrite = True\<rparr>),
     (LPUSH, \<lparr>Handler = HandleLPush, MinArgs = 2, MaxArgs = -1, IsWrite = True\<rparr>),
     (LRANGE, \<lparr>Handler = HandleLRange, MinArgs = 3, MaxArgs = -1, IsWrite = False\<rparr>),
     (LPOP, \<lparr>Handler = HandleLPop, MinArgs = 1, MaxArgs = 2, IsWrite = True\<rparr>),
     (LLEN, \<lparr>Handler = HandleLLen, MinArgs = 1, MaxArgs = -1, IsWrite = False\<rparr>),
     (cmd_BLPOP, \<lparr>Handler = HandleBLPop, MinArgs = 2, MaxArgs = -1, IsWrite = True\<rparr>),
     (INCR, \<lparr>Handler = HandleINCR, MinArgs = 1, MaxArgs = 1, IsWrite = True\<rparr>),
     (MULTI, \<lparr>Handler = HandleMulti, MinArgs = 0, MaxArgs = 0, IsWrite = False\<rparr>),
     (DISCARD, \<lparr>Handler = HandleDiscard, MinArgs = 0, MaxArgs = 0, IsWrite = False\<rparr>),
     (WATCH, \<lparr>Handler = HandleWatch, MinArgs = 1, MaxArgs = -1, IsWrite = False\<rparr>),
     (UNWATCH, \<lparr>Handler = HandleUnwatch, MinArgs = 0, MaxArgs = 0, IsWrite = False\<rparr>),
     (SUBSCRIBE, \<lparr>Handler = HandleSubscribe, MinArgs = 1, MaxArgs = 1, IsWrite = False\<rparr>),
     (PUBLISH, \<lparr>Handler = HandlePublish, MinArgs = 1, MaxArgs = 2, IsWrite = False\<rparr>),
     (UNSUBSCRIBE, \<lparr>Handler = HandleUnsubscribe, MinArgs = 1, MaxArgs = 1, IsWrite = False\<rparr>),
     (ZADD, \<lparr>Handler = HandleZAdd, MinArgs = 3, MaxArgs = -1, IsWrite = True\<rparr>),
     (ZCARD, \<lparr>Handler = HandleZCard, MinArgs = 1, MaxArgs = 1, IsWrite = False\<rparr>),
     (ZRANGE, \<lparr>Handler = HandleZRange, MinArgs = 3, MaxArgs = 3, IsWrite = False\<rparr>),
     (ZRANK, \<lparr>Handler = HandleZRank, MinArgs = 2, MaxArgs = 2, IsWrite = False\<rparr>),
     (ZSCORE, \<lparr>Handler = HandleZScore, MinArgs = 2, MaxArgs = 2, IsWrite = False\<rparr>),
     (ZREM, \<lparr>Handler = HandleZRem, MinArgs = 2, MaxArgs = 2, IsWrite = True\<rparr>),
     (GEOADD, \<lparr>Handler = HandleGeoAdd, MinArgs = 4, MaxArgs = 4, IsWrite = True\<rparr>),
     (GEOPOS, \<lparr>Handler = HandleGeoPos, MinArgs = 2, MaxArgs = -1, IsWrite = False\<rparr>),
     (GEODIST, \<lparr>Handler = HandleGeoDist, MinArgs = 3, MaxArgs = 3, IsWrite = False\<rparr>),
     (GEOSEARCH, \<lparr>Handler = HandleGeoSearch, MinArgs = 7, MaxArgs = 7, IsWrite = False\<rparr>),
     (INFO, \<lparr>Handler = HandleInfo, MinArgs = 0, MaxArgs = -1, IsWrite = False\<rparr>),
     (REPLCONF, \<lparr>Handler = HandleReplConf, MinArgs = 2, MaxArgs = 2, IsWrite = False\<rparr>),
     (PSYNC, \<lparr>Handler = HandlePSync, MinArgs = 2, MaxArgs = 2, IsWrite = False\<rparr>),
     (WAIT, \<lparr>Handler = HandleWait, MinArgs = 2, MaxArgs = 2, IsWrite = False\<rparr>)]"

definition CommandHandlers :: "string \<Rightarrow> CommandEntry option" where
  "CommandHandlers cmd = map_of command_table cmd"

subsection \<open>Execute\<close>

definition arity_ok :: "CommandEntry \<Rightarrow> string list \<Rightarrow> bool" where
  "arity_ok cmd args \<longleftrightarrow>
     \<not> (int (length args) < MinArgs cmd \<or> (MaxArgs cmd \<noteq> -1 \<and> MaxArgs cmd < int (length args)))"

definition QUEUED :: string where "QUEUED = SimpleString_Marshal ''QUEUED''"

definition enqueue :: "int \<Rightarrow> Request \<Rightarrow> Server \<Rightarrow> Server" where
  "enqueue c req s = set_client c ((client s c)\<lparr>CommandQueue := CommandQueue (client s c) @ [req]\<rparr>) s"

definition Execute_start :: "env \<Rightarrow> Request \<Rightarrow> int \<Rightarrow> Server \<Rightarrow> bool \<times> reply go_result \<times> Server" where
  "Execute_start env req c s =
     (case CommandHandlers (Command req) of
        None \<Rightarrow> (False, simple_err ERR (''unknown command '' @ apostrophe @ Command req @ apostrophe) s)
      | Some cmd \<Rightarrow>
          (if \<not> arity_ok cmd (Arguments req) then
             (False, simple_err ERR (''wrong number of arguments for '' @ apostrophe @ Command req @ apostrophe @ '' command'') s)
           else if Role (Node s) = NodeRoleReplica \<and> \<not> ReplicaReady (Node s) \<and>
                   Command req \<notin> set [INFO, CONFIG, ECHO, PING] then
             (False, simple_err ERR ''LOADING Replica is loading the dataset in memory'' s)
           else if Command req \<notin> set TransactionalCommands \<and> Mode (client s c) = ClientModeTransaction then
             (False, reply_bytes QUEUED (enqueue c req s))
           else (IsWrite cmd, Handler cmd env req c s)))"

definition Execute_finish :: "bool \<Rightarrow> Request \<Rightarrow> string \<Rightarrow> Server \<Rightarrow> string go_result \<times> Server" where
  "Execute_finish write req bytes s =
     (if write then (case Arguments req of [] \<Rightarrow> (Panic, s) | key # _ \<Rightarrow> (Ret bytes, touch key s))
      else (Ret bytes, s))"

definition Execute :: "env \<Rightarrow> Request \<Rightarrow> int \<Rightarrow> Server \<Rightarrow> string go_result \<times> Server" where
  "Execute env req c s =
     (case Execute_start env req c s of
        (write, Ret (Bytes bytes), s') \<Rightarrow> Execute_finish write req bytes s'
      | (write, Ret (Wait w timeout), s') \<Rightarrow>
          (case resolve_timeout timeout (DB s') w of
             None \<Rightarrow> (Panic, s')
           | Some (d, db) \<Rightarrow> Execute_finish write req (blpop_reply d) (set_DB db s'))
      | (write, Err e, s') \<Rightarrow> (Err e, s')
      | (write, Panic, s') \<Rightarrow> (Panic, s'))"

subsection \<open>EXEC\<close>

definition error_bytes :: "go_error \<Rightarrow> string" where
  "error_bytes e = (case as_SimpleError e of Some (t, m) \<Rightarrow> SimpleError_Marshal t m | None \<Rightarrow> ErrGeneric)"

definition ExecuteInTransaction :: "env \<Rightarrow> Request \<Rightarrow> int \<Rightarrow> Server \<Rightarrow> string go_result \<times> Server" where
  "ExecuteInTransaction env req c s =
     (case Execute env req c s of
        (Ret b, s') \<Rightarrow> (Ret b, s')
      | (Err e, s') \<Rightarrow> (Ret (error_bytes e), s')
      | (Panic, s') \<Rightarrow> (Panic, s'))"

text \<open>The loop over the queue collects the replies and what would be appended to the log.\<close>

fun exec_queue :: "env \<Rightarrow> int \<Rightarrow> Request list \<Rightarrow> string list \<Rightarrow> string \<Rightarrow> Server \<Rightarrow> (string list \<times> string) go_result \<times> Server" where
  "exec_queue env c [] replies aofData s = (Ret (replies, aofData), s)"
| "exec_queue env c (req # reqs) replies aofData s =
     (case ExecuteInTransaction env req c s of
        (Ret b, s') \<Rightarrow>
          exec_queue env c reqs (replies @ [b])
            (if Appendonly (Cfg s') = TypeAppendOnlyYes
             then aofData @ Array_Marshal (map BulkString_Marshal (Command req # Arguments req)) else aofData) s'
      | (Err e, s') \<Rightarrow> (Err e, s')
      | (Panic, s') \<Rightarrow> (Panic, s'))"

text \<open>The log is a nil interface unless the node started as a master with the log switched on; calling a method
  of a nil interface panics. What the call returns is ignored.\<close>

definition aof_append :: "env \<Rightarrow> string \<Rightarrow> Server \<Rightarrow> unit go_result \<times> Server" where
  "aof_append env payload s =
     (case AOF s of
        None \<Rightarrow> (Panic, s)
      | Some a \<Rightarrow> (Ret (), s\<lparr>FS := snd (Append (Faults env) a payload (FS s))\<rparr>))"

definition replicate_request :: "env \<Rightarrow> Request \<Rightarrow> Server \<Rightarrow> Server" where
  "replicate_request env req s =
     write_all env (map RConn (replicaNodes (Node s))) (getRequestinResp (Lib env) req) s"

text \<open>The critical section of \<^verbatim>\<open>EXEC\<close>. The entry of the table that decides whether the transaction is logged
  and replicated is looked up with the name of the request, which is \<^verbatim>\<open>exec\<close> itself.\<close>

definition exec_body :: "env \<Rightarrow> Request \<Rightarrow> int \<Rightarrow> Server \<Rightarrow> string list go_result \<times> Server" where
  "exec_body env req c s =
     (let queue = CommandQueue (client s c)
      in case exec_queue env c queue [] [] (ResetTransactionState env c s) of
           (Ret (replies, aofData), s1) \<Rightarrow>
             (case CommandHandlers (Command req) of
                Some cmd \<Rightarrow>
                  (if IsWrite cmd then
                     (case (if Appendonly (Cfg s1) = TypeAppendOnlyYes then aof_append env aofData s1 else (Ret (), s1)) of
                        (Ret u, s2) \<Rightarrow> (Ret replies, replicate_request env req s2)
                      | (_, s2) \<Rightarrow> (Panic, s2))
                   else (Ret replies, s1))
              | None \<Rightarrow> (Ret replies, s1))
         | (Err e, s1) \<Rightarrow> (Err e, s1)
         | (Panic, s1) \<Rightarrow> (Panic, s1))"

end
