(* ===== verification/Replication.thy ===== *)
theory Replication
  imports Dispatch
begin

text \<open>
  The replica's side of the replication protocol up to the point where commands arrive, \<^verbatim>\<open>server/server.go\<close>: the handshake
  with the master, the dump that it sends, and the small helpers of \<^verbatim>\<open>processMasterCommands\<close>. The master is the reader of
  the bytes it sends; the result of dialling it is a parameter.
\<close>

subsection \<open>The handshake\<close>

definition StaticRequestPing :: string where
  "StaticRequestPing = ''*1'' @ CRLF @ ''$4'' @ CRLF @ ''PING'' @ CRLF"

definition StaticRequestPsync2 :: string where
  "StaticRequestPsync2 = ''*3'' @ CRLF @ ''$5'' @ CRLF @ ''PSYNC'' @ CRLF @ ''$1'' @ CRLF @ ''?'' @ CRLF @
     ''$2'' @ CRLF @ ''-1'' @ CRLF"

definition StaticRequestReplConfPort :: "string \<Rightarrow> string" where
  "StaticRequestReplConfPort port = ''*3'' @ CRLF @ ''$8'' @ CRLF @ ''REPLCONF'' @ CRLF @ ''$14'' @ CRLF @
     ''listening-port'' @ CRLF @ ''$'' @ Itoa (int (length port)) @ CRLF @ port @ CRLF"

definition StaticRequestReplConfCapa :: string where
  "StaticRequestReplConfCapa = ''*3'' @ CRLF @ ''$8'' @ CRLF @ ''REPLCONF'' @ CRLF @ ''$4'' @ CRLF @ ''capa'' @ CRLF @
     ''$6'' @ CRLF @ ''psync2'' @ CRLF"

definition type_name :: "response \<Rightarrow> string" where
  "type_name v = (case v of
       RSimpleString _ \<Rightarrow> ''*resp.SimpleString'' | RSimpleError _ _ \<Rightarrow> ''*resp.SimpleError''
     | RInteger _ \<Rightarrow> ''*resp.Integer'' | RBulkString _ \<Rightarrow> ''*resp.BulkString'')"

text \<open>One exchange: write a request and read the answer.\<close>

definition exchange :: "env \<Rightarrow> nat \<Rightarrow> string \<Rightarrow> Server \<Rightarrow> reader \<Rightarrow> response go_result \<times> Server \<times> reader" where
  "exchange env conn payload s r =
     (case conn_write env conn payload s of
        (False, s1) \<Rightarrow> (Err (EIo (IoFailure ''write error'')), s1, r)
      | (True, s1) \<Rightarrow> (case ReadResponse r of (v, r1) \<Rightarrow> (v, s1, r1)))"

definition expect_ok :: "env \<Rightarrow> response \<Rightarrow> unit go_result" where
  "expect_ok env v = (case v of
       RSimpleString t \<Rightarrow> (if EqualFold (Lib env) t ''OK'' then Ret ()
                          else Err (EText (''expected OK response, got '' @ type_name v)))
     | _ \<Rightarrow> Err (EText (''expected OK response, got '' @ type_name v)))"

definition ReplicaHandShake :: "env \<Rightarrow> go_error option \<Rightarrow> nat \<Rightarrow> Server \<Rightarrow> reader \<Rightarrow> unit go_result \<times> Server \<times> reader" where
  "ReplicaHandShake env dial conn s0 r0 =
     (case dial of Some e \<Rightarrow> (Err e, s0, r0) | None \<Rightarrow>
     (case exchange env conn StaticRequestPing s0 r0 of
        (Err e, s1, r1) \<Rightarrow> (Err e, s1, r1) | (Panic, s1, r1) \<Rightarrow> (Panic, s1, r1)
      | (Ret v, s1, r1) \<Rightarrow>
     (if v \<noteq> RSimpleString ''PONG'' then (Err (EText (''expected PONG response, got '' @ type_name v)), s1, r1) else
     (case exchange env conn (StaticRequestReplConfPort (Itoa (Port (Cfg s1)))) s1 r1 of
        (Err e, s2, r2) \<Rightarrow> (Err e, s2, r2) | (Panic, s2, r2) \<Rightarrow> (Panic, s2, r2)
      | (Ret v, s2, r2) \<Rightarrow>
     (case expect_ok env v of Err e \<Rightarrow> (Err e, s2, r2) | Panic \<Rightarrow> (Panic, s2, r2) | Ret u \<Rightarrow>
     (case exchange env conn StaticRequestReplConfCapa s2 r2 of
        (Err e, s3, r3) \<Rightarrow> (Err e, s3, r3) | (Panic, s3, r3) \<Rightarrow> (Panic, s3, r3)
      | (Ret v, s3, r3) \<Rightarrow>
     (case expect_ok env v of Err e \<Rightarrow> (Err e, s3, r3) | Panic \<Rightarrow> (Panic, s3, r3) | Ret u \<Rightarrow>
     (case exchange env conn StaticRequestPsync2 s3 r3 of
        (Err e, s4, r4) \<Rightarrow> (Err e, s4, r4) | (Panic, s4, r4) \<Rightarrow> (Panic, s4, r4)
      | (Ret v, s4, r4) \<Rightarrow>
     (case v of
        RSimpleString t \<Rightarrow>
          (let fields = Fields (Lib env) t
           in if length fields \<noteq> 3 then (Err (EText ''invalid psync2 response''), s4, r4)
              else if fields ! 0 \<noteq> ReSyncTypeFull \<or> fields ! 1 = [] \<or> fields ! 2 = []
                   then (Err (EText ''invalid resync response''), s4, r4)
                   else (Ret (), s4, r4))
      | _ \<Rightarrow> (Err (EText (''expected a simple string response, got '' @ type_name v)), s4, r4))))))))))"

text \<open>The bulk header of the dump and its bytes, which are read and dropped.\<close>

definition read_dump :: "unit parser" where
  "read_dump = rd_bind ReadHeader (\<lambda>data.
     if data ! 0 \<noteq> CHR ''$'' then rd_fail (EText ''invalid RDB data recieved'')
     else (case go_slice 1 (int (length data) - 2) data of
         None \<Rightarrow> rd_panic
       | Some sz \<Rightarrow>
           (case Atoi sz of
              None \<Rightarrow> rd_fail (ENum sz)
            | Some n \<Rightarrow> (if n < 0 then rd_panic else rd_bind (rd_full (nat n)) (\<lambda>buf. rd_ret ())))))"

definition is_getack :: "golib \<Rightarrow> Request \<Rightarrow> bool" where
  "is_getack lib req \<longleftrightarrow> Command req = REPLCONF \<and> length (Arguments req) = 2 \<and>
     EqualFold lib (Arguments req ! 0) ''GETACK''"

definition add_offset :: "int \<Rightarrow> Server \<Rightarrow> Server" where
  "add_offset n s = s\<lparr>Node := (Node s)\<lparr>ReplicationOffset := wrap64 (ReplicationOffset (Node s) + n)\<rparr>\<rparr>"

end
