(* ===== verification/Connection.thy ===== *)
theory Connection
  imports Replication
begin

text \<open>
  The loop of \<^verbatim>\<open>HandleConnection\<close> and, on a replica, that of \<^verbatim>\<open>processMasterCommands\<close>, cut at the points where goroutines
  can interleave, and the system of all of them as a transition system.

  Commands run under the read side of \<^verbatim>\<open>executionMutex\<close>, \<^verbatim>\<open>EXEC\<close> under the write side. A connection is \<open>Ready\<close> for its
  next request; \<open>Finishing\<close> between releasing the lock and having logged, replicated and answered; \<open>Blocked\<close> in
  \<^verbatim>\<open>BLPOP\<close>, with the read lock held; \<open>Checked\<close> between the test of the watch flag and the call of \<^verbatim>\<open>Lock\<close>; \<open>WantsLock\<close> inside that
  call, from when on Go's \<^verbatim>\<open>RWMutex\<close> admits no new reader; \<open>Executing\<close> the rest of its queue with the write lock held, one command
  at a time, with the replies and the log data collected so far; \<open>ExecBlocked\<close> when one of these commands is a \<^verbatim>\<open>BLPOP\<close> that
  waits, with the write lock held; \<open>Replying\<close> after the transaction; and \<open>Closed\<close>. \<open>Leaked\<close> counts read locks that are never
  released: the early exit after a failed write of an error reply leaves the loop without \<^verbatim>\<open>RUnlock\<close>.

  The goroutine that \<^verbatim>\<open>NewServer\<close> starts on a replica is the component \<open>Link\<close>: \<open>Dialing\<close> until the handshake is over and the
  dump is read, \<open>Loading\<close> while it waits in \<^verbatim>\<open>executionMutex.Lock\<close> to set \<^verbatim>\<open>ReplicaReady\<close>, then \<open>Following\<close> the commands of the
  master, which it executes \<^emph>\<open>without\<close> the lock, so between any two steps of the connections, those of a transaction included;
  \<open>LinkBlocked\<close> when such a command is a \<^verbatim>\<open>BLPOP\<close> that waits; and \<open>NoLink\<close> once it has ended, or on a master.

  Everything a peer is going to send is the reader given when its connection is accepted, or when the master is dialled; when the
  bytes arrive is the choice of the moment at which \<open>Recv\<close> or \<open>LinkNext\<close> happens.
\<close>

datatype phase =
    Ready
  | Checked Request
  | WantsLock Request
  | Executing Request "Request list" "string list" string
  | ExecBlocked Request "Request list" "string list" string bool Request BLPopWaiter f64
  | Replying string
  | Blocked bool Request BLPopWaiter f64
  | Finishing Request string
  | Closed

datatype link =
    NoLink
  | Dialing
  | Loading nat reader
  | Following nat int reader
  | LinkBlocked nat int reader bool Request BLPopWaiter f64

subsection \<open>One connection\<close>

definition answer :: "env \<Rightarrow> int \<Rightarrow> string \<Rightarrow> Server \<Rightarrow> phase \<times> Server" where
  "answer env c payload s =
     (case conn_write env (Conn (client s c)) payload s of
        (True, s') \<Rightarrow> (Ready, s')
      | (False, s') \<Rightarrow> (Closed, CloseConnection c s'))"

text \<open>\<^verbatim>\<open>ParseRequest\<close> failed: a protocol error is answered and ends the connection, an error that is a RESP error
  is answered, anything else ends the connection.\<close>

definition on_parse_error :: "env \<Rightarrow> go_error \<Rightarrow> int \<Rightarrow> Server \<Rightarrow> phase \<times> Server" where
  "on_parse_error env e c s =
     (case as_ProtocolError e of
        Some inner \<Rightarrow>
          (Closed, CloseConnection c (snd (conn_write env (Conn (client s c))
             (SimpleError_Marshal ERR (''Protocol error: '' @ error_text (Lib env) inner)) s)))
      | None \<Rightarrow>
          (case as_SimpleError e of
             Some (t, m) \<Rightarrow> answer env c (SimpleError_Marshal t m) s
           | None \<Rightarrow> (Closed, CloseConnection c s)))"

definition subscribed_error :: "string \<Rightarrow> string" where
  "subscribed_error cmd = SimpleError_Marshal ERR (''Can'' @ apostrophe @ ''t execute '' @ cmd @
     '': only (P|S)SUBSCRIBE / (P|S)UNSUBSCRIBE / PING / QUIT / RESET are allowed in this context'')"

text \<open>\<^verbatim>\<open>EXEC\<close> before its lock.\<close>

definition exec_check :: "env \<Rightarrow> Request \<Rightarrow> int \<Rightarrow> Server \<Rightarrow> phase \<times> Server" where
  "exec_check env req c s =
     (if Mode (client s c) \<noteq> ClientModeTransaction then
        answer env c (SimpleError_Marshal ERR ''EXEC without MULTI'') s
      else if DirtyCompareAndSet (client s c) then
        answer env c NullArray_Marshal (ResetTransactionState env c s)
      else (Checked req, s))"

text \<open>Any other command, under the read lock. The second component counts a read lock that stays held.\<close>

definition run_command :: "env \<Rightarrow> Request \<Rightarrow> int \<Rightarrow> Server \<Rightarrow> phase go_result \<times> nat \<times> Server" where
  "run_command env req c s =
     (case Execute_start env req c s of
        (write, Ret (Bytes bytes), s1) \<Rightarrow>
          (case Execute_finish write req bytes s1 of
             (Ret b, s2) \<Rightarrow> (Ret (Finishing req b), 0, s2)
           | (_, s2) \<Rightarrow> (Panic, 0, s2))
      | (write, Ret (Wait w timeout), s1) \<Rightarrow> (Ret (Blocked write req w timeout), 0, s1)
      | (write, Err e, s1) \<Rightarrow>
          (case conn_write env (Conn (client s1 c)) (error_bytes e) s1 of
             (True, s2) \<Rightarrow> (Ret (Finishing req []), 0, s2)
           | (False, s2) \<Rightarrow> (Ret Closed, 1, CloseConnection c s2))
      | (write, Panic, s1) \<Rightarrow> (Panic, 0, s1))"

text \<open>After the read lock is released: the log, the replicas, and the reply.\<close>

definition propagate :: "env \<Rightarrow> Request \<Rightarrow> Server \<Rightarrow> unit go_result \<times> Server" where
  "propagate env req s =
     (case CommandHandlers (Command req) of
        Some cmd \<Rightarrow>
          (if IsWrite cmd then
             (case (if Appendonly (Cfg s) = TypeAppendOnlyYes
                    then aof_append env (Array_Marshal (map BulkString_Marshal (ToUpper (Lib env) (Command req) # Arguments req))) s
                    else (Ret (), s)) of
                (Ret u, s1) \<Rightarrow> (Ret (), replicate_request env req s1)
              | (_, s1) \<Rightarrow> (Panic, s1))
           else (Ret (), s))
      | None \<Rightarrow> (Ret (), s))"

definition empty_rdb :: string where "empty_rdb = ''$0'' @ CRLF"

definition psync_reply :: "env \<Rightarrow> int \<Rightarrow> string \<Rightarrow> Server \<Rightarrow> Server" where
  "psync_reply env c payload s =
     (let s1 = AddReplica env c s;
          s2 = snd (conn_write env (Conn (client s1 c)) payload s1)
      in case conn_write env (Conn (client s2 c)) empty_rdb s2 of
           (True, s3) \<Rightarrow> s3
         | (False, s3) \<Rightarrow> DeleteReplica c s3)"

definition finish_command :: "env \<Rightarrow> Request \<Rightarrow> string \<Rightarrow> int \<Rightarrow> Server \<Rightarrow> phase go_result \<times> Server" where
  "finish_command env req bytes c s =
     (case propagate env req s of
        (Ret u, s1) \<Rightarrow>
          (if Command req = PSYNC then (Ret Ready, psync_reply env c bytes s1)
           else (case answer env c bytes s1 of (p, s2) \<Rightarrow> (Ret p, s2)))
      | (_, s1) \<Rightarrow> (Panic, s1))"

subsection \<open>A transaction\<close>

text \<open>What follows when \<^verbatim>\<open>Execute\<close> has come back from a command that succeeded.\<close>

definition go_on :: "(string \<Rightarrow> Server \<Rightarrow> 'p) \<Rightarrow> string go_result \<times> Server \<Rightarrow> 'p go_result \<times> Server" where
  "go_on k r = (case r of (Ret b, s) \<Rightarrow> (Ret (k b s), s) | (_, s) \<Rightarrow> (Panic, s))"

definition exec_start :: "env \<Rightarrow> Request \<Rightarrow> int \<Rightarrow> Server \<Rightarrow> phase \<times> Server" where
  "exec_start env req c s = (Executing req (CommandQueue (client s c)) [] [], ResetTransactionState env c s)"

text \<open>The reply to one queued command, and its text for the log.\<close>

definition exec_collect :: "Request \<Rightarrow> Request list \<Rightarrow> string list \<Rightarrow> string \<Rightarrow> Request \<Rightarrow> string \<Rightarrow> Server \<Rightarrow> phase" where
  "exec_collect xreq rest replies aofData req b s =
     Executing xreq rest (replies @ [b])
       (if Appendonly (Cfg s) = TypeAppendOnlyYes
        then aofData @ Array_Marshal (map BulkString_Marshal (Command req # Arguments req)) else aofData)"

text \<open>Behind the loop over the queue. The entry of the table that decides whether the transaction is logged and replicated is
  looked up with the name of the request, which is \<^verbatim>\<open>exec\<close> itself.\<close>

definition exec_end :: "env \<Rightarrow> Request \<Rightarrow> string list \<Rightarrow> string \<Rightarrow> Server \<Rightarrow> phase go_result \<times> Server" where
  "exec_end env xreq replies aofData s =
     (case CommandHandlers (Command xreq) of
        Some cmd \<Rightarrow>
          (if IsWrite cmd then
             (case (if Appendonly (Cfg s) = TypeAppendOnlyYes then aof_append env aofData s else (Ret (), s)) of
                (Ret u, s1) \<Rightarrow> (Ret (Replying (Array_Marshal replies)), replicate_request env xreq s1)
              | (_, s1) \<Rightarrow> (Panic, s1))
           else (Ret (Replying (Array_Marshal replies)), s))
      | None \<Rightarrow> (Ret (Replying (Array_Marshal replies)), s))"

definition exec_next ::
  "env \<Rightarrow> Request \<Rightarrow> Request list \<Rightarrow> string list \<Rightarrow> string \<Rightarrow> int \<Rightarrow> Server \<Rightarrow> phase go_result \<times> Server" where
  "exec_next env xreq queue replies aofData c s =
     (case queue of
        [] \<Rightarrow> exec_end env xreq replies aofData s
      | req # rest \<Rightarrow>
          (case Execute_start env req c s of
             (write, Ret (Bytes b), s1) \<Rightarrow>
               go_on (exec_collect xreq rest replies aofData req) (Execute_finish write req b s1)
           | (write, Ret (Wait w timeout), s1) \<Rightarrow>
               (Ret (ExecBlocked xreq rest replies aofData write req w timeout), s1)
           | (write, Err e, s1) \<Rightarrow> (Ret (exec_collect xreq rest replies aofData req (error_bytes e) s1), s1)
           | (write, Panic, s1) \<Rightarrow> (Panic, s1)))"

text \<open>The end of a wait in \<^verbatim>\<open>BLPOP\<close>.\<close>

definition woken :: "bool \<Rightarrow> Request \<Rightarrow> BLPopdata \<Rightarrow> Store \<Rightarrow> Server \<Rightarrow> string go_result \<times> Server" where
  "woken write req d db s = Execute_finish write req (blpop_reply d) (set_DB db s)"

subsection \<open>The goroutine of a replica\<close>

text \<open>\<^verbatim>\<open>StartReplica\<close> up to its call of \<^verbatim>\<open>Lock\<close>. An error is logged and ends the goroutine.\<close>

definition link_sync :: "env \<Rightarrow> go_error option \<Rightarrow> nat \<Rightarrow> reader \<Rightarrow> Server \<Rightarrow> link go_result \<times> Server" where
  "link_sync env dial conn r s =
     (case ReplicaHandShake env dial conn s r of
        (Err e, s1, r1) \<Rightarrow> (Ret NoLink, s1)
      | (Panic, s1, r1) \<Rightarrow> (Panic, s1)
      | (Ret u, s1, r1) \<Rightarrow>
          (case read_dump r1 of
             (Err e, r2) \<Rightarrow> (Ret NoLink, s1)
           | (Panic, r2) \<Rightarrow> (Panic, s1)
           | (Ret u, r2) \<Rightarrow> (Ret (Loading conn r2), s1)))"

text \<open>Inside the lock, and the start of \<^verbatim>\<open>processMasterCommands\<close>.\<close>

definition link_ready :: "nat \<Rightarrow> reader \<Rightarrow> Server \<Rightarrow> link \<times> Server" where
  "link_ready conn r s =
     (let (c, s1) = new_client TypeClientInternal conn (s\<lparr>Node := (Node s)\<lparr>ReplicaReady := True\<rparr>\<rparr>)
      in (Following conn c r, s1))"

definition request_offset :: "env \<Rightarrow> Request \<Rightarrow> int" where
  "request_offset env req = int (length (getRequestinResp (Lib env) req))"

text \<open>Behind \<^verbatim>\<open>Execute\<close> in the loop: its reply is dropped, the offset grows.\<close>

definition follow :: "env \<Rightarrow> nat \<Rightarrow> int \<Rightarrow> reader \<Rightarrow> Request \<Rightarrow> string go_result \<times> Server \<Rightarrow> link go_result \<times> Server" where
  "follow env conn c r req x =
     (case x of
        (Ret b, s) \<Rightarrow> (Ret (Following conn c r), add_offset (request_offset env req) s)
      | (_, s) \<Rightarrow> (Panic, s))"

definition link_next :: "env \<Rightarrow> nat \<Rightarrow> int \<Rightarrow> reader \<Rightarrow> Server \<Rightarrow> link go_result \<times> Server" where
  "link_next env conn c r s =
     (case ParseRequest (Lib env) r of
        (Err e, r1) \<Rightarrow> (Ret NoLink, s)
      | (Panic, r1) \<Rightarrow> (Panic, s)
      | (Ret req, r1) \<Rightarrow>
          (if is_getack (Lib env) req then
             (case conn_write env conn (getRequestinResp (Lib env)
                   \<lparr>Command = REPLCONF, Arguments = [''ACK'', Itoa (ReplicationOffset (Node s))]\<rparr>) s of
                (False, s1) \<Rightarrow> (Ret NoLink, s1)
              | (True, s1) \<Rightarrow> (Ret (Following conn c r1), add_offset (request_offset env req) s1))
           else
             (case Execute_start env req c s of
                (write, Ret (Bytes b), s1) \<Rightarrow> follow env conn c r1 req (Execute_finish write req b s1)
              | (write, Ret (Wait w timeout), s1) \<Rightarrow> (Ret (LinkBlocked conn c r1 write req w timeout), s1)
              | (write, Err e, s1) \<Rightarrow> (Ret NoLink, s1)
              | (write, Panic, s1) \<Rightarrow> (Panic, s1))))"

subsection \<open>All goroutines\<close>

record Sys =
  Srv :: Server
  Phase :: "(int, phase) gomap"
  Inbox :: "(int, reader) gomap"
  Leaked :: nat
  Link :: link
  Crashed :: bool

datatype event =
    Accept nat reader
  | Recv int
  | LockCall int
  | LockGranted int
  | ExecNext int
  | Deliver int
  | Expire int
  | Finish int
  | LinkSync "go_error option" nat reader
  | LinkGranted
  | LinkNext
  | LinkDeliver
  | LinkExpire

definition phase_of :: "Sys \<Rightarrow> int \<Rightarrow> phase" where
  "phase_of y c = (case map_of (Phase y) c of None \<Rightarrow> Closed | Some p \<Rightarrow> p)"

text \<open>The three states of \<^verbatim>\<open>executionMutex\<close> that matter: a reader holds it, a writer holds it, a writer has called \<^verbatim>\<open>Lock\<close> and not
  yet \<^verbatim>\<open>Unlock\<close>, so that no reader is admitted.\<close>

definition is_blocked :: "phase \<Rightarrow> bool" where
  "is_blocked p \<longleftrightarrow> (case p of Blocked _ _ _ _ \<Rightarrow> True | _ \<Rightarrow> False)"

definition holds_write :: "phase \<Rightarrow> bool" where
  "holds_write p \<longleftrightarrow> (case p of Executing _ _ _ _ \<Rightarrow> True | ExecBlocked _ _ _ _ _ _ _ _ \<Rightarrow> True | _ \<Rightarrow> False)"

definition wants_write :: "phase \<Rightarrow> bool" where
  "wants_write p \<longleftrightarrow> (case p of WantsLock _ \<Rightarrow> True | _ \<Rightarrow> holds_write p)"

definition readers_out :: "Sys \<Rightarrow> bool" where
  "readers_out y \<longleftrightarrow> 0 < Leaked y \<or> (\<exists>p \<in> snd ` set (Phase y). is_blocked p)"

definition writer_in :: "Sys \<Rightarrow> bool" where
  "writer_in y \<longleftrightarrow> (\<exists>p \<in> snd ` set (Phase y). holds_write p)"

definition writer_waiting :: "Sys \<Rightarrow> bool" where
  "writer_waiting y \<longleftrightarrow> (\<exists>p \<in> snd ` set (Phase y). wants_write p) \<or> (case Link y of Loading _ _ \<Rightarrow> True | _ \<Rightarrow> False)"

definition lock_free :: "Sys \<Rightarrow> bool" where
  "lock_free y \<longleftrightarrow> \<not> readers_out y \<and> \<not> writer_in y"

definition set_phase :: "int \<Rightarrow> phase \<Rightarrow> Server \<Rightarrow> Sys \<Rightarrow> Sys" where
  "set_phase c p s y = y\<lparr>Srv := s, Phase := gm_set c p (Phase y)\<rparr>"

definition crash :: "Server \<Rightarrow> Sys \<Rightarrow> Sys" where
  "crash s y = y\<lparr>Srv := s, Crashed := True\<rparr>"

definition settle :: "int \<Rightarrow> phase go_result \<times> Server \<Rightarrow> Sys \<Rightarrow> Sys" where
  "settle c r y = (case r of (Ret p, s) \<Rightarrow> set_phase c p s y | (_, s) \<Rightarrow> crash s y)"

definition settle_link :: "link go_result \<times> Server \<Rightarrow> Sys \<Rightarrow> Sys" where
  "settle_link r y = (case r of (Ret l, s) \<Rightarrow> y\<lparr>Srv := s, Link := l\<rparr> | (_, s) \<Rightarrow> crash s y)"

definition recv :: "env \<Rightarrow> int \<Rightarrow> Sys \<Rightarrow> Sys option" where
  "recv env c y =
     (case map_of (Inbox y) c of
        None \<Rightarrow> None
      | Some r \<Rightarrow>
          (case ParseRequest (Lib env) r of
             (Err e, r') \<Rightarrow>
               (let (p, s) = on_parse_error env e c (Srv y)
                in Some (set_phase c p s (y\<lparr>Inbox := gm_set c r' (Inbox y)\<rparr>)))
           | (Panic, r') \<Rightarrow> Some (crash (Srv y) y)
           | (Ret req, r') \<Rightarrow>
               (let y1 = y\<lparr>Inbox := gm_set c r' (Inbox y)\<rparr>; s = Srv y
                in if Mode (client s c) = ClientModeSubscribed \<and> Command req \<notin> set SubcribedModeCommands then
                     (let (p, s') = answer env c (subscribed_error (Command req)) s in Some (set_phase c p s' y1))
                   else if Command req = EXEC then
                     (let (p, s') = exec_check env req c s in Some (set_phase c p s' y1))
                   else if writer_waiting y then None
                   else (case run_command env req c s of
                       (Ret p, leak, s') \<Rightarrow> Some (set_phase c p s' (y1\<lparr>Leaked := Leaked y + leak\<rparr>))
                     | (_, leak, s') \<Rightarrow> Some (crash s' y1)))))"

text \<open>A wait of a connection ends with the given result, inside a transaction or outside.\<close>

definition wake :: "int \<Rightarrow> (f64 \<Rightarrow> BLPopWaiter \<Rightarrow> (BLPopdata \<times> Store) option) \<Rightarrow> Sys \<Rightarrow> Sys option" where
  "wake c result y =
     (case phase_of y c of
        Blocked write req w t \<Rightarrow>
          (case result t w of
             None \<Rightarrow> None
           | Some (d, db) \<Rightarrow> Some (settle c (go_on (\<lambda>b s. Finishing req b) (woken write req d db (Srv y))) y))
      | ExecBlocked xreq rest replies aofData write req w t \<Rightarrow>
          (case result t w of
             None \<Rightarrow> None
           | Some (d, db) \<Rightarrow>
               Some (settle c (go_on (exec_collect xreq rest replies aofData req) (woken write req d db (Srv y))) y))
      | _ \<Rightarrow> None)"

definition wake_link :: "env \<Rightarrow> (f64 \<Rightarrow> BLPopWaiter \<Rightarrow> (BLPopdata \<times> Store) option) \<Rightarrow> Sys \<Rightarrow> Sys option" where
  "wake_link env result y =
     (case Link y of
        LinkBlocked conn c r write req w t \<Rightarrow>
          (case result t w of
             None \<Rightarrow> None
           | Some (d, db) \<Rightarrow> Some (settle_link (follow env conn c r req (woken write req d db (Srv y))) y))
      | _ \<Rightarrow> None)"

definition sys_step :: "env \<Rightarrow> event \<Rightarrow> Sys \<Rightarrow> Sys option" where
  "sys_step env ev y =
     (if Crashed y then None
      else (case ev of
          Accept conn r \<Rightarrow>
            (let (c, s) = AddClient conn (Srv y)
             in Some (y\<lparr>Srv := s, Phase := gm_set c Ready (Phase y), Inbox := gm_set c r (Inbox y)\<rparr>))
        | Recv c \<Rightarrow> (case phase_of y c of Ready \<Rightarrow> recv env c y | _ \<Rightarrow> None)
        | LockCall c \<Rightarrow> (case phase_of y c of Checked req \<Rightarrow> Some (set_phase c (WantsLock req) (Srv y) y) | _ \<Rightarrow> None)
        | LockGranted c \<Rightarrow>
            (case phase_of y c of
               WantsLock req \<Rightarrow>
                 (if lock_free y then (let (p, s) = exec_start env req c (Srv y) in Some (set_phase c p s y)) else None)
             | _ \<Rightarrow> None)
        | ExecNext c \<Rightarrow>
            (case phase_of y c of
               Executing req queue replies aofData \<Rightarrow>
                 Some (settle c (exec_next env req queue replies aofData c (Srv y)) y)
             | _ \<Rightarrow> None)
        | Deliver c \<Rightarrow> wake c (\<lambda>t. resolve_receive (DB (Srv y))) y
        | Expire c \<Rightarrow> wake c (\<lambda>t. resolve_timeout t (DB (Srv y))) y
        | Finish c \<Rightarrow>
            (case phase_of y c of
               Finishing req bytes \<Rightarrow> Some (settle c (finish_command env req bytes c (Srv y)) y)
             | Replying bytes \<Rightarrow> (let (p, s) = answer env c bytes (Srv y) in Some (set_phase c p s y))
             | _ \<Rightarrow> None)
        | LinkSync dial conn r \<Rightarrow>
            (case Link y of Dialing \<Rightarrow> Some (settle_link (link_sync env dial conn r (Srv y)) y) | _ \<Rightarrow> None)
        | LinkGranted \<Rightarrow>
            (case Link y of
               Loading conn r \<Rightarrow>
                 (if lock_free y then (let (l, s) = link_ready conn r (Srv y) in Some (y\<lparr>Srv := s, Link := l\<rparr>)) else None)
             | _ \<Rightarrow> None)
        | LinkNext \<Rightarrow>
            (case Link y of Following conn c r \<Rightarrow> Some (settle_link (link_next env conn c r (Srv y)) y) | _ \<Rightarrow> None)
        | LinkDeliver \<Rightarrow> wake_link env (\<lambda>t. resolve_receive (DB (Srv y))) y
        | LinkExpire \<Rightarrow> wake_link env (\<lambda>t. resolve_timeout t (DB (Srv y))) y))"

text \<open>The system that a node is once it listens; on a replica the goroutine that \<^verbatim>\<open>NewServer\<close> started dials the master.\<close>

definition idle_system :: "Server \<Rightarrow> Sys" where
  "idle_system s = \<lparr>Srv = s, Phase = [], Inbox = [], Leaked = 0,
     Link = (if Role (Node s) = NodeRoleReplica then Dialing else NoLink), Crashed = False\<rparr>"

inductive step :: "Sys \<Rightarrow> Sys \<Rightarrow> bool" where
  step: "sys_step env ev y = Some y' \<Longrightarrow> step y y'"

inductive_cases stepE: "step y y'"

fun run :: "(env \<times> event) list \<Rightarrow> Sys \<Rightarrow> Sys option" where
  "run [] y = Some y"
| "run ((env, ev) # evs) y = Option.bind (sys_step env ev y) (run evs)"

lemma run_steps: "run evs y = Some y' \<Longrightarrow> step\<^sup>*\<^sup>* y y'"
proof (induction evs arbitrary: y)
  case (Cons e evs)
  obtain env ev where e: "e = (env, ev)" by fastforce
  with Cons.prems obtain y1 where "sys_step env ev y = Some y1" "run evs y1 = Some y'"
    by (auto simp: bind_eq_Some_conv)
  then show ?case using Cons.IH step by (meson converse_rtranclp_into_rtranclp)
qed simp

end
