(* ===== verification/Startup.thy ===== *)
theory Startup
  imports Connection
begin

text \<open>
  Starting a node: \<^verbatim>\<open>NewServer\<close> and \<^verbatim>\<open>StartMaster\<close> with the dump and the log; and the goroutine of a replica taken as one
  run, \<^verbatim>\<open>StartReplica\<close> and \<^verbatim>\<open>processMasterCommands\<close>, for a replica to which nobody else is connected. Connection has the same
  goroutine cut into the steps that interleave with the connections; the handshake is in Replication.
\<close>

subsection \<open>A master\<close>

definition replay_command :: "env \<Rightarrow> string list \<Rightarrow> Server \<Rightarrow> unit go_result \<times> Server" where
  "replay_command env args s =
     (case args of
        [] \<Rightarrow> (Panic, s)
      | a # as \<Rightarrow>
          (let (i, s1) = new_client TypeClientInternal 0 s
           in case Execute env \<lparr>Command = ToLower (Lib env) a, Arguments = as\<rparr> i s1 of
                (Ret b, s2) \<Rightarrow> (Ret (), s2)
              | (Err e, s2) \<Rightarrow> (Err e, s2)
              | (Panic, s2) \<Rightarrow> (Panic, s2)))"

definition load_dump :: "(nat \<Rightarrow> int) \<Rightarrow> Server \<Rightarrow> unit go_result \<times> Server" where
  "load_dump clock s =
     (if Dir (Cfg s) \<noteq> [] \<and> Dbfilename (Cfg s) \<noteq> [] then
        (case Load clock (map_of (FS s) (path_Join (Dir (Cfg s)) (Dbfilename (Cfg s)))) (DB s) of
           (r, db) \<Rightarrow> (r, set_DB db s))
      else (Ret (), s))"

definition load_log :: "env \<Rightarrow> Server \<Rightarrow> unit go_result \<times> Server" where
  "load_log env s =
     (if Appendonly (Cfg s) = TypeAppendOnlyYes then
        (case aof_New (Lib env) (Faults env) (FS s)
                \<lparr>cDir = Dir (Cfg s), cAppenddirname = Appenddirname (Cfg s),
                 cAppendfilename = Appendfilename (Cfg s), cAppendfsync = Appendfsync (Cfg s)\<rparr> of
           (Err e, fs1) \<Rightarrow> (Err e, s\<lparr>FS := fs1\<rparr>)
         | (Panic, fs1) \<Rightarrow> (Panic, s\<lparr>FS := fs1\<rparr>)
         | (Ret a, fs1) \<Rightarrow> aof_Load (replay_command env) (Faults env) fs1 a (s\<lparr>FS := fs1, AOF := Some a\<rparr>))
      else (Ret (), s))"

definition StartMaster :: "env \<Rightarrow> (nat \<Rightarrow> int) \<Rightarrow> Server \<Rightarrow> unit go_result \<times> Server" where
  "StartMaster env clock s =
     (case load_dump clock s of
        (Ret u, s1) \<Rightarrow>
          (case load_log env s1 of
             (Ret u, s2) \<Rightarrow>
               (Ret (), s2\<lparr>Node := (Node s2)\<lparr>ReplicationId := NewId env, ReplicationOffset := 0\<rparr>\<rparr>)
           | (Err e, s2) \<Rightarrow> (Err e, s2)
           | (Panic, s2) \<Rightarrow> (Panic, s2))
      | (Err e, s1) \<Rightarrow> (Err e, s1)
      | (Panic, s1) \<Rightarrow> (Panic, s1))"

definition NewServer :: "env \<Rightarrow> (nat \<Rightarrow> int) \<Rightarrow> Config \<Rightarrow> fs \<Rightarrow> Store \<Rightarrow> Server go_result" where
  "NewServer env clock cfg fs st =
     (let s = blank_server cfg fs st
      in if Replicaof cfg \<noteq> [] then
           (let fields = Fields (Lib env) (Replicaof cfg)
            in if length fields \<noteq> 2 then Err (EText ''invalid master configuration'')
               else (case Atoi (fields ! 1) of
                   None \<Rightarrow> Err (ENum (fields ! 1))
                 | Some port \<Rightarrow>
                     (if port < 1 \<or> 65535 < port then Err (EText ''invalid master port'')
                      else Ret (s\<lparr>Node := (Node s)\<lparr>MasterHost := fields ! 0, MasterPort := port,
                                                   Role := NodeRoleReplica, ReplicaReady := False\<rparr>\<rparr>))))
         else (case StartMaster env clock s of
             (Ret u, s1) \<Rightarrow> Ret s1
           | (Err e, s1) \<Rightarrow> Err e
           | (Panic, s1) \<Rightarrow> Panic))"

subsection \<open>A replica\<close>

text \<open>One iteration of \<^verbatim>\<open>processMasterCommands\<close> after its request was read.\<close>

definition master_command :: "env \<Rightarrow> nat \<Rightarrow> int \<Rightarrow> Request \<Rightarrow> Server \<Rightarrow> unit go_result \<times> Server" where
  "master_command env conn c req s =
     (let requestOffset = int (length (getRequestinResp (Lib env) req))
      in if is_getack (Lib env) req then
           (let ack = getRequestinResp (Lib env)
                  \<lparr>Command = REPLCONF, Arguments = [''ACK'', Itoa (ReplicationOffset (Node s))]\<rparr>
            in case conn_write env conn ack s of
                 (False, s1) \<Rightarrow> (Err (EIo (IoFailure ''write error'')), s1)
               | (True, s1) \<Rightarrow> (Ret (), add_offset requestOffset s1))
         else (case Execute env req c s of
             (Ret b, s1) \<Rightarrow> (Ret (), add_offset requestOffset s1)
           | (Err e, s1) \<Rightarrow> (Err e, s1)
           | (Panic, s1) \<Rightarrow> (Panic, s1)))"

lemma ParseRequest_shorter:
  assumes "ParseRequest lib r = (Ret req, r')"
  shows "length (Pending r') < length (Pending r)"
  using assms Array_Unmarshal_shorter [of r]
  by (auto simp: ParseRequest_def split: sum.splits if_splits prod.splits go_result.splits list.splits)

function master_loop :: "(nat \<Rightarrow> env) \<Rightarrow> nat \<Rightarrow> nat \<Rightarrow> int \<Rightarrow> reader \<Rightarrow> Server \<Rightarrow> go_error option \<times> Server" where
  "master_loop envs k conn c r s =
     (case ParseRequest (Lib (envs k)) r of
        (Err e, r') \<Rightarrow> (Some e, s)
      | (Panic, r') \<Rightarrow> (None, s)
      | (Ret req, r') \<Rightarrow>
          (case master_command (envs k) conn c req s of
             (Ret u, s1) \<Rightarrow> master_loop envs (Suc k) conn c r' s1
           | (Err e, s1) \<Rightarrow> (Some e, s1)
           | (Panic, s1) \<Rightarrow> (None, s1)))"
  by pat_completeness auto
termination
  by (relation "measure (\<lambda>(envs, k, conn, c, r, s). length (Pending r))")
    (auto dest: ParseRequest_shorter [OF sym])

declare master_loop.simps [simp del]

text \<open>\<open>None\<close> in the first component is a panic; otherwise the loop ends with the error that \<^verbatim>\<open>processMasterCommands\<close>
  returns.\<close>

definition processMasterCommands :: "(nat \<Rightarrow> env) \<Rightarrow> nat \<Rightarrow> reader \<Rightarrow> Server \<Rightarrow> go_error option \<times> Server" where
  "processMasterCommands envs conn r s =
     (let (c, s1) = new_client TypeClientInternal conn s in master_loop envs 0 conn c r s1)"

definition StartReplica :: "(nat \<Rightarrow> env) \<Rightarrow> go_error option \<Rightarrow> nat \<Rightarrow> reader \<Rightarrow> Server \<Rightarrow> go_error option \<times> Server" where
  "StartReplica envs dial conn r s =
     (case ReplicaHandShake (envs 0) dial conn s r of
        (Err e, s1, r1) \<Rightarrow> (Some e, s1)
      | (Panic, s1, r1) \<Rightarrow> (None, s1)
      | (Ret u, s1, r1) \<Rightarrow>
          (case read_dump r1 of
             (Err e, r2) \<Rightarrow> (Some e, s1)
           | (Panic, r2) \<Rightarrow> (None, s1)
           | (Ret u, r2) \<Rightarrow>
               processMasterCommands envs conn r2 (s1\<lparr>Node := (Node s1)\<lparr>ReplicaReady := True\<rparr>\<rparr>)))"

end
