(* ===== verification/HandlersCorrect.thy ===== *)
theory HandlersCorrect
  imports Dispatch
begin

text \<open>
  What the command handlers promise. First the two safety properties that hold of every handler: it keeps the
  invariant of the key space, and it panics only in the cases listed by \<open>crashes\<close>. What each command
  computes is in \<open>CommandSpec\<close>.
\<close>

subsection \<open>Scores\<close>

lemma round_half_even_nonneg: "0 \<le> x \<Longrightarrow> 0 \<le> round_half_even x"
  by (auto simp: round_half_even_def Let_def)

lemma pow2_pos: "0 < pow2 k"
  by (simp add: pow2_def)

lemma round_mag_bounds: "0 \<le> round_mag q \<and> round_mag q \<le> mag_inf"
proof (cases "q \<le> 0")
  case True
  then show ?thesis by (simp add: round_mag_def mag_inf_def)
next
  case False
  let ?E = "max (- 1074) (rat_exp q - 52)"
  have "0 \<le> q / pow2 ?E" using False pow2_pos [of ?E] by simp
  then have "0 \<le> round_half_even (q / pow2 ?E)" by (rule round_half_even_nonneg)
  moreover have "0 \<le> (?E + 1074) * 2 ^ 52" by (intro mult_nonneg_nonneg) simp_all
  ultimately show ?thesis using False by (simp add: round_mag_def Let_def mag_inf_def)
qed

lemma f64_mag_make:
  assumes "0 \<le> m" and "m \<le> mag_inf"
  shows "f64_mag (f64_make neg m) = m"
proof -
  let ?w = "f64_make neg m"
  have m: "m < 2 ^ 63" using assms(2) by (simp add: mag_inf_def)
  have "?w AND 0x7FFFFFFFFFFFFFFF = ?w AND mask 63" by (simp add: mask_eq_exp_minus_1)
  then have "f64_mag ?w = uint (take_bit 63 ?w)" by (simp add: f64_mag_def take_bit_eq_mask)
  also have "\<dots> = take_bit 63 (uint ?w)" by (rule unsigned_take_bit_eq)
  also have "uint ?w = take_bit 64 ((if neg then 2 ^ 63 else 0) + m)"
    by (simp only: f64_make_def uint_word_of_int take_bit_eq_mod) simp
  also have "take_bit 63 (take_bit 64 ((if neg then 2 ^ 63 else 0) + m)) = m"
    using assms(1) m by (simp add: take_bit_eq_mod)
  finally show ?thesis .
qed

lemma f64_of_rat_no_nan: "\<not> f64_nan (f64_of_rat b q)"
  using round_mag_bounds [of "\<bar>q\<bar>"] by (simp add: f64_of_rat_def f64_nan_def f64_mag_make) (simp add: mag_inf_def)

lemma f64_of_uint_no_nan: "\<not> f64_nan (f64_of_uint n)"
  by (simp add: f64_of_uint_def f64_of_rat_no_nan)

subsection \<open>What the session operations leave alone\<close>

lemma DB_simps [simp]:
  "DB (set_client c x s) = DB s" "DB (set_DB d s) = d" "DB (enqueue c req s) = DB s" "DB (mark_dirty w s) = DB s"
  "DB (watch_key c k s) = DB s" "DB (UnwatchAll env c s) = DB s" "DB (ResetTransactionState env c s) = DB s"
  "DB (snd (conn_write env conn b s)) = DB s" "DB (CloseConnection c s) = DB s"
  by (simp_all add: set_client_def set_DB_def enqueue_def mark_dirty_def watch_key_def UnwatchAll_def
      ResetTransactionState_def conn_write_def CloseConnection_def Let_def)

lemma DB_fold_watch [simp]: "DB (fold (watch_key c) ks s) = DB s"
  by (induction ks arbitrary: s) simp_all

lemma DB_fold_dirty [simp]: "DB (fold mark_dirty ws s) = DB s"
  by (induction ws arbitrary: s) simp_all

lemma DB_touch [simp]: "DB (touch key s) = DB s"
  by (simp add: touch_def)

lemma DB_publish_all [simp]: "DB (snd (publish_all env b is s)) = DB s"
proof (induction env b "is" s rule: publish_all.induct)
  case (2 env payload i "is" s)
  obtain ok s' where w: "conn_write env (Conn (client s i)) payload s = (ok, s')" by fastforce
  then have "DB s' = DB s" using DB_simps(8) [of env "Conn (client s i)" payload s] by simp
  with 2 w show ?case by (cases ok) simp_all
qed simp

lemma publish_all_no_panic: "fst (publish_all env b is s) \<noteq> Panic"
  by (induction env b "is" s rule: publish_all.induct) (auto split: prod.splits bool.splits)

subsection \<open>The updates of an entry\<close>

lemma incr_fn_ok:
  assumes "store_ok d" and "incr_fn (map_of (data d) key) = Ret (Some e', out)"
  shows "entry_ok e' \<and> (has_elements e' \<longrightarrow> (\<exists>e. map_of (data d) key = Some e \<and> has_elements e))"
proof (cases "map_of (data d) key")
  case None
  with assms(2) show ?thesis by (auto simp: incr_fn_def has_elements_def)
next
  case (Some e)
  with assms show ?thesis
    using store_ok_entry [OF assms(1) Some]
    by (auto simp: incr_fn_def has_elements_def entry_ok_def split: if_splits val.splits option.splits)
qed

lemma lpop_fn_ok:
  assumes "store_ok d" and "lpop_fn n (map_of (data d) key) = Ret (Some e', out)"
  shows "entry_ok e' \<and> (has_elements e' \<longrightarrow> (\<exists>e. map_of (data d) key = Some e \<and> has_elements e))"
proof (cases "map_of (data d) key")
  case None
  with assms(2) show ?thesis by (simp add: lpop_fn_def)
next
  case (Some e)
  with assms show ?thesis
    using store_ok_entry [OF assms(1) Some]
    by (auto simp: lpop_fn_def has_elements_def entry_ok_update Let_def split: if_splits val.splits option.splits)
qed

lemma zrem_fn_ok:
  assumes "store_ok d" and "zrem_fn m (map_of (data d) key) = Ret (Some e', out)"
  shows "entry_ok e' \<and> (has_elements e' \<longrightarrow> (\<exists>e. map_of (data d) key = Some e \<and> has_elements e))"
proof (cases "map_of (data d) key")
  case None
  with assms(2) show ?thesis by (simp add: zrem_fn_def)
next
  case (Some e)
  note ok = store_ok_entry [OF assms(1) Some]
  show ?thesis
  proof (cases "EValue e")
    case (VZSet z)
    then have z: "zset_ok z" using ok by (simp add: entry_ok_def)
    have "EType e = EntryTypeSortedSet" using ok VZSet by (simp add: entry_ok_def)
    with assms(2) Some VZSet ok z show ?thesis
      using zset_ok_delete [OF z]
      by (fastforce simp: zrem_fn_def has_elements_def entry_ok_update split: option.splits prod.splits)
  qed (use assms(2) Some in \<open>auto simp: zrem_fn_def split: if_splits\<close>)
qed

lemma zrem_fn_no_panic:
  assumes "store_ok d"
  shows "zrem_fn m (map_of (data d) key) \<noteq> Panic"
proof (cases "map_of (data d) key")
  case None
  then show ?thesis by (simp add: zrem_fn_def)
next
  case (Some e)
  note ok = store_ok_entry [OF assms Some]
  show ?thesis
  proof (cases "EValue e")
    case (VZSet z)
    then have "zset_ok z" using ok by (simp add: entry_ok_def)
    with Some VZSet zset_ok_delete [of z m] show ?thesis
      by (auto simp: zrem_fn_def split: option.splits prod.splits)
  qed (use Some in \<open>auto simp: zrem_fn_def split: if_splits\<close>)
qed

lemma Update_cases:
  "fst (Update s key fn) = (case fn (map_of (data s) key) of Ret x \<Rightarrow> Ret x | Err e \<Rightarrow> Err e | Panic \<Rightarrow> Panic)"
  by (auto simp: Update_def split: go_result.splits option.splits prod.splits)

lemma store_ok_Update_incr [inv_intros]: "store_ok d \<Longrightarrow> store_ok (snd (Update d key incr_fn))"
  by (rule store_ok_Update, assumption, rule incr_fn_ok)

lemma store_ok_Update_lpop [inv_intros]: "store_ok d \<Longrightarrow> store_ok (snd (Update d key (lpop_fn n)))"
  by (rule store_ok_Update, assumption, rule lpop_fn_ok)

lemma store_ok_Update_zrem [inv_intros]: "store_ok d \<Longrightarrow> store_ok (snd (Update d key (zrem_fn m)))"
  by (rule store_ok_Update, assumption, rule zrem_fn_ok)

subsection \<open>ZADD\<close>

text \<open>A request adds cleanly when every score is a number and no member is given twice.\<close>

definition clean_pairs :: "elem list \<Rightarrow> bool" where
  "clean_pairs ps \<longleftrightarrow> distinct (map fst ps) \<and> (\<forall>p \<in> set ps. \<not> f64_nan (snd p))"

lemma ZAdd_clean:
  assumes "store_ok d" and "clean_pairs ps"
  shows "store_ok (snd (ZAdd coins d key ps)) \<and> fst (ZAdd coins d key ps) \<noteq> Panic"
proof -
  have nn: "\<And>m sc. (m, sc) \<in> set ps \<Longrightarrow> \<not> f64_nan sc" using assms(2) by (auto simp: clean_pairs_def)
  show ?thesis
  proof (cases "map_of (data d) key")
    case None
    obtain s' where "ZAdd coins d key ps = (Ret (int (card (new_members (zmap d key) ps))), s')" "store_ok s'"
      using ZAdd_fresh [OF assms(1) None, where ps = ps and coins = coins] nn assms(2) by (auto simp: clean_pairs_def)
    then show ?thesis by simp
  next
    case (Some e)
    show ?thesis
    proof (cases "EType e = EntryTypeSortedSet")
      case True
      obtain s' where "ZAdd coins d key ps = (Ret (int (card (new_members (zmap d key) ps))), s')" "store_ok s'"
        using ZAdd_existing [OF assms(1) Some True, where ps = ps and coins = coins] nn by auto
      then show ?thesis by simp
    next
      case False
      then show ?thesis using ZAdd_wrong_type [OF Some False] assms(1) by simp
    qed
  qed
qed

subsection \<open>When a handler panics\<close>

text \<open>\<^verbatim>\<open>SET\<close> with an expiry option as its last argument, after options that are all well formed.\<close>

fun dangling :: "golib \<Rightarrow> string list \<Rightarrow> bool" where
  "dangling lib [] = False"
| "dangling lib [a] = (ToLower lib a = ''px'' \<or> ToLower lib a = ''ex'')"
| "dangling lib (a # v # rest) =
     ((ToLower lib a = ''px'' \<or> ToLower lib a = ''ex'') \<and> Atoi v \<noteq> None \<and> dangling lib rest)"

lemma set_opts_panic: "set_opts env t opts = Panic \<longleftrightarrow> dangling (Lib env) opts"
proof (induction "Lib env" opts arbitrary: t rule: dangling.induct)
  case (3 a v rest)
  then show ?case by (cases "Atoi v") (auto simp: Let_def)
qed (auto simp: Let_def)

definition lpop_crash :: "Store \<Rightarrow> string list \<Rightarrow> bool" where
  "lpop_crash d args \<longleftrightarrow> 2 \<le> length args \<and>
     (case Atoi (args ! 1) of None \<Rightarrow> False | Some n \<Rightarrow> n < 0) \<and>
     (case Get d (args ! 0) of None \<Rightarrow> False | Some e \<Rightarrow> has_elements e)"

definition lrange_crash :: "Store \<Rightarrow> string list \<Rightarrow> bool" where
  "lrange_crash d args \<longleftrightarrow>
     (case Atoi (args ! 1) of None \<Rightarrow> False | Some i \<Rightarrow> i < 0) \<and> Atoi (args ! 2) \<noteq> None \<and>
     (case Get d (args ! 0) of None \<Rightarrow> False | Some e \<Rightarrow> EValue e = VList [])"

definition crashes :: "env \<Rightarrow> Request \<Rightarrow> Store \<Rightarrow> bool" where
  "crashes env req d \<longleftrightarrow>
     (Command req = SET \<and> dangling (Lib env) (drop 2 (Arguments req))) \<or>
     (Command req = PUBLISH \<and> length (Arguments req) = 1) \<or>
     (Command req = LPOP \<and> lpop_crash d (Arguments req)) \<or>
     (Command req = LRANGE \<and> lrange_crash d (Arguments req))"

definition clean_request :: "golib \<Rightarrow> Request \<Rightarrow> bool" where
  "clean_request lib req \<longleftrightarrow> (Command req = ZADD \<longrightarrow>
     (\<forall>ps. zadd_pairs lib (tl (Arguments req)) = Ret ps \<longrightarrow> clean_pairs ps))"

lemma length_ge_cases:
  "1 \<le> length xs \<Longrightarrow> \<exists>a as. xs = a # as"
  "2 \<le> length xs \<Longrightarrow> \<exists>a b as. xs = a # b # as"
  "3 \<le> length xs \<Longrightarrow> \<exists>a b c as. xs = a # b # c # as"
  "4 \<le> length xs \<Longrightarrow> \<exists>a b c d as. xs = a # b # c # d # as"
  by (auto simp: numeral_eq_Suc Suc_le_length_iff)

subsubsection \<open>Handlers that only read\<close>

text \<open>The reading handlers return the state they were given, except that \<^verbatim>\<open>GET\<close> removes an expired key.\<close>

lemma reads_state:
  "snd (HandleEcho env req c s) = s" "snd (HandlePing env req c s) = s" "snd (HandleConfig env req c s) = s"
  "snd (HandleKeys env req c s) = s" "snd (HandleLLen env req c s) = s" "snd (HandleLRange env req c s) = s"
  "snd (HandleInfo env req c s) = s" "snd (HandleReplConf env req c s) = s" "snd (HandlePSync env req c s) = s"
  "snd (HandleWait env req c s) = s" "snd (HandleZCard env req c s) = s" "snd (HandleZScore env req c s) = s"
  "snd (HandleZRank env req c s) = s" "snd (HandleZRange env req c s) = s" "snd (HandleGeoPos env req c s) = s"
  "snd (HandleGeoDist env req c s) = s"
  by (simp_all add: HandleEcho_def HandlePing_def HandleConfig_def HandleKeys_def HandleLLen_def HandleLRange_def
      HandleInfo_def HandleReplConf_def HandlePSync_def HandleWait_def HandleZCard_def HandleZScore_def
      HandleZRank_def HandleZRange_def HandleGeoPos_def HandleGeoDist_def Let_def
      split: list.split option.split prod.split val.split go_result.split)

lemma reads_geosearch: "snd (HandleGeoSearch env req c s) = s"
  by (simp add: HandleGeoSearch_def Let_def split: list.split option.split go_result.split)

lemma get_zset_no_panic: "get_zset s key t \<noteq> Panic"
  by (simp add: get_zset_def split: option.split val.split)

lemma get_zset_ok: "store_ok (DB s) \<Longrightarrow> get_zset s key t = Ret (Some z) \<Longrightarrow> zset_ok z"
  using store_ok_entry [of "DB s" key]
  by (auto simp: get_zset_def Get_def entry_ok_def split: option.splits val.splits if_splits)

lemma simple_no_panic:
  "1 \<le> length (Arguments req) \<Longrightarrow> fst (HandleEcho env req c s) \<noteq> Panic"
  "fst (HandlePing env req c s) \<noteq> Panic"
  "2 \<le> length (Arguments req) \<Longrightarrow> fst (HandleConfig env req c s) \<noteq> Panic"
  "1 \<le> length (Arguments req) \<Longrightarrow> fst (HandleKeys env req c s) \<noteq> Panic"
  "1 \<le> length (Arguments req) \<Longrightarrow> fst (HandleLLen env req c s) \<noteq> Panic"
  "fst (HandleInfo env req c s) \<noteq> Panic" "fst (HandleReplConf env req c s) \<noteq> Panic"
  "fst (HandlePSync env req c s) \<noteq> Panic"
  "1 \<le> length (Arguments req) \<Longrightarrow> fst (HandleWait env req c s) \<noteq> Panic"
  "1 \<le> length (Arguments req) \<Longrightarrow> fst (HandleZCard env req c s) \<noteq> Panic"
  "2 \<le> length (Arguments req) \<Longrightarrow> fst (HandleZScore env req c s) \<noteq> Panic"
  "1 \<le> length (Arguments req) \<Longrightarrow> fst (HandleGeoPos env req c s) \<noteq> Panic"
  "3 \<le> length (Arguments req) \<Longrightarrow> fst (HandleGeoDist env req c s) \<noteq> Panic"
  "1 \<le> length (Arguments req) \<Longrightarrow> fst (HandleGet env req c s) \<noteq> Panic"
  by (auto simp: HandleEcho_def HandlePing_def HandleConfig_def HandleKeys_def HandleLLen_def
      HandleInfo_def HandleReplConf_def HandlePSync_def HandleWait_def HandleZCard_def HandleZScore_def
      HandleGeoPos_def HandleGeoDist_def HandleGet_def Let_def get_zset_no_panic
      split: list.splits option.splits val.splits go_result.splits)

subsubsection \<open>Handlers that write\<close>

lemma HandleGet_keeps: "store_ok (DB s) \<Longrightarrow> store_ok (DB (snd (HandleGet env req c s)))"
  by (auto simp: HandleGet_def store_ok_Delete_key split: list.splits option.splits)

lemma HandleSet_keeps: "store_ok (DB s) \<Longrightarrow> store_ok (DB (snd (HandleSet env req c s)))"
  by (auto simp: HandleSet_def has_elements_def store_ok_Set split: list.splits go_result.splits)

lemma HandleSet_panic:
  assumes "2 \<le> length (Arguments req)"
  shows "fst (HandleSet env req c s) = Panic \<longleftrightarrow> dangling (Lib env) (drop 2 (Arguments req))"
proof -
  obtain key v opts where "Arguments req = key # v # opts" using length_ge_cases(2) [OF assms] by blast
  then show ?thesis
    using set_opts_panic [of env zero_time opts] by (auto simp: HandleSet_def split: go_result.splits)
qed

lemma incr_fn_total: "incr_fn e \<noteq> Panic" "incr_fn e \<noteq> Ret (None, u)"
  by (auto simp: incr_fn_def split: option.splits val.splits)

lemma HandleINCR_safe:
  assumes "store_ok (DB s)" and "1 \<le> length (Arguments req)"
  shows "store_ok (DB (snd (HandleINCR env req c s)))" and "fst (HandleINCR env req c s) \<noteq> Panic"
proof -
  obtain key rest where args: "Arguments req = key # rest" using length_ge_cases(1) [OF assms(2)] by blast
  obtain r d where r: "Update (DB s) key incr_fn = (r, d)" by fastforce
  have "store_ok d" using store_ok_Update_incr [OF assms(1), of key] r by simp
  moreover have "r \<noteq> Panic" "\<And>u. r \<noteq> Ret (None, u)"
    using Update_cases [of "DB s" key incr_fn] incr_fn_total [of "map_of (data (DB s)) key"] r
    by (auto split: go_result.splits)
  ultimately show "store_ok (DB (snd (HandleINCR env req c s)))" "fst (HandleINCR env req c s) \<noteq> Panic"
    using args r by (auto simp: HandleINCR_def Let_def split: go_result.splits option.splits)
qed

lemma push_rest_VList: "fst (push_rest d key vs dir) = Ret e \<Longrightarrow> \<exists>xs. EValue e = VList xs"
  by (auto simp: push_rest_def Let_def split: option.splits val.splits)

lemma ListPush_VList: "fst (ListPush d key vs dir) = Ret e \<Longrightarrow> \<exists>xs. EValue e = VList xs"
  by (auto simp: ListPush_def Let_def dest: push_rest_VList split: option.splits prod.splits if_splits)

lemma push_reply_safe:
  assumes "store_ok d"
  shows "store_ok (DB (snd (push_reply (ListPush d key vs dir) s))) \<and> fst (push_reply (ListPush d key vs dir) s) \<noteq> Panic"
proof -
  obtain r d' where r: "ListPush d key vs dir = (r, d')" by fastforce
  then have "r \<noteq> Panic" "store_ok d'"
    using ListPush_no_panic [OF assms, of key vs dir] store_ok_ListPush [OF assms, of key vs dir] by simp_all
  then show ?thesis
    using r ListPush_VList [of d key vs dir] by (cases r) (auto simp: push_reply_def)
qed

lemma push_handlers_safe:
  assumes "store_ok (DB s)"
  shows "store_ok (DB (snd (HandleRPush env req c s)))" and "store_ok (DB (snd (HandleLPush env req c s)))"
    and "1 \<le> length (Arguments req) \<Longrightarrow> fst (HandleRPush env req c s) \<noteq> Panic"
    and "1 \<le> length (Arguments req) \<Longrightarrow> fst (HandleLPush env req c s) \<noteq> Panic"
  using assms by (auto simp: HandleRPush_def HandleLPush_def push_reply_safe split: list.splits)

lemma HandleLPop_keeps:
  assumes "store_ok (DB s)"
  shows "store_ok (DB (snd (HandleLPop env req c s)))"
proof -
  have "store_ok d" if "Update (DB s) key (lpop_fn n) = (r, d)" for key n r d
    using store_ok_Update_lpop [OF assms, of key n] that by simp
  then show ?thesis
    using assms by (simp add: HandleLPop_def split: list.split prod.split go_result.split option.split)
qed

lemma lpop_fn_panic:
  "lpop_fn n e = Panic \<longleftrightarrow> n < 0 \<and> (case e of None \<Rightarrow> False | Some en \<Rightarrow> has_elements en)"
  by (auto simp: lpop_fn_def has_elements_def go_slice_def Let_def split: option.splits val.splits)

lemma HandleLPop_panic:
  assumes "1 \<le> length (Arguments req)"
  shows "fst (HandleLPop env req c s) = Panic \<longleftrightarrow> lpop_crash (DB s) (Arguments req)"
proof -
  obtain key rest where a: "Arguments req = key # rest" using length_ge_cases(1) [OF assms] by blast
  let ?n = "case rest of [] \<Rightarrow> Some 1 | n # _ \<Rightarrow> Atoi n"
  show ?thesis
  proof (cases ?n)
    case None
    with a show ?thesis by (auto simp: HandleLPop_def lpop_crash_def split: list.splits)
  next
    case (Some n)
    have "fst (HandleLPop env req c s) = Panic \<longleftrightarrow> fst (Update (DB s) key (lpop_fn n)) = Panic"
      using a Some by (auto simp: HandleLPop_def split: prod.splits go_result.splits list.splits)
    also have "\<dots> \<longleftrightarrow> n < 0 \<and> (case Get (DB s) key of None \<Rightarrow> False | Some e \<Rightarrow> has_elements e)"
      using lpop_fn_panic [of n "map_of (data (DB s)) key"] by (auto simp: Update_cases Get_def split: go_result.splits)
    also have "\<dots> \<longleftrightarrow> lpop_crash (DB s) (Arguments req)"
      using a Some by (cases rest) (auto simp: lpop_crash_def)
    finally show ?thesis .
  qed
qed

lemma normalizeIndex_range:
  assumes "0 < n"
  shows "0 \<le> normalizeIndex i n" and "normalizeIndex i n < n"
  using assms by (auto simp: normalizeIndex_def Let_def)

lemma HandleLRange_panic:
  assumes "store_ok (DB s)" and "3 \<le> length (Arguments req)"
  shows "fst (HandleLRange env req c s) = Panic \<longleftrightarrow> lrange_crash (DB s) (Arguments req)"
proof -
  obtain key a b rest where args: "Arguments req = key # a # b # rest" using length_ge_cases(3) [OF assms(2)] by blast
  show ?thesis
  proof (cases "Atoi a = None \<or> Atoi b = None \<or> Get (DB s) key = None")
    case True
    with args show ?thesis by (auto simp: HandleLRange_def lrange_crash_def split: option.splits)
  next
    case False
    then obtain i j e where n: "Atoi a = Some i" "Atoi b = Some j" "Get (DB s) key = Some e" by auto
    have ok: "entry_ok e" using store_ok_entry [OF assms(1)] n(3) by (simp add: Get_def)
    show ?thesis
    proof (cases "EValue e")
      case (VList vs)
      then have t: "EType e = EntryTypeList" using ok by (simp add: entry_ok_def)
      show ?thesis
      proof (cases "vs = []")
        case True
        have "normalizeIndex k 0 = - 1" if "k < 0 \<or> True" for k by (simp add: normalizeIndex_def Let_def)
        with args n VList t True show ?thesis
          by (auto simp: HandleLRange_def lrange_crash_def Let_def index_range_def)
      next
        case False
        then have "0 < int (length vs)" by simp
        then have "normalizeIndex i (int (length vs)) \<ge> 0" "normalizeIndex j (int (length vs)) < int (length vs)"
          by (rule normalizeIndex_range)+
        with args n VList t False show ?thesis
          by (auto simp: HandleLRange_def lrange_crash_def Let_def index_range_def)
      qed
    qed (use args n ok in \<open>auto simp: HandleLRange_def lrange_crash_def entry_ok_def\<close>)
  qed
qed

lemma BLPOP_no_panic: "fst (BLPOP d key) \<noteq> Panic"
  by (auto simp: BLPOP_def split: option.splits val.splits list.splits prod.splits)

lemma HandleBLPop_safe:
  assumes "store_ok (DB s)" and "2 \<le> length (Arguments req)"
  shows "store_ok (DB (snd (HandleBLPop env req c s)))" and "fst (HandleBLPop env req c s) \<noteq> Panic"
proof -
  obtain key t rest where args: "Arguments req = key # t # rest" using length_ge_cases(2) [OF assms(2)] by blast
  obtain r d where r: "BLPOP (DB s) key = (r, d)" by fastforce
  then have "r \<noteq> Panic" "store_ok d"
    using BLPOP_no_panic [of "DB s" key] store_ok_BLPOP [OF assms(1), of key] by simp_all
  with args r assms(1) show "store_ok (DB (snd (HandleBLPop env req c s)))" "fst (HandleBLPop env req c s) \<noteq> Panic"
    by (auto simp: HandleBLPop_def split: option.splits go_result.splits blpop_outcome.splits)
qed

lemma zadd_pairs_no_panic: "even (length xs) \<Longrightarrow> zadd_pairs lib xs \<noteq> Panic"
  by (induction lib xs rule: zadd_pairs.induct) (auto simp: bind_go_Panic_iff split: option.splits)

lemma HandleZAdd_safe:
  assumes "store_ok (DB s)" and "1 \<le> length (Arguments req)" and "clean_request (Lib env) req" and "Command req = ZADD"
  shows "store_ok (DB (snd (HandleZAdd env req c s)))" and "fst (HandleZAdd env req c s) \<noteq> Panic"
proof -
  obtain key rest where args: "Arguments req = key # rest" using length_ge_cases(1) [OF assms(2)] by blast
  have zok: "store_ok d"
    if "zadd_pairs (Lib env) rest = Ret ps" "ZAdd (Coins env) (DB s) key ps = (r, d)" for ps r d
    using ZAdd_clean [OF assms(1), of ps "Coins env" key] assms(3,4) args that by (auto simp: clean_request_def)
  have zp: "ZAdd (Coins env) (DB s) key ps = (Panic, d) \<longleftrightarrow> False"
    if "zadd_pairs (Lib env) rest = Ret ps" for ps d
    using ZAdd_clean [OF assms(1), of ps "Coins env" key] assms(3,4) args that by (auto simp: clean_request_def)
  show "store_ok (DB (snd (HandleZAdd env req c s)))"
    using assms(1) args zok by (auto simp: HandleZAdd_def split: go_result.splits prod.splits)
  show "fst (HandleZAdd env req c s) \<noteq> Panic"
  proof (cases "even (length rest)")
    case True
    then show ?thesis
      using args zadd_pairs_no_panic [OF True, of "Lib env"]
      by (auto simp: HandleZAdd_def zp split: go_result.splits prod.splits)
  next
    case False
    then show ?thesis using args by (simp add: HandleZAdd_def odd_iff_mod_2_eq_one)
  qed
qed

lemma HandleZRem_safe:
  assumes "store_ok (DB s)" and "2 \<le> length (Arguments req)"
  shows "store_ok (DB (snd (HandleZRem env req c s)))" and "fst (HandleZRem env req c s) \<noteq> Panic"
proof -
  obtain key m rest where args: "Arguments req = key # m # rest" using length_ge_cases(2) [OF assms(2)] by blast
  obtain r d where r: "Update (DB s) key (zrem_fn m) = (r, d)" by fastforce
  have "store_ok d" using store_ok_Update_zrem [OF assms(1), of key m] r by simp
  moreover have "r \<noteq> Panic"
    using Update_cases [of "DB s" key "zrem_fn m"] zrem_fn_no_panic [OF assms(1), of m key] r
    by (simp split: go_result.splits)
  ultimately show "store_ok (DB (snd (HandleZRem env req c s)))" "fst (HandleZRem env req c s) \<noteq> Panic"
    using args r by (auto simp: HandleZRem_def split: go_result.splits)
qed

lemma zset_rank_total:
  "zset_ok z \<Longrightarrow> map_of (HashMap z) m = Some sc \<Longrightarrow> \<exists>r. GetRank (ZSkipList z) m sc = Some r"
  using skip_list.rank_indexes [of "ZSkipList z" "map_of (HashMap z)" m sc] by (auto simp: zset_ok_def)

lemma zset_range_total: "zset_ok z \<Longrightarrow> \<exists>ns. sl_Range (ZSkipList z) i j = Some ns"
  using skip_list.range_spec [of "ZSkipList z" i j] by (auto simp: zset_ok_def)

lemma HandleZRank_no_panic:
  assumes "store_ok (DB s)" and "2 \<le> length (Arguments req)"
  shows "fst (HandleZRank env req c s) \<noteq> Panic"
proof -
  obtain key m rest where args: "Arguments req = key # m # rest" using length_ge_cases(2) [OF assms(2)] by blast
  show ?thesis
  proof (cases "\<exists>z. get_zset s key ERR = Ret (Some z)")
    case True
    then obtain z where z: "get_zset s key ERR = Ret (Some z)" by blast
    then have "zset_ok z" by (rule get_zset_ok [OF assms(1)])
    with args z zset_rank_total [of z m] show ?thesis by (auto simp: HandleZRank_def split: option.splits)
  next
    case False
    with args get_zset_no_panic [of s key ERR] show ?thesis
      by (auto simp: HandleZRank_def split: option.splits go_result.splits)
  qed
qed

lemma HandleZRange_no_panic:
  assumes "store_ok (DB s)" and "3 \<le> length (Arguments req)"
  shows "fst (HandleZRange env req c s) \<noteq> Panic"
proof -
  obtain key a b rest where args: "Arguments req = key # a # b # rest" using length_ge_cases(3) [OF assms(2)] by blast
  show ?thesis
  proof (cases "\<exists>z. get_zset s key WRONGTYPE = Ret (Some z)")
    case True
    then obtain z where z: "get_zset s key WRONGTYPE = Ret (Some z)" by blast
    then have ok: "zset_ok z" by (rule get_zset_ok [OF assms(1)])
    have total: "sl_Range (ZSkipList z) i j = None \<longleftrightarrow> False" for i j using zset_range_total [OF ok, of i j] by auto
    from args z show ?thesis by (simp add: HandleZRange_def Let_def total split: option.split)
  next
    case False
    with args get_zset_no_panic [of s key WRONGTYPE] show ?thesis
      by (auto simp: HandleZRange_def split: option.splits go_result.splits)
  qed
qed

lemma HandleGeoAdd_safe:
  assumes "store_ok (DB s)" and "4 \<le> length (Arguments req)"
  shows "store_ok (DB (snd (HandleGeoAdd env req c s)))" and "fst (HandleGeoAdd env req c s) \<noteq> Panic"
proof -
  obtain key lon lat m rest where args: "Arguments req = key # lon # lat # m # rest"
    using length_ge_cases(4) [OF assms(2)] by blast
  have "clean_pairs [(m, f64_of_uint n)]" for n by (simp add: clean_pairs_def f64_of_uint_no_nan)
  then have zc: "store_ok (snd (ZAdd (Coins env) (DB s) key [(m, f64_of_uint n)])) \<and>
      fst (ZAdd (Coins env) (DB s) key [(m, f64_of_uint n)]) \<noteq> Panic" for n
    using ZAdd_clean [OF assms(1)] by blast
  have z: "store_ok d" if "ZAdd (Coins env) (DB s) key [(m, f64_of_uint n)] = (r, d)" for n r d
    using zc [of n] that by simp
  have zp: "ZAdd (Coins env) (DB s) key [(m, f64_of_uint n)] = (Panic, d) \<longleftrightarrow> False" for n d
    using zc [of n] by auto
  show "store_ok (DB (snd (HandleGeoAdd env req c s)))" "fst (HandleGeoAdd env req c s) \<noteq> Panic"
    using args assms(1) z
    by (auto simp: HandleGeoAdd_def Let_def zp split: option.splits go_result.splits prod.splits)
qed

lemma HandleGeoSearch_no_panic: "7 \<le> length (Arguments req) \<Longrightarrow> fst (HandleGeoSearch env req c s) \<noteq> Panic"
  using get_zset_no_panic
  by (auto simp: HandleGeoSearch_def Let_def split: list.splits option.splits go_result.splits)

subsubsection \<open>Handlers of sessions\<close>

lemma session_handlers:
  "DB (snd (HandleUnwatch env req c s)) = DB s" "fst (HandleUnwatch env req c s) \<noteq> Panic"
  "DB (snd (HandleWatch env req c s)) = DB s" "fst (HandleWatch env req c s) \<noteq> Panic"
  "DB (snd (HandleDiscard env req c s)) = DB s" "fst (HandleDiscard env req c s) \<noteq> Panic"
  "DB (snd (HandleMulti env req c s)) = DB s" "fst (HandleMulti env req c s) \<noteq> Panic"
  "DB (snd (HandleSubscribe env req c s)) = DB s" "DB (snd (HandleUnsubscribe env req c s)) = DB s"
  "1 \<le> length (Arguments req) \<Longrightarrow> fst (HandleSubscribe env req c s) \<noteq> Panic"
  "1 \<le> length (Arguments req) \<Longrightarrow> fst (HandleUnsubscribe env req c s) \<noteq> Panic"
  by (auto simp: HandleUnwatch_def HandleWatch_def HandleDiscard_def HandleMulti_def HandleSubscribe_def
      HandleUnsubscribe_def Let_def split: list.splits)

lemma publish_all_state: "publish_all env b is s = (r, s') \<Longrightarrow> DB s' = DB s"
  using DB_publish_all [of env b "is" s] by simp

lemma publish_all_panic: "publish_all env b is s = (Panic, s') \<longleftrightarrow> False"
  using publish_all_no_panic [of env b "is" s] by auto

lemma HandlePublish_safe:
  "DB (snd (HandlePublish env req c s)) = DB s"
  "1 \<le> length (Arguments req) \<Longrightarrow> fst (HandlePublish env req c s) = Panic \<longleftrightarrow> length (Arguments req) = 1"
  by (auto simp: HandlePublish_def Let_def publish_all_panic dest: publish_all_state
      split: list.splits prod.splits go_result.splits)

end
