(* ===== verification/CommandSpec.thy ===== *)
theory CommandSpec
  imports HandlersCorrect
begin

text \<open>
  What the commands compute, as a client sees it: values that are written are read back, counters, list ranges and
  pops, ranks and ranges of sorted sets against the ordered list of their pairs, and places.
\<close>

lemma store_ok_singleton: "entry_ok e \<Longrightarrow> store_ok (Set New k e)"
  using store_ok_put [OF store_ok_New, of e k] by (simp add: Set_def New_def)

lemma Get_singleton: "Get (Set New k e) k = Some e"
  by (simp add: store_keys.get_put)

subsection \<open>Strings\<close>

lemma DB_HandleSet:
  assumes "Arguments req = k # v # opts" and "set_opts env zero_time opts = Ret t"
  shows "HandleSet env req c s = reply_bytes OK (set_DB (Set (DB s) k \<lparr>EType = EntryTypeString, EValue = VString v, ExpireAt = t\<rparr>) s)"
  using assms by (simp add: HandleSet_def)

text \<open>C28. A \<^verbatim>\<open>GET\<close> after a \<^verbatim>\<open>SET\<close> of the same key, whoever sends it and whatever the key held before, replies with the value
  that was set while its deadline has not passed; once it has passed, it replies with the null bulk string and removes
  the key. Every other key keeps its entry.\<close>

theorem get_after_set:
  assumes "Arguments req = k # v # opts" and "set_opts env zero_time opts = Ret t" and "Arguments req' = k # rest"
    and "s1 = snd (HandleSet env req c s)"
  shows "fst (HandleSet env req c s) = Ret (Bytes OK) \<and>
    HandleGet env' req' c' s1 =
      (if t \<noteq> zero_time \<and> t < Now env' then reply_bytes NullBulkString_Marshal (set_DB (Delete_key (DB s1) k) s1)
       else reply_bytes (BulkString_Marshal v) s1) \<and>
    (\<forall>k'. k' \<noteq> k \<longrightarrow> Get (DB s1) k' = Get (DB s) k')"
  using assms by (auto simp: DB_HandleSet HandleGet_def store_keys.get_put expired_def)

theorem get_after_set_witness:
  "HandleGet (sample_env 3000000001) \<lparr>Command = GET, Arguments = [''k'']\<rparr> 2
     (snd (HandleSet (sample_env 1000000000) \<lparr>Command = SET, Arguments = [''k'', ''v'', ''EX'', ''2'']\<rparr> 1 sample_server))
   = reply_bytes NullBulkString_Marshal (set_DB (Delete_key (DB (snd (HandleSet (sample_env 1000000000)
       \<lparr>Command = SET, Arguments = [''k'', ''v'', ''EX'', ''2'']\<rparr> 1 sample_server))) ''k'')
       (snd (HandleSet (sample_env 1000000000) \<lparr>Command = SET, Arguments = [''k'', ''v'', ''EX'', ''2'']\<rparr> 1 sample_server)))"
proof -
  have "set_opts (sample_env 1000000000) zero_time [''EX'', ''2''] = Ret 3000000000" by code_simp
  moreover have "Now (sample_env 3000000001) = 3000000001" by (simp add: sample_env_def)
  moreover have "(3000000000 :: int) \<noteq> zero_time" by (simp add: zero_time_def)
  ultimately show ?thesis
    using get_after_set [where req = "\<lparr>Command = SET, Arguments = [''k'', ''v'', ''EX'', ''2'']\<rparr>" and env = "sample_env 1000000000"
        and k = "''k''" and v = "''v''" and opts = "[''EX'', ''2'']" and t = 3000000000 and env' = "sample_env 3000000001"
        and req' = "\<lparr>Command = GET, Arguments = [''k'']\<rparr>" and rest = "[]" and s = sample_server and c = 1 and c' = 2, OF _ _ _ refl]
    by simp
qed

text \<open>What \<^verbatim>\<open>INCR\<close> makes of an entry: the reply and the new entry, or nothing when it refuses.\<close>

definition incr_result :: "Entry option \<Rightarrow> (int \<times> Entry) option" where
  "incr_result e = (case e of
      None \<Rightarrow> Some (1, \<lparr>EType = EntryTypeString, EValue = VString ''1'', ExpireAt = zero_time\<rparr>)
    | Some en \<Rightarrow> (case EValue en of
        VString v \<Rightarrow> map_option (\<lambda>n. (wrap64 (n + 1), en\<lparr>EValue := VString (Itoa (wrap64 (n + 1)))\<rparr>)) (Atoi v)
      | _ \<Rightarrow> None))"

lemma incr_fn_result:
  assumes "\<forall>en. e = Some en \<longrightarrow> entry_ok en"
  shows "incr_fn e = (case incr_result e of
      Some (n, en) \<Rightarrow> Ret (Some en, ()) | None \<Rightarrow> Err (ESimple ERR ErrorMessageNotInteger))"
  using assms
  by (auto simp: incr_fn_def incr_result_def entry_ok_def split: option.splits val.splits)

lemma incr_result_text:
  assumes "incr_result e = Some (n, en)"
  shows "\<exists>v. EValue en = VString v \<and> Atoi v = Some n"
proof (cases e)
  case None
  have "Atoi ''1'' = Some 1" by code_simp
  with assms None show ?thesis by (auto simp: incr_result_def)
next
  case (Some e')
  with assms show ?thesis using wrap64_range
    by (auto simp: incr_result_def Atoi_Itoa split: val.splits)
qed

text \<open>C29. \<^verbatim>\<open>INCR\<close> on an absent key stores 1. On a string that is the decimal text of a 64-bit integer it stores and
  replies the successor, which wraps from the largest to the smallest integer, and keeps the deadline of the key. On any other
  entry it fails and changes nothing.\<close>

theorem incr_counts:
  assumes "store_ok (DB s)" and "Arguments req = [k]"
  shows "HandleINCR env req c s = (case incr_result (Get (DB s) k) of
      Some (n, e) \<Rightarrow> reply_bytes (Integer_Marshal n) (set_DB (Set (DB s) k e) s)
    | None \<Rightarrow> simple_err ERR ErrorMessageNotInteger s)"
proof -
  have f: "incr_fn (Get (DB s) k) = (case incr_result (Get (DB s) k) of
      Some (n, en) \<Rightarrow> Ret (Some en, ()) | None \<Rightarrow> Err (ESimple ERR ErrorMessageNotInteger))"
    using store_ok_entry [OF assms(1)] by (intro incr_fn_result) (simp add: Get_def)
  show ?thesis
  proof (cases "incr_result (Get (DB s) k)")
    case None
    with f assms(2) show ?thesis
      using store_keys.upd_failed [of incr_fn "DB s" k] by (simp add: HandleINCR_def set_DB_def)
  next
    case (Some p)
    obtain n e where p: "p = (n, e)" by fastforce
    with f Some have "Update (DB s) k incr_fn = (Ret (Some e, ()), Set (DB s) k e)"
      by (intro store_keys.upd_written) simp
    then show ?thesis using Some p assms(2) incr_result_text [of "Get (DB s) k" n e] by (auto simp: HandleINCR_def)
  qed
qed

theorem incr_counts_witness:
  "HandleINCR (sample_env 0) \<lparr>Command = INCR, Arguments = [''n'']\<rparr> 1
     (set_DB (Set New ''n'' \<lparr>EType = EntryTypeString, EValue = VString (Itoa max_int64), ExpireAt = zero_time\<rparr>) sample_server)
   = reply_bytes (Integer_Marshal min_int64) (set_DB (Set
       (Set New ''n'' \<lparr>EType = EntryTypeString, EValue = VString (Itoa max_int64), ExpireAt = zero_time\<rparr>) ''n''
         \<lparr>EType = EntryTypeString, EValue = VString (Itoa min_int64), ExpireAt = zero_time\<rparr>)
       (set_DB (Set New ''n'' \<lparr>EType = EntryTypeString, EValue = VString (Itoa max_int64), ExpireAt = zero_time\<rparr>)
         sample_server))"
proof -
  let ?d = "Set New ''n'' \<lparr>EType = EntryTypeString, EValue = VString (Itoa max_int64), ExpireAt = zero_time\<rparr>"
  have ok: "store_ok ?d" by (simp add: store_ok_singleton)
  have "Atoi (Itoa max_int64) = Some max_int64" by (rule Atoi_Itoa) (simp_all add: max_int64_def min_int64_def)
  moreover have "wrap64 (max_int64 + 1) = min_int64" by (simp add: wrap64_def max_int64_def min_int64_def)
  ultimately have r: "incr_result (Get ?d ''n'') = Some (min_int64,
      \<lparr>EType = EntryTypeString, EValue = VString (Itoa min_int64), ExpireAt = zero_time\<rparr>)"
    by (simp add: incr_result_def Get_singleton)
  show ?thesis
    by (subst incr_counts [where k = "''n''"]) (simp_all only: DB_simps ok r Request.select_convs option.case prod.case)
qed

subsection \<open>Lists\<close>

lemma map_nth_upto:
  assumes "0 \<le> lo" and "hi < int (length xs)"
  shows "take (nat (hi - lo + 1)) (drop (nat lo) xs) = map (\<lambda>k. xs ! nat k) [lo..hi]"
  using assms by (intro nth_equalityI) (auto simp: nat_add_distrib)

lemma index_range_upto:
  "0 \<le> lo \<Longrightarrow> hi < int (length xs) \<Longrightarrow> index_range lo hi xs = Some (map (\<lambda>k. xs ! nat k) [lo..hi])"
  using map_nth_upto [of lo hi xs] by (auto simp: index_range_def)

text \<open>C30. \<^verbatim>\<open>LRANGE\<close> on a list that is not empty replies with the elements at the positions from the first to the second
  index, in order: an index below zero counts from the end and stops at the head of the list, the second index stops at the
  last element, and a first index past the end gives the empty array. The state is unchanged.\<close>

theorem lrange_selects:
  assumes "store_ok (DB s)" and "Arguments req = k # a # b # rest" and "Atoi a = Some i" and "Atoi b = Some j"
    and "Get (DB s) k = Some e" and "EValue e = VList xs" and "xs \<noteq> []"
    and "lo = (if i < 0 then max 0 (int (length xs) + i) else i)"
    and "hi = (if j < 0 then max 0 (int (length xs) + j) else min j (int (length xs) - 1))"
  shows "HandleLRange env req c s = reply_bytes (Array_Marshal (map (\<lambda>p. BulkString_Marshal (xs ! nat p)) [lo..hi])) s"
proof -
  let ?n = "int (length xs)"
  have n: "0 < ?n" using assms(7) by simp
  have "entry_ok e" using store_ok_entry [OF assms(1)] assms(5) by (simp add: Get_def)
  then have t: "EType e = EntryTypeList" using assms(6) by (simp add: entry_ok_def)
  have hi: "normalizeIndex j ?n = hi" using n assms(9) by (auto simp: normalizeIndex_def Let_def)
  show ?thesis
  proof (cases "?n \<le> i")
    case True
    then have "0 < i" using n by linarith
    with True have "[lo..hi] = []" using assms(8,9) by (simp add: max_def min_def split: if_splits)
    with True show ?thesis using assms(2-6) t by (simp add: HandleLRange_def)
  next
    case False
    then have lo: "normalizeIndex i ?n = lo" "0 \<le> lo" using n assms(8) by (auto simp: normalizeIndex_def Let_def)
    have "hi < ?n" using n assms(9) by auto
    then have "index_range lo hi xs = Some (map (\<lambda>k. xs ! nat k) [lo..hi])" using lo(2) by (rule index_range_upto [rotated])
    then show ?thesis using False assms(2-6) t lo hi by (simp add: HandleLRange_def Let_def comp_def)
  qed
qed

theorem lrange_selects_witness:
  "HandleLRange (sample_env 0) \<lparr>Command = LRANGE, Arguments = [''l'', ''-2'', ''9'']\<rparr> 1
     (set_DB (Set New ''l'' \<lparr>EType = EntryTypeList, EValue = VList [''a'', ''b'', ''c''], ExpireAt = zero_time\<rparr>) sample_server)
   = reply_bytes (Array_Marshal [BulkString_Marshal ''b'', BulkString_Marshal ''c''])
     (set_DB (Set New ''l'' \<lparr>EType = EntryTypeList, EValue = VList [''a'', ''b'', ''c''], ExpireAt = zero_time\<rparr>) sample_server)"
proof -
  let ?e = "\<lparr>EType = EntryTypeList, EValue = VList [''a'', ''b'', ''c''], ExpireAt = zero_time\<rparr>"
  let ?d = "Set New ''l'' ?e"
  have ok: "store_ok (DB (set_DB ?d sample_server))" and get: "Get (DB (set_DB ?d sample_server)) ''l'' = Some ?e"
    by (simp_all add: store_ok_singleton Get_singleton)
  have n: "Atoi ''-2'' = Some (-2)" "Atoi ''9'' = Some 9" by code_simp+
  have r: "[1..2 :: int] = [1, 2]" by (simp add: upto.simps)
  show ?thesis
    by (subst lrange_selects [OF ok _ n get, where xs = "[''a'', ''b'', ''c'']" and lo = 1 and hi = 2])
      (simp_all add: r numeral_2_eq_2)
qed

text \<open>\<^verbatim>\<open>LPOP\<close> with a count that is not negative removes that many elements from the head of a list, all of them when
  there are fewer, and replies with them in order (a single bulk string when no count was given, the null bulk string when
  nothing was popped). Other keys keep their entries.\<close>

theorem lpop_takes_head:
  assumes "Arguments req = k # rest" and "(case rest of [] \<Rightarrow> Some 1 | n # _ \<Rightarrow> Atoi n) = Some n" and "0 \<le> n"
    and "Get (DB s) k = Some e" and "EValue e = VList xs" and "xs \<noteq> []"
    and "s1 = set_DB (Set (DB s) k (e\<lparr>EValue := VList (drop (nat n) xs)\<rparr>)) s"
  shows "HandleLPop env req c s = reply_bytes (case take (nat n) xs of
      [] \<Rightarrow> NullBulkString_Marshal
    | v # vs \<Rightarrow> if rest = [] then BulkString_Marshal v else Array_Marshal (map BulkString_Marshal (v # vs))) s1 \<and>
    (\<forall>k'. k' \<noteq> k \<longrightarrow> Get (DB s1) k' = Get (DB s) k')"
proof -
  let ?m = "if int (length xs) < n then int (length xs) else n"
  have "go_slice 0 ?m xs = Some (take (nat n) xs)" "go_slice ?m (int (length xs)) xs = Some (drop (nat n) xs)"
    using assms(3) by (auto simp: go_slice_def)
  then have "lpop_fn n (Get (DB s) k) = Ret (Some (e\<lparr>EValue := VList (drop (nat n) xs)\<rparr>), take (nat n) xs)"
    using assms(4-6) by (simp add: lpop_fn_def Let_def)
  then have "Update (DB s) k (lpop_fn n) = (Ret (Some (e\<lparr>EValue := VList (drop (nat n) xs)\<rparr>), take (nat n) xs), DB s1)"
    using assms(7) by (simp add: store_keys.upd_written)
  then show ?thesis
    using assms(1,2,7) by (auto simp: HandleLPop_def store_keys.get_put split: list.split)
qed

theorem lpop_takes_head_witness:
  "HandleLPop (sample_env 0) \<lparr>Command = LPOP, Arguments = [''l'', ''2'']\<rparr> 1
     (set_DB (Set New ''l'' \<lparr>EType = EntryTypeList, EValue = VList [''a'', ''b'', ''c''], ExpireAt = zero_time\<rparr>) sample_server)
   = reply_bytes (Array_Marshal [BulkString_Marshal ''a'', BulkString_Marshal ''b''])
     (set_DB (Set New ''l'' \<lparr>EType = EntryTypeList, EValue = VList [''c''], ExpireAt = zero_time\<rparr>) sample_server)"
proof -
  let ?e = "\<lparr>EType = EntryTypeList, EValue = VList [''a'', ''b'', ''c''], ExpireAt = zero_time\<rparr>"
  let ?s = "set_DB (Set New ''l'' ?e) sample_server"
  have "Atoi ''2'' = Some 2" by code_simp
  moreover have "Get (DB ?s) ''l'' = Some ?e" by (simp add: Get_singleton)
  moreover have "set_DB (Set (DB ?s) ''l'' (?e\<lparr>EValue := VList [''c'']\<rparr>)) ?s =
      set_DB (Set New ''l'' \<lparr>EType = EntryTypeList, EValue = VList [''c''], ExpireAt = zero_time\<rparr>) sample_server"
    by (simp add: set_DB_def Set_def New_def)
  ultimately show ?thesis
    using lpop_takes_head [of "\<lparr>Command = LPOP, Arguments = [''l'', ''2'']\<rparr>" "''l''" "[''2'']" 2 ?s ?e "[''a'', ''b'', ''c'']" _
        "sample_env 0" 1, OF _ _ _ _ _ _ refl] by (simp add: numeral_2_eq_2)
qed

subsection \<open>Sorted sets\<close>

lemma get_zset_entry:
  assumes "store_ok (DB s)" and "Get (DB s) k = Some e" and "EValue e = VZSet z"
  shows "get_zset s k t = Ret (Some z)" and "zset_ok z" and "zmap (DB s) k = map_of (HashMap z)"
  using store_ok_entry [OF assms(1), of k e] assms(2,3) by (simp_all add: get_zset_def Get_def entry_ok_def zmap_def)

text \<open>The order every reader of a sorted set sees: the pairs of the set, sorted by score and then by member.\<close>

definition zorder :: "ZSet \<Rightarrow> elem list" where
  "zorder z = sl_elems (ZSkipList z)"

lemma zorder_spec:
  assumes "zset_ok z"
  shows "sorted (map ekey (zorder z))" and "distinct (map fst (zorder z))" and "map_of (zorder z) = map_of (HashMap z)"
    and "length (zorder z) = length (HashMap z)"
  using assms skip_list.elems_sorted zset_ok_length by (auto simp: zset_ok_def indexes_def zorder_def)

text \<open>A store with a sorted set of two members, for the examples.\<close>

definition sample_zset_store :: Store where
  "sample_zset_store = snd (ZAdd (\<lambda>_ _. False) New ''z'' [(''b'', f64_one), (''a'', f64_zero)])"

lemma sample_zset:
  obtains e z where "store_ok sample_zset_store" and "Get sample_zset_store ''z'' = Some e" and "EValue e = VZSet z"
    and "HashMap z = [(''b'', f64_one), (''a'', f64_zero)]" and "zorder z = [(''a'', f64_zero), (''b'', f64_one)]"
proof -
  note nn = f64_examples(4,5)
  obtain t1 where t1: "Insert (\<lambda>_. False) NewSkipList ''b'' f64_one = Some t1" "sl_inv t1" "sl_elems t1 = [(''b'', f64_one)]"
    using skip_list.ins_spec [OF skip_list.inv_emp nn(2), of "\<lambda>_. False" "''b''"] by (auto simp: skip_list.elems_emp)
  obtain t2 where t2: "Insert (\<lambda>_. False) t1 ''a'' f64_zero = Some t2"
      "sl_elems t2 = insort_key ekey (''a'', f64_zero) [(''b'', f64_one)]"
    using skip_list.ins_spec [OF t1(2) nn(1), of "\<lambda>_. False" "''a''"] t1(3) by auto
  let ?z = "\<lparr>HashMap = [(''b'', f64_one), (''a'', f64_zero)], ZSkipList = t2\<rparr>"
  have "zorder ?z = [(''a'', f64_zero), (''b'', f64_one)]" by (simp add: zorder_def t2(2) ekey_def f64_examples)
  moreover have "Get sample_zset_store ''z'' = Some \<lparr>EType = EntryTypeSortedSet, EValue = VZSet ?z, ExpireAt = zero_time\<rparr>"
    using t1(1) t2(1) by (simp add: sample_zset_store_def ZAdd_def Update_def zadd_fn_def New_def Get_def)
  moreover have "store_ok sample_zset_store"
    using ZAdd_clean [OF store_ok_New, of "[(''b'', f64_one), (''a'', f64_zero)]" "\<lambda>_ _. False" "''z''"] nn
    by (simp add: sample_zset_store_def clean_pairs_def)
  ultimately show thesis using that by simp
qed

text \<open>C31. \<^verbatim>\<open>ZRANK\<close> of a member replies with the number of pairs of the set that are smaller in the order by score and then by
  member; the hash map and the skip list give one consistent answer.\<close>

theorem zrank_counts_smaller:
  assumes "store_ok (DB s)" and "Arguments req = k # m # rest" and "Get (DB s) k = Some e" and "EValue e = VZSet z"
    and "zmap (DB s) k m = Some sc"
  shows "HandleZRank env req c s =
    reply_bytes (Integer_Marshal (int (card {(m', sc'). zmap (DB s) k m' = Some sc' \<and> ekey (m', sc') < ekey (m, sc)}))) s"
proof -
  note z = get_zset_entry [OF assms(1,3,4)]
  have hm: "map_of (HashMap z) m = Some sc" using assms(5) z(3) by simp
  have "GetRank (ZSkipList z) m sc = Some (int (card (smaller (map_of (HashMap z)) (ekey (m, sc)))) + 1)"
    using z(2) hm by (intro skip_list.rank_indexes) (simp_all add: zset_ok_def)
  then show ?thesis using assms(2) z hm by (simp add: HandleZRank_def smaller_def)
qed

theorem zrank_counts_smaller_witness:
  "HandleZRank (sample_env 0) \<lparr>Command = ZRANK, Arguments = [''z'', ''b'']\<rparr> 1 (set_DB sample_zset_store sample_server)
     = reply_bytes (Integer_Marshal 1) (set_DB sample_zset_store sample_server)"
proof -
  obtain e z where z: "store_ok sample_zset_store" "Get sample_zset_store ''z'' = Some e" "EValue e = VZSet z"
      "HashMap z = [(''b'', f64_one), (''a'', f64_zero)]" by (rule sample_zset)
  then have hm: "zmap sample_zset_store ''z'' = [''b'' \<mapsto> f64_one, ''a'' \<mapsto> f64_zero]"
    by (auto simp: zmap_def Get_def fun_eq_iff)
  have "{(m', sc'). zmap sample_zset_store ''z'' m' = Some sc' \<and> ekey (m', sc') < ekey (''b'', f64_one)} = {(''a'', f64_zero)}"
    by (auto simp: hm ekey_def f64_examples split: if_splits)
  then show ?thesis
    using zrank_counts_smaller [of "set_DB sample_zset_store sample_server" "\<lparr>Command = ZRANK, Arguments = [''z'', ''b'']\<rparr>"
        "''z''" "''b''" "[]" e z f64_one] z hm by simp
qed

lemma zrange_reply:
  assumes "store_ok (DB s)" and "Arguments req = k # a # b # rest" and "Atoi a = Some i" and "Atoi b = Some j"
    and "Get (DB s) k = Some e" and "EValue e = VZSet z" and "HashMap z \<noteq> []"
    and "n = int (length (HashMap z))"
  shows "HandleZRange env req c s = reply_bytes (Array_Marshal (map (\<lambda>p. BulkString_Marshal (fst (zorder z ! nat p)))
      [normalizeIndex i n..normalizeIndex j n])) s"
proof -
  note z = get_zset_entry [OF assms(1,5,6)] and ord = zorder_spec [OF get_zset_entry(2) [OF assms(1,5,6)]]
  have n: "0 < n" using assms(7,8) by simp
  define lo hi where "lo = normalizeIndex i n" and "hi = normalizeIndex j n"
  have b: "0 \<le> lo" "lo < n" "0 \<le> hi" "hi < n" using normalizeIndex_range [OF n] by (simp_all add: lo_def hi_def)
  obtain ns where ns: "sl_Range (ZSkipList z) (lo + 1) (hi + 1) = Some ns"
      "map node_elem ns = range_of (lo + 1) (hi + 1) (zorder z)"
    using skip_list.range_spec [of "ZSkipList z" "lo + 1" "hi + 1"] z(2) by (auto simp: zset_ok_def zorder_def)
  have "range_of (lo + 1) (hi + 1) (zorder z) = take (nat (hi - lo + 1)) (drop (nat lo) (zorder z))"
    using b ord(4) assms(8) by (simp add: range_of_def)
  also have "\<dots> = map (\<lambda>p. zorder z ! nat p) [lo..hi]"
    using b ord(4) assms(8) by (intro map_nth_upto) simp_all
  finally have "map (fst \<circ> node_elem) ns = map (\<lambda>p. fst (zorder z ! nat p)) [lo..hi]"
    using ns(2) by (metis (no_types, lifting) list.map_comp map_eq_conv comp_apply)
  then have m: "map Member ns = map (\<lambda>p. fst (zorder z ! nat p)) [lo..hi]" by (simp add: node_elem_def comp_def)
  have "map (\<lambda>n. BulkString_Marshal (Member n)) ns = map BulkString_Marshal (map Member ns)" by simp
  also have "\<dots> = map (\<lambda>p. BulkString_Marshal (fst (zorder z ! nat p))) [lo..hi]" by (simp add: m)
  finally have "HandleZRange env req c s =
      reply_bytes (Array_Marshal (map (\<lambda>p. BulkString_Marshal (fst (zorder z ! nat p))) [lo..hi])) s"
    using assms(2-4) z(1) ns(1)
    by (simp add: HandleZRange_def Let_def lo_def [symmetric] hi_def [symmetric] assms(8) [symmetric])
  then show ?thesis by (simp only: lo_def hi_def)
qed

text \<open>C32. \<^verbatim>\<open>ZRANGE\<close> on a sorted set that is not empty, with a first index below the number of members, replies with the members
  at the positions from the first to the second index of the list of all pairs in ascending order (by score, then by member), which
  holds every member exactly once: an index below zero counts from the end and stops at the first position, and the second index
  stops at the last position, so that the array is empty when the first position lies behind the second. The state is unchanged.
  (What a first index at or past the end gives, against the comment in the code, is \<open>zrange_past_end_returns_last\<close>.)\<close>

theorem zrange_follows_order:
  assumes "store_ok (DB s)" and "Arguments req = k # a # b # rest" and "Atoi a = Some i" and "Atoi b = Some j"
    and "Get (DB s) k = Some e" and "EValue e = VZSet z" and "HashMap z \<noteq> []"
    and "n = int (length (HashMap z))" and "i < n"
    and "lo = (if i < 0 then max 0 (n + i) else i)" and "hi = (if j < 0 then max 0 (n + j) else min j (n - 1))"
  shows "sorted (map ekey (zorder z)) \<and> distinct (map fst (zorder z)) \<and> map_of (zorder z) = zmap (DB s) k \<and>
    HandleZRange env req c s = reply_bytes (Array_Marshal (map (\<lambda>p. BulkString_Marshal (fst (zorder z ! nat p))) [lo..hi])) s"
proof -
  have "0 < n" using assms(7,8) by simp
  then have "normalizeIndex i n = lo" "normalizeIndex j n = hi"
    using assms(9-11) by (auto simp: normalizeIndex_def Let_def)
  then show ?thesis
    using zorder_spec [OF get_zset_entry(2) [OF assms(1,5,6)]] get_zset_entry(3) [OF assms(1,5,6)] zrange_reply [OF assms(1-8)]
    by simp
qed

theorem zrange_follows_order_witness:
  "HandleZRange (sample_env 0) \<lparr>Command = ZRANGE, Arguments = [''z'', ''0'', ''-1'']\<rparr> 1 (set_DB sample_zset_store sample_server)
     = reply_bytes (Array_Marshal [BulkString_Marshal ''a'', BulkString_Marshal ''b'']) (set_DB sample_zset_store sample_server)"
proof -
  obtain e z where z: "store_ok sample_zset_store" "Get sample_zset_store ''z'' = Some e" "EValue e = VZSet z"
      "HashMap z = [(''b'', f64_one), (''a'', f64_zero)]" "zorder z = [(''a'', f64_zero), (''b'', f64_one)]" by (rule sample_zset)
  have n: "Atoi ''0'' = Some 0" "Atoi ''-1'' = Some (-1)" by code_simp+
  have r: "[0..1 :: int] = [0, 1]" by (simp add: upto.simps)
  show ?thesis
    using zrange_follows_order [of "set_DB sample_zset_store sample_server", OF _ _ n, of _ "''z''" "[]" e z 2 0 1] z r by simp
qed

text \<open>A start index at or past the end of the set does not give the empty array: it is pulled back to the last
  position, so \<^verbatim>\<open>ZRANGE\<close> with both indices past the end replies with the last member.\<close>

theorem zrange_past_end_returns_last:
  assumes "store_ok (DB s)" and "Arguments req = k # a # b # rest" and "Atoi a = Some i" and "Atoi b = Some j"
    and "Get (DB s) k = Some e" and "EValue e = VZSet z" and "HashMap z \<noteq> []"
    and "int (length (HashMap z)) \<le> i" and "int (length (HashMap z)) \<le> j"
  shows "HandleZRange env req c s = reply_bytes (Array_Marshal [BulkString_Marshal (fst (last (zorder z)))]) s"
proof -
  let ?n = "int (length (HashMap z))"
  note ord = zorder_spec [OF get_zset_entry(2) [OF assms(1,5,6)]]
  have "normalizeIndex i ?n = ?n - 1" "normalizeIndex j ?n = ?n - 1"
    using assms(8,9) by (simp_all add: normalizeIndex_def Let_def)
  moreover have "zorder z \<noteq> []" using ord(4) assms(7) by (metis length_0_conv)
  then have "zorder z ! (length (HashMap z) - 1) = last (zorder z)" using ord(4) by (simp add: last_conv_nth)
  moreover have "nat (?n - 1) = length (HashMap z) - 1" by linarith
  ultimately show ?thesis using zrange_reply [OF assms(1-7) refl] by simp
qed

theorem zrange_past_end_returns_last_witness:
  "HandleZRange (sample_env 0) \<lparr>Command = ZRANGE, Arguments = [''z'', ''5'', ''9'']\<rparr> 1 (set_DB sample_zset_store sample_server)
     = reply_bytes (Array_Marshal [BulkString_Marshal ''b'']) (set_DB sample_zset_store sample_server)"
proof -
  obtain e z where z: "store_ok sample_zset_store" "Get sample_zset_store ''z'' = Some e" "EValue e = VZSet z"
      "HashMap z = [(''b'', f64_one), (''a'', f64_zero)]" "zorder z = [(''a'', f64_zero), (''b'', f64_one)]" by (rule sample_zset)
  have n: "Atoi ''5'' = Some 5" "Atoi ''9'' = Some 9" by code_simp+
  show ?thesis
    using zrange_past_end_returns_last [of "set_DB sample_zset_store sample_server", OF _ _ n, of _ "''z''" "[]" e z] z by simp
qed

text \<open>\<^verbatim>\<open>ZADD\<close> with a request that names each member once, on an absent key or a sorted set, replies with the number of
  new members, and afterwards \<^verbatim>\<open>ZSCORE\<close> of every named member replies with the score it was given.\<close>

theorem zscore_after_zadd:
  assumes "store_ok (DB s)" and "Arguments req = k # args" and "zadd_pairs (Lib env) args = Ret ps" and "clean_pairs ps"
    and "case Get (DB s) k of None \<Rightarrow> True | Some e \<Rightarrow> EType e = EntryTypeSortedSet"
    and "(m, sc) \<in> set ps" and "Arguments req' = k # m # rest"
  shows "\<exists>s1. HandleZAdd env req c s = reply_bytes (Integer_Marshal (int (card (fst ` set ps - dom (zmap (DB s) k))))) s1 \<and>
    HandleZScore env' req' c' s1 = reply_bytes (BulkString_Marshal (FormatFloat (Lib env') sc)) s1"
proof -
  obtain d where d: "ZAdd (Coins env) (DB s) k ps = (Ret (int (card (fst ` set ps - dom (zmap (DB s) k)))), d)" "store_ok d"
      "zmap d k = zmap (DB s) k ++ map_of (rev ps)"
    using ZAdd_existing [OF assms(1), of k _ ps "Coins env"] ZAdd_fresh [OF assms(1), of k ps "Coins env"] assms(4,5)
    by (fastforce simp: new_members_def clean_pairs_def Get_def split: option.splits)
  have "map_of (rev ps) m = Some sc"
    using assms(4,6) by (simp add: clean_pairs_def rev_map [symmetric])
  then have m: "zmap d k m = Some sc" using d(3) by simp
  then obtain e z where z: "Get d k = Some e" "EValue e = VZSet z" "map_of (HashMap z) m = Some sc"
    by (auto simp: zmap_def Get_def split: option.splits val.splits)
  have "even (length args)"
  proof (rule ccontr)
    assume "odd (length args)"
    then have "zadd_pairs (Lib env) args \<noteq> Ret ps" for ps
      by (induction "Lib env" args arbitrary: ps rule: zadd_pairs.induct) (auto simp: bind_go_Ret_iff split: option.splits)
    with assms(3) show False by blast
  qed
  then have "HandleZAdd env req c s =
      reply_bytes (Integer_Marshal (int (card (fst ` set ps - dom (zmap (DB s) k))))) (set_DB d s)"
    using assms(2,3) d(1) by (simp add: HandleZAdd_def)
  moreover have "HandleZScore env' req' c' (set_DB d s) = reply_bytes (BulkString_Marshal (FormatFloat (Lib env') sc)) (set_DB d s)"
    using get_zset_entry(1) [of "set_DB d s" k e z] z d(2) assms(7) by (simp add: HandleZScore_def)
  ultimately show ?thesis by blast
qed

theorem zscore_after_zadd_witness:
  "\<exists>s1. HandleZAdd (sample_env 0) \<lparr>Command = ZADD, Arguments = [''z'', ''0'', ''a'', ''1'', ''b'']\<rparr> 1 sample_server
      = reply_bytes (Integer_Marshal 2) s1 \<and>
    HandleZScore (sample_env 0) \<lparr>Command = ZSCORE, Arguments = [''z'', ''b'']\<rparr> 2 s1 = reply_bytes (BulkString_Marshal ''1'') s1"
proof -
  have p: "zadd_pairs (Lib (sample_env 0)) [''0'', ''a'', ''1'', ''b''] = Ret [(''a'', f64_zero), (''b'', f64_one)]"
    by (simp add: sample_env_def sample_lib_def)
  have "clean_pairs [(''a'', f64_zero), (''b'', f64_one)]" by (simp add: clean_pairs_def f64_examples)
  moreover have "DB sample_server = New" by (simp add: sample_server_def blank_server_def)
  moreover have "FormatFloat (Lib (sample_env 0)) f64_one = ''1''" by (simp add: sample_env_def sample_lib_def)
  moreover have "card {''a'', ''b''} = 2" "zmap New ''z'' = Map.empty" "Get New ''z'' = None"
    by (simp_all add: New_def zmap_def Get_def)
  ultimately show ?thesis
    using zscore_after_zadd [of sample_server "\<lparr>Command = ZADD, Arguments = [''z'', ''0'', ''a'', ''1'', ''b'']\<rparr>" "''z''" _ "sample_env 0",
        OF _ _ p, of "''b''" f64_one "\<lparr>Command = ZSCORE, Arguments = [''z'', ''b'']\<rparr>" "[]" 1 "sample_env 0" 2] store_ok_New
    by (simp add: insert_commute)
qed

subsection \<open>Places\<close>

lemma place_code:
  assumes "uint code < 2 ^ 53"
  shows "place lib (f64_of_uint (uint code)) = decode code"
  using f64_to_uint_of_uint [of "uint code" 64 lib] assms by (simp add: place_def)

text \<open>A place that \<^verbatim>\<open>GEOADD\<close> accepts is found again: \<^verbatim>\<open>GEOPOS\<close> replies with the coordinates of the grid cell that the
  Morton code of the place names, computed from the score that was stored. Coordinates out of range are refused and
  nothing is stored.\<close>

lemma geopos_after_geoadd:
  assumes "store_ok (DB s)" and "Arguments req = [k, lon, lat, m]" and "ParseFloat64 (Lib env) lon = Some x"
    and "ParseFloat64 (Lib env) lat = Some y" and "case Get (DB s) k of None \<Rightarrow> True | Some e \<Rightarrow> EType e = EntryTypeSortedSet"
    and "code = Encode (Lib env) \<lparr>Latitude = y, Longitude = x\<rparr>" and "uint code < 2 ^ 53"
    and "Arguments req' = [k, m]"
  shows "if ValidateCoordinates x y then
      \<exists>s1. fst (HandleGeoAdd env req c s) = Ret (Bytes (Integer_Marshal (if zmap (DB s) k m = None then 1 else 0))) \<and>
        snd (HandleGeoAdd env req c s) = s1 \<and>
        HandleGeoPos env' req' c' s1 = reply_bytes (Array_Marshal [Array_Marshal
          [BulkString_Marshal (FormatFloat (Lib env') (Longitude (decode code))),
           BulkString_Marshal (FormatFloat (Lib env') (Latitude (decode code)))]]) s1
    else snd (HandleGeoAdd env req c s) = s \<and> (\<exists>e. fst (HandleGeoAdd env req c s) = Err e)"
proof (cases "ValidateCoordinates x y")
  case True
  let ?sc = "f64_of_uint (uint code)"
  let ?n = "int (card ({m} - dom (zmap (DB s) k)))"
  obtain d where d: "ZAdd (Coins env) (DB s) k [(m, ?sc)] = (Ret ?n, d)" "store_ok d" "zmap d k = (zmap (DB s) k)(m \<mapsto> ?sc)"
    using ZAdd_existing [OF assms(1), of k _ "[(m, ?sc)]" "Coins env"] ZAdd_fresh [OF assms(1), of k "[(m, ?sc)]" "Coins env"]
      assms(5) f64_of_uint_no_nan
    by (fastforce simp: new_members_def Get_def split: option.splits)
  have "{m} - dom (zmap (DB s) k) = (if zmap (DB s) k m = None then {m} else {})" by auto
  then have n: "?n = (if zmap (DB s) k m = None then 1 else 0)" by simp
  obtain e z where z: "Get d k = Some e" "EValue e = VZSet z" "map_of (HashMap z) m = Some ?sc"
    using d(3) by (auto simp: zmap_def Get_def fun_eq_iff split: option.splits val.splits if_splits)
  have "HandleGeoAdd env req c s = reply_bytes (Integer_Marshal ?n) (set_DB d s)"
    using assms(2-4,6) d(1) True by (simp add: HandleGeoAdd_def Let_def)
  moreover have "HandleGeoPos env' req' c' (set_DB d s) = reply_bytes (Array_Marshal [Array_Marshal
      [BulkString_Marshal (FormatFloat (Lib env') (Longitude (decode code))),
       BulkString_Marshal (FormatFloat (Lib env') (Latitude (decode code)))]]) (set_DB d s)"
    using get_zset_entry(1) [of "set_DB d s" k e z] z d(2) assms(8) place_code [OF assms(7)]
    by (simp add: HandleGeoPos_def Let_def)
  ultimately show ?thesis using True n by simp
next
  case False
  then show ?thesis using assms(2-4) by (simp add: HandleGeoAdd_def)
qed

end
