(* ===== verification/ExecuteCorrect.thy ===== *)
theory ExecuteCorrect
  imports CommandSpec
begin

text \<open>
  \<^verbatim>\<open>Execute\<close> as a whole: every command of the table keeps the invariant of the key space and panics only where
  \<open>crashes\<close> says; what it does to the watch flags; and transactions.
\<close>

subsection \<open>The table\<close>

lemma arity_min: "arity_ok cmd args \<Longrightarrow> nat (MinArgs cmd) \<le> length args"
  by (auto simp: arity_ok_def)

lemmas handler_keeps = reads_state reads_geosearch HandleGet_keeps HandleSet_keeps HandleINCR_safe(1)
  push_handlers_safe(1,2) HandleLPop_keeps HandleBLPop_safe(1) HandleZAdd_safe(1) HandleZRem_safe(1)
  HandleGeoAdd_safe(1) session_handlers(1,3,5,7,9,10) HandlePublish_safe(1)

lemmas handler_panics = simple_no_panic HandleSet_panic HandleINCR_safe(2) push_handlers_safe(3,4) HandleLPop_panic
  HandleLRange_panic HandleBLPop_safe(2) HandleZAdd_safe(2) HandleZRem_safe(2) HandleZRank_no_panic
  HandleZRange_no_panic HandleGeoAdd_safe(2) HandleGeoSearch_no_panic session_handlers(2,4,6,8,11,12)
  HandlePublish_safe(2)

lemma table_rows:
  assumes "CommandHandlers name = Some cmd" and "\<And>row. row \<in> set command_table \<Longrightarrow> P (fst row) (snd row)"
  shows "P name cmd"
  using map_of_SomeD [OF assms(1) [unfolded CommandHandlers_def]] assms(2) by fastforce

lemma handler_keeps_store:
  assumes "CommandHandlers (Command req) = Some cmd" and "arity_ok cmd (Arguments req)"
    and "store_ok (DB s)" and "clean_request (Lib env) req"
  shows "store_ok (DB (snd (Handler cmd env req c s)))"
proof -
  have "(Command req, cmd) \<in> set command_table" using map_of_SomeD assms(1) by (fastforce simp: CommandHandlers_def)
  then show ?thesis
    using arity_min [OF assms(2)] assms(3,4) unfolding command_table_def set_simps insert_iff empty_iff
    by (elim disjE) (simp_all add: handler_keeps)
qed

lemma handler_panic_iff:
  assumes "CommandHandlers (Command req) = Some cmd" and "arity_ok cmd (Arguments req)"
    and "store_ok (DB s)" and "clean_request (Lib env) req"
  shows "fst (Handler cmd env req c s) = Panic \<longleftrightarrow> crashes env req (DB s)"
proof -
  have "(Command req, cmd) \<in> set command_table" using map_of_SomeD assms(1) by (fastforce simp: CommandHandlers_def)
  then show ?thesis
    using arity_min [OF assms(2)] assms(3,4) unfolding command_table_def set_simps insert_iff empty_iff
    by (elim disjE) (simp_all add: handler_panics crashes_def, simp_all add: command_names)
qed


subsection \<open>What a command leaves alone\<close>

text \<open>No handler touches the role of the node, the configuration, the log, the files or the counter of client identifiers.\<close>

definition frame :: "Server \<Rightarrow> NodeConfig \<times> Config \<times> AOFLocal option \<times> fs \<times> int" where
  "frame s = (Node s, Cfg s, AOF s, FS s, clientIDCounter s)"

lemma frame_simps [simp]:
  "frame (set_client c x s) = frame s" "frame (set_DB d s) = frame s" "frame (enqueue c req s) = frame s"
  "frame (mark_dirty w s) = frame s" "frame (watch_key c k s) = frame s" "frame (UnwatchAll env c s) = frame s"
  "frame (ResetTransactionState env c s) = frame s" "frame (snd (conn_write env conn b s)) = frame s"
  "frame (CloseConnection c s) = frame s" "frame (s\<lparr>subscribersMetaData := m\<rparr>) = frame s"
  by (simp_all add: frame_def set_client_def set_DB_def enqueue_def mark_dirty_def watch_key_def UnwatchAll_def
      ResetTransactionState_def conn_write_def CloseConnection_def Let_def)

lemma frame_fold_watch [simp]: "frame (fold (watch_key c) ks s) = frame s"
  by (induction ks arbitrary: s) simp_all

lemma frame_touch [simp]: "frame (touch key s) = frame s"
proof -
  have "frame (fold mark_dirty ws s) = frame s" for ws by (induction ws arbitrary: s) simp_all
  then show ?thesis by (simp add: touch_def)
qed

lemma frame_publish_all [simp]: "frame (snd (publish_all env b is s)) = frame s"
proof (induction env b "is" s rule: publish_all.induct)
  case (2 env payload i "is" s)
  obtain ok s' where w: "conn_write env (Conn (client s i)) payload s = (ok, s')" by fastforce
  then have "frame s' = frame s" using frame_simps(8) [of env "Conn (client s i)" payload s] by simp
  with 2 w show ?case by (cases ok) simp_all
qed simp

lemma frame_publish: "publish_all env b is s = (r, s') \<Longrightarrow> frame s' = frame s"
  using frame_publish_all [of env b "is" s] by simp

lemma frame_push_reply [simp]: "frame (snd (push_reply r s)) = frame s"
  by (simp add: push_reply_def split: prod.split go_result.split val.split)

lemma frame_write_handlers:
  "frame (snd (HandleGet env req c s)) = frame s" "frame (snd (HandleSet env req c s)) = frame s"
  "frame (snd (HandleINCR env req c s)) = frame s" "frame (snd (HandleRPush env req c s)) = frame s"
  "frame (snd (HandleLPush env req c s)) = frame s" "frame (snd (HandleLPop env req c s)) = frame s"
  "frame (snd (HandleBLPop env req c s)) = frame s" "frame (snd (HandleZAdd env req c s)) = frame s"
  "frame (snd (HandleZRem env req c s)) = frame s" "frame (snd (HandleGeoAdd env req c s)) = frame s"
  by (simp_all add: HandleGet_def HandleSet_def HandleINCR_def HandleRPush_def HandleLPush_def HandleLPop_def
      HandleBLPop_def HandleZAdd_def HandleZRem_def HandleGeoAdd_def Let_def
      split: list.split go_result.split option.split prod.split blpop_outcome.split)

lemma frame_session_handlers:
  "frame (snd (HandleUnwatch env req c s)) = frame s" "frame (snd (HandleWatch env req c s)) = frame s"
  "frame (snd (HandleDiscard env req c s)) = frame s" "frame (snd (HandleMulti env req c s)) = frame s"
  "frame (snd (HandleSubscribe env req c s)) = frame s" "frame (snd (HandleUnsubscribe env req c s)) = frame s"
  by (simp_all add: HandleUnwatch_def HandleWatch_def HandleDiscard_def HandleMulti_def HandleSubscribe_def
      HandleUnsubscribe_def Let_def split: list.split)

lemma frame_HandlePublish: "frame (snd (HandlePublish env req c s)) = frame s"
  by (auto simp: HandlePublish_def Let_def dest: frame_publish split: list.split prod.split go_result.split)

lemmas handler_frames = reads_state reads_geosearch frame_write_handlers frame_session_handlers frame_HandlePublish

lemma handler_frame:
  assumes "CommandHandlers name = Some cmd"
  shows "frame (snd (Handler cmd env req c s)) = frame s"
proof (rule table_rows [OF assms])
  fix row assume "row \<in> set command_table"
  then show "frame (snd (Handler (snd row) env req c s)) = frame s"
    unfolding command_table_def set_simps insert_iff empty_iff by (elim disjE) (simp_all add: handler_frames)
qed

subsection \<open>Execute\<close>

text \<open>Where \<^verbatim>\<open>Execute\<close> answers without calling a handler.\<close>

definition loading :: "Request \<Rightarrow> Server \<Rightarrow> bool" where
  "loading req s \<longleftrightarrow> Role (Node s) = NodeRoleReplica \<and> \<not> ReplicaReady (Node s) \<and> Command req \<notin> set [INFO, CONFIG, ECHO, PING]"

definition queues :: "Request \<Rightarrow> int \<Rightarrow> Server \<Rightarrow> bool" where
  "queues req c s \<longleftrightarrow> Command req \<notin> set TransactionalCommands \<and> Mode (client s c) = ClientModeTransaction"

definition well_formed :: "Request \<Rightarrow> bool" where
  "well_formed req \<longleftrightarrow>
     (case CommandHandlers (Command req) of None \<Rightarrow> False | Some cmd \<Rightarrow> arity_ok cmd (Arguments req))"

definition dispatched :: "Request \<Rightarrow> int \<Rightarrow> Server \<Rightarrow> bool" where
  "dispatched req c s \<longleftrightarrow> well_formed req \<and> \<not> loading req s \<and> \<not> queues req c s"

lemma Execute_start_cases:
  obtains (refused) e where "\<not> dispatched req c s" "Execute_start env req c s = (False, Err e, s)"
  | (queued) "well_formed req" "\<not> loading req s" "queues req c s" "Execute_start env req c s = (False, reply_bytes QUEUED (enqueue c req s))"
  | (run) cmd where "dispatched req c s" "CommandHandlers (Command req) = Some cmd" "arity_ok cmd (Arguments req)"
      "Execute_start env req c s = (IsWrite cmd, Handler cmd env req c s)"
proof (cases "CommandHandlers (Command req)")
  case None
  then show thesis using refused by (auto simp: Execute_start_def dispatched_def well_formed_def)
next
  case (Some cmd)
  consider "\<not> arity_ok cmd (Arguments req)" | "arity_ok cmd (Arguments req)" "loading req s"
    | "arity_ok cmd (Arguments req)" "\<not> loading req s" "queues req c s"
    | "arity_ok cmd (Arguments req)" "\<not> loading req s" "\<not> queues req c s" by blast
  then show thesis
  proof cases
    case 1
    with Some show thesis using refused by (auto simp: Execute_start_def dispatched_def well_formed_def)
  next
    case 2
    then show thesis using refused Some by (auto simp: Execute_start_def dispatched_def loading_def)
  next
    case 3
    then show thesis using queued Some by (auto simp: Execute_start_def well_formed_def loading_def queues_def)
  next
    case 4
    then show thesis
      using run [of cmd] Some unfolding dispatched_def well_formed_def Execute_start_def loading_def queues_def by auto
  qed
qed

lemma write_commands_have_key:
  assumes "CommandHandlers name = Some cmd" and "IsWrite cmd" and "arity_ok cmd args"
  shows "args \<noteq> []"
proof -
  have "IsWrite cmd \<longrightarrow> 1 \<le> MinArgs cmd"
    by (rule table_rows [OF assms(1)]) (auto simp: command_table_def)
  with assms(2,3) show ?thesis by (auto simp: arity_ok_def)
qed

lemma Execute_finish_no_panic: "args \<noteq> [] \<or> \<not> w \<Longrightarrow> Arguments req = args \<Longrightarrow> fst (Execute_finish w req b s) = Ret b"
  by (auto simp: Execute_finish_def neq_Nil_conv)

lemma Execute_finish_state [simp]:
  "DB (snd (Execute_finish w req b s)) = DB s" "frame (snd (Execute_finish w req b s)) = frame s"
  by (auto simp: Execute_finish_def split: list.split)

lemma Execute_finish_not_Err: "Execute_finish w req b s \<noteq> (Err e, s')"
  by (auto simp: Execute_finish_def split: list.split if_splits)

lemma push_reply_no_wait [simp]: "push_reply r s = (Ret (Wait w t), s') \<longleftrightarrow> False"
  by (auto simp: push_reply_def split: prod.splits go_result.splits val.splits)

lemma no_wait:
  "HandleEcho env req c s = (Ret (Wait w t), s') \<longleftrightarrow> False" "HandlePing env req c s = (Ret (Wait w t), s') \<longleftrightarrow> False"
  "HandleConfig env req c s = (Ret (Wait w t), s') \<longleftrightarrow> False" "HandleKeys env req c s = (Ret (Wait w t), s') \<longleftrightarrow> False"
  "HandleLLen env req c s = (Ret (Wait w t), s') \<longleftrightarrow> False" "HandleLRange env req c s = (Ret (Wait w t), s') \<longleftrightarrow> False"
  "HandleInfo env req c s = (Ret (Wait w t), s') \<longleftrightarrow> False" "HandleReplConf env req c s = (Ret (Wait w t), s') \<longleftrightarrow> False"
  "HandlePSync env req c s = (Ret (Wait w t), s') \<longleftrightarrow> False" "HandleWait env req c s = (Ret (Wait w t), s') \<longleftrightarrow> False"
  "HandleZCard env req c s = (Ret (Wait w t), s') \<longleftrightarrow> False" "HandleZScore env req c s = (Ret (Wait w t), s') \<longleftrightarrow> False"
  "HandleZRank env req c s = (Ret (Wait w t), s') \<longleftrightarrow> False" "HandleZRange env req c s = (Ret (Wait w t), s') \<longleftrightarrow> False"
  "HandleGeoPos env req c s = (Ret (Wait w t), s') \<longleftrightarrow> False" "HandleGeoDist env req c s = (Ret (Wait w t), s') \<longleftrightarrow> False"
  "HandleGeoSearch env req c s = (Ret (Wait w t), s') \<longleftrightarrow> False" "HandleGet env req c s = (Ret (Wait w t), s') \<longleftrightarrow> False"
  "HandleSet env req c s = (Ret (Wait w t), s') \<longleftrightarrow> False" "HandleINCR env req c s = (Ret (Wait w t), s') \<longleftrightarrow> False"
  "HandleRPush env req c s = (Ret (Wait w t), s') \<longleftrightarrow> False" "HandleLPush env req c s = (Ret (Wait w t), s') \<longleftrightarrow> False"
  "HandleLPop env req c s = (Ret (Wait w t), s') \<longleftrightarrow> False" "HandleZAdd env req c s = (Ret (Wait w t), s') \<longleftrightarrow> False"
  "HandleZRem env req c s = (Ret (Wait w t), s') \<longleftrightarrow> False" "HandleGeoAdd env req c s = (Ret (Wait w t), s') \<longleftrightarrow> False"
  "HandleUnwatch env req c s = (Ret (Wait w t), s') \<longleftrightarrow> False" "HandleWatch env req c s = (Ret (Wait w t), s') \<longleftrightarrow> False"
  "HandleDiscard env req c s = (Ret (Wait w t), s') \<longleftrightarrow> False" "HandleMulti env req c s = (Ret (Wait w t), s') \<longleftrightarrow> False"
  "HandleSubscribe env req c s = (Ret (Wait w t), s') \<longleftrightarrow> False" "HandleUnsubscribe env req c s = (Ret (Wait w t), s') \<longleftrightarrow> False"
  "HandlePublish env req c s = (Ret (Wait w t), s') \<longleftrightarrow> False"
  by (simp_all add: HandleEcho_def HandlePing_def HandleConfig_def HandleKeys_def HandleLLen_def HandleLRange_def
      HandleInfo_def HandleReplConf_def HandlePSync_def HandleWait_def HandleZCard_def HandleZScore_def
      HandleZRank_def HandleZRange_def HandleGeoPos_def HandleGeoDist_def HandleGeoSearch_def HandleGet_def HandleSet_def
      HandleINCR_def HandleRPush_def HandleLPush_def HandleLPop_def HandleZAdd_def HandleZRem_def HandleGeoAdd_def
      HandleUnwatch_def HandleWatch_def HandleDiscard_def HandleMulti_def HandleSubscribe_def HandleUnsubscribe_def
      HandlePublish_def Let_def split: list.split option.split prod.split val.split go_result.split)

text \<open>A \<^verbatim>\<open>BLPOP\<close> with timeout zero on a key without elements: no answer until somebody pushes.\<close>

definition waits_forever :: "env \<Rightarrow> Request \<Rightarrow> Store \<Rightarrow> bool" where
  "waits_forever env req d \<longleftrightarrow> Command req = cmd_BLPOP \<and>
     (case Arguments req of
        key # t # _ \<Rightarrow> (case ParseFloat32 (Lib env) t of None \<Rightarrow> False | Some x \<Rightarrow> f64_eq x f64_zero) \<and>
          (\<exists>w d'. BLPOP d key = (Ret (Waiting w), d'))
      | _ \<Rightarrow> False)"

lemma only_BLPop_waits:
  assumes "CommandHandlers (Command req) = Some cmd" and "Handler cmd env req c s = (Ret (Wait w t), s')"
  shows "\<exists>key a rest. Command req = cmd_BLPOP \<and> Arguments req = key # a # rest \<and> ParseFloat32 (Lib env) a = Some t \<and>
    BLPOP (DB s) key = (Ret (Waiting w), DB s') \<and> cmd = \<lparr>Handler = HandleBLPop, MinArgs = 2, MaxArgs = -1, IsWrite = True\<rparr>"
proof -
  have "(Command req, cmd) \<in> set command_table" using map_of_SomeD assms(1) by (fastforce simp: CommandHandlers_def)
  moreover have "HandleBLPop env req c s = (Ret (Wait w t), s') \<Longrightarrow> \<exists>key a rest. Arguments req = key # a # rest \<and>
      ParseFloat32 (Lib env) a = Some t \<and> BLPOP (DB s) key = (Ret (Waiting w), DB s')"
    by (auto simp: HandleBLPop_def split: list.splits option.splits prod.splits go_result.splits blpop_outcome.splits)
  ultimately show ?thesis
    using assms(2) unfolding command_table_def set_simps insert_iff empty_iff
    by (elim disjE) (auto simp: no_wait)
qed

lemma Execute_run:
  assumes "CommandHandlers (Command req) = Some cmd" and "arity_ok cmd (Arguments req)"
    and "Execute_start env req c s = (IsWrite cmd, Handler cmd env req c s)"
  shows "fst (Execute env req c s) = Panic \<longleftrightarrow> fst (Handler cmd env req c s) = Panic \<or> waits_forever env req (DB s)"
proof -
  have fin: "fst (Execute_finish (IsWrite cmd) req b s') = Ret b" for b s'
    using write_commands_have_key [OF assms(1) _ assms(2)] Execute_finish_no_panic by blast
  have nf: "Execute_finish (IsWrite cmd) req b s' = (Panic, x) \<longleftrightarrow> False" for b s' x
    using fin [of b s'] by auto
  obtain r s' where r: "Handler cmd env req c s = (r, s')" by fastforce
  show ?thesis
  proof (cases r)
    case (Ret y)
    show ?thesis
    proof (cases y)
      case (Bytes b)
      have "\<not> waits_forever env req (DB s)"
      proof
        assume w: "waits_forever env req (DB s)"
        then have "cmd = \<lparr>Handler = HandleBLPop, MinArgs = 2, MaxArgs = -1, IsWrite = True\<rparr>"
          using assms(1) by (simp add: waits_forever_def CommandHandlers_def command_table_def command_names)
        with w r Ret Bytes show False
          by (auto simp: waits_forever_def HandleBLPop_def split: list.splits option.splits)
      qed
      with r Ret Bytes fin show ?thesis by (simp add: Execute_def assms(3))
    next
      case (Wait w t)
      with r Ret obtain key a rest where k: "Command req = cmd_BLPOP" "Arguments req = key # a # rest"
          "ParseFloat32 (Lib env) a = Some t" "BLPOP (DB s) key = (Ret (Waiting w), DB s')"
        using only_BLPop_waits [OF assms(1), of env c s w t s'] by auto
      have "waits_forever env req (DB s) \<longleftrightarrow> f64_eq t f64_zero" using k by (simp add: waits_forever_def)
      then show ?thesis
        using r Ret Wait fin by (auto simp: Execute_def assms(3) resolve_timeout_def split: option.splits if_splits)
    qed
  next
    case (Err e)
    have "\<not> waits_forever env req (DB s)"
    proof
      assume w: "waits_forever env req (DB s)"
      then have "cmd = \<lparr>Handler = HandleBLPop, MinArgs = 2, MaxArgs = -1, IsWrite = True\<rparr>"
        using assms(1) by (simp add: waits_forever_def CommandHandlers_def command_table_def command_names)
      with w r Err show False
        by (auto simp: waits_forever_def HandleBLPop_def split: list.splits option.splits)
    qed
    with r Err show ?thesis by (simp add: Execute_def assms(3))
  next
    case Panic
    with r show ?thesis by (simp add: Execute_def assms(3))
  qed
qed

lemma Execute_keeps:
  assumes "store_ok (DB s)" and "clean_request (Lib env) req"
  shows "store_ok (DB (snd (Execute env req c s)))"
proof (cases rule: Execute_start_cases [of req c s env])
  case (refused e)
  with assms(1) show ?thesis by (simp add: Execute_def)
next
  case queued
  with assms(1) show ?thesis by (simp add: Execute_def)
next
  case (run cmd)
  obtain r s' where r: "Handler cmd env req c s = (r, s')" by fastforce
  have ok: "store_ok (DB s')" using handler_keeps_store [OF run(2,3) assms] r by (metis snd_conv)
  have "store_ok d" if "resolve_timeout t (DB s') w = Some (x, d)" for t w x d
    using store_ok_timeout [OF ok] that by blast
  with ok show ?thesis
    using r run(4) by (auto simp: Execute_def split: go_result.split reply.split option.split)
qed

lemma Execute_panic_iff:
  assumes "store_ok (DB s)" and "clean_request (Lib env) req"
  shows "fst (Execute env req c s) = Panic \<longleftrightarrow>
    dispatched req c s \<and> (crashes env req (DB s) \<or> waits_forever env req (DB s))"
proof (cases rule: Execute_start_cases [of req c s env])
  case (refused e)
  then show ?thesis by (simp add: Execute_def)
next
  case queued
  then show ?thesis by (simp add: Execute_def Execute_finish_def dispatched_def)
next
  case (run cmd)
  with Execute_run [OF run(2-4)] handler_panic_iff [OF run(2,3) assms] show ?thesis by simp
qed

subsection \<open>Failed commands\<close>

text \<open>A push can fail after it has served waiting clients (the key they wait on may hold a string by now), so the queues may
  change; the entries do not.\<close>

lemma ListPush_Err: "ListPush d key vs dir = (Err e, d') \<Longrightarrow> data d' = data d"
  by (auto simp: ListPush_def push_rest_def Let_def split: option.splits val.splits if_splits)

lemma push_reply_Err: "push_reply (ListPush d key vs dir) s = (Err e, s') \<Longrightarrow> data (DB s') = data d"
  by (auto simp: push_reply_def dest: ListPush_Err split: prod.splits go_result.splits val.splits)

lemma Update_Err: "Update d key f = (Err e, d') \<Longrightarrow> d' = d"
  by (auto simp: Update_def split: go_result.splits option.splits)

lemma ZAdd_Err: "ZAdd coins d key ps = (Err e, d') \<Longrightarrow> d' = d"
  by (auto simp: ZAdd_def dest: Update_Err split: prod.splits go_result.splits)

lemma BLPOP_Err: "BLPOP d key = (Err e, d') \<Longrightarrow> d' = d"
  by (auto simp: BLPOP_def split: option.splits val.splits list.splits prod.splits)

lemma write_handlers_Err:
  "HandleGet env req c s = (Err e, s') \<Longrightarrow> data (DB s') = data (DB s)"
  "HandleSet env req c s = (Err e, s') \<Longrightarrow> data (DB s') = data (DB s)"
  "HandleINCR env req c s = (Err e, s') \<Longrightarrow> data (DB s') = data (DB s)"
  "HandleRPush env req c s = (Err e, s') \<Longrightarrow> data (DB s') = data (DB s)"
  "HandleLPush env req c s = (Err e, s') \<Longrightarrow> data (DB s') = data (DB s)"
  "HandleLPop env req c s = (Err e, s') \<Longrightarrow> data (DB s') = data (DB s)"
  "HandleBLPop env req c s = (Err e, s') \<Longrightarrow> data (DB s') = data (DB s)"
  "HandleZAdd env req c s = (Err e, s') \<Longrightarrow> data (DB s') = data (DB s)"
  "HandleZRem env req c s = (Err e, s') \<Longrightarrow> data (DB s') = data (DB s)"
  "HandleGeoAdd env req c s = (Err e, s') \<Longrightarrow> data (DB s') = data (DB s)"
  by (auto simp: HandleGet_def HandleSet_def HandleINCR_def HandleRPush_def HandleLPush_def HandleLPop_def
      HandleBLPop_def HandleZAdd_def HandleZRem_def HandleGeoAdd_def Let_def
      dest: push_reply_Err Update_Err ZAdd_Err BLPOP_Err
      split: list.splits go_result.splits option.splits prod.splits blpop_outcome.splits if_splits)

lemma fst_Err: "(\<And>s'. x = (Err e, s') \<Longrightarrow> P s') \<Longrightarrow> fst x = Err e \<Longrightarrow> P (snd x)"
  by (cases x) auto

lemmas write_handlers_fst_Err = write_handlers_Err [THEN fst_Err [where P = "\<lambda>s'. data (DB s') = data d" for d]]

lemma handler_Err:
  assumes "CommandHandlers name = Some cmd" and "fst (Handler cmd env req c s) = Err e"
  shows "data (DB (snd (Handler cmd env req c s))) = data (DB s)"
proof -
  have "fst (Handler cmd env req c s) = Err e \<longrightarrow> data (DB (snd (Handler cmd env req c s))) = data (DB s)"
  proof (rule table_rows [OF assms(1)])
    fix row assume "row \<in> set command_table"
    then show "fst (Handler (snd row) env req c s) = Err e \<longrightarrow> data (DB (snd (Handler (snd row) env req c s))) = data (DB s)"
      unfolding command_table_def set_simps insert_iff empty_iff
      by (elim disjE)
        (simp_all add: write_handlers_fst_Err reads_state reads_geosearch session_handlers HandlePublish_safe)
  qed
  with assms(2) show ?thesis by blast
qed

lemma Execute_Err:
  assumes "Execute env req c s = (Err e, s')"
  shows "data (DB s') = data (DB s)"
proof (cases rule: Execute_start_cases [of req c s env])
  case (refused e)
  with assms show ?thesis by (simp add: Execute_def)
next
  case queued
  with assms show ?thesis by (simp add: Execute_def Execute_finish_not_Err)
next
  case (run cmd)
  with assms have "Handler cmd env req c s = (Err e, s')"
    by (auto simp: Execute_def Execute_finish_not_Err split: prod.splits go_result.splits reply.splits option.splits)
  then show ?thesis using handler_Err [OF run(2), of env req c s e] by simp
qed

subsection \<open>Write commands depend on the store alone\<close>

definition store_handler :: "handler \<Rightarrow> bool" where
  "store_handler H \<longleftrightarrow> (\<forall>env req c s c' s'. DB s' = DB s \<longrightarrow> fst (H env req c s) = fst (H env req c' s') \<and>
     snd (H env req c s) = set_DB (DB (snd (H env req c' s'))) s)"

lemma set_DB_same [simp]: "set_DB (DB s) s = s" "set_DB d (set_DB d' s) = set_DB d s"
  by (simp_all add: set_DB_def)

lemma store_handlers:
  "store_handler HandleSet" "store_handler HandleINCR" "store_handler HandleRPush" "store_handler HandleLPush"
  "store_handler HandleLPop" "store_handler HandleBLPop" "store_handler HandleZAdd" "store_handler HandleZRem"
  "store_handler HandleGeoAdd"
proof -
  show "store_handler HandleRPush" "store_handler HandleLPush"
    by (auto simp: store_handler_def HandleRPush_def HandleLPush_def push_reply_def
        split: list.split prod.split go_result.split val.split)
  show "store_handler HandleSet" "store_handler HandleINCR" "store_handler HandleLPop" "store_handler HandleBLPop"
    "store_handler HandleZAdd" "store_handler HandleZRem" "store_handler HandleGeoAdd"
    by (simp_all add: store_handler_def HandleSet_def HandleINCR_def HandleLPop_def HandleBLPop_def HandleZAdd_def
        HandleZRem_def HandleGeoAdd_def Let_def split: list.split go_result.split option.split prod.split blpop_outcome.split)
qed

lemma write_store_handler:
  assumes "CommandHandlers name = Some cmd" and "IsWrite cmd"
  shows "store_handler (Handler cmd)"
proof -
  have "IsWrite cmd \<longrightarrow> store_handler (Handler cmd)"
  proof (rule table_rows [OF assms(1)])
    fix row assume "row \<in> set command_table"
    then show "IsWrite (snd row) \<longrightarrow> store_handler (Handler (snd row))"
      unfolding command_table_def set_simps insert_iff empty_iff by (elim disjE) (simp_all add: store_handlers)
  qed
  with assms(2) show ?thesis by blast
qed

lemma store_handlerD:
  assumes "store_handler H" and "DB s' = DB s" and "H env req c s = (r, s1)"
  shows "\<exists>s1'. H env req c' s' = (r, s1') \<and> DB s1' = DB s1 \<and> s1 = set_DB (DB s1) s \<and> s1' = set_DB (DB s1) s'"
proof -
  have 1: "fst (H env req c s) = fst (H env req c' s')" "snd (H env req c s) = set_DB (DB (snd (H env req c' s'))) s"
    using assms(1,2) unfolding store_handler_def by blast+
  have 2: "snd (H env req c' s') = set_DB (DB (snd (H env req c' s'))) s'" using assms(1) unfolding store_handler_def by blast
  define d where "d = DB (snd (H env req c' s'))"
  have "s1 = set_DB d s" "snd (H env req c' s') = set_DB d s'" "fst (H env req c' s') = r"
    using 1 2 assms(3) by (simp_all add: d_def)
  then show ?thesis by (cases "H env req c' s'") auto
qed

lemma Execute_write:
  assumes "dispatched req c s" and "CommandHandlers (Command req) = Some cmd" and "IsWrite cmd"
    and "Execute env req c s = (Ret b, s1)" and "Arguments req = key # rest"
  shows "s1 = touch key (set_DB (DB s1) s)"
proof (cases rule: Execute_start_cases [of req c s env])
  case (run cmd')
  then have cmd: "cmd' = cmd" using assms(2) by simp
  obtain r s' where r: "Handler cmd env req c s = (r, s')" by fastforce
  have s': "s' = set_DB (DB s') s"
    using store_handlerD [OF write_store_handler [OF assms(2,3)] refl r] by blast
  obtain d where "s1 = touch key (set_DB d s')"
    using assms(3-5) run(4) r unfolding cmd
    by (auto simp: Execute_def Execute_finish_def split: go_result.splits reply.splits option.splits)
      (metis set_DB_same(1))
  then show ?thesis using s' by (metis DB_simps(2) DB_touch set_DB_same(2))
qed (use assms(1) in \<open>simp_all add: dispatched_def\<close>)

subsection \<open>Watches\<close>

lemma client_set_client [simp]: "client (set_client c x s) c' = (if c' = c then x else client s c')"
  by (simp add: client_def set_client_def)

lemma client_set_DB [simp]: "client (set_DB d s) = client s"
  by (simp add: fun_eq_iff client_def set_DB_def)

lemma client_watchers [simp]: "client (s\<lparr>watcherClients := m\<rparr>) = client s"
  by (simp add: fun_eq_iff client_def)

lemma client_UnwatchAll [simp]:
  "client (UnwatchAll env c s) c' = (if c' = c then (client s c)\<lparr>WatchedKeys := [], DirtyCompareAndSet := False\<rparr> else client s c')"
  by (simp add: UnwatchAll_def Let_def)

lemma client_Reset [simp]:
  "client (ResetTransactionState env c s) c' = (if c' = c
     then (client s c)\<lparr>WatchedKeys := [], DirtyCompareAndSet := False, CommandQueue := [], Mode := ClientModeNormal\<rparr>
     else client s c')"
  by (simp add: ResetTransactionState_def Let_def)

lemma client_mark_dirty:
  "client (fold mark_dirty ws s) w = (if w \<in> set ws then (client s w)\<lparr>DirtyCompareAndSet := True\<rparr> else client s w)"
  by (induction ws arbitrary: s) (simp_all add: mark_dirty_def)

lemma client_touch:
  "client (touch key s) w =
     (if w \<in> set (watchers_of s key) then (client s w)\<lparr>DirtyCompareAndSet := True\<rparr> else client s w)"
  by (simp add: touch_def client_mark_dirty)

lemma watchers_of_set_DB [simp]: "watchers_of (set_DB d s) = watchers_of s"
  by (simp add: fun_eq_iff watchers_of_def set_DB_def)

subsection \<open>Transactions\<close>

fun after :: "env \<Rightarrow> int \<Rightarrow> Request list \<Rightarrow> Server \<Rightarrow> Server" where
  "after env c [] s = s"
| "after env c (req # reqs) s = after env c reqs (snd (Execute env req c s))"

definition reply_of :: "string go_result \<Rightarrow> string" where
  "reply_of r = (case r of Ret b \<Rightarrow> b | Err e \<Rightarrow> error_bytes e | Panic \<Rightarrow> [])"

lemma exec_queue_in_order:
  assumes "\<forall>i < length q. fst (Execute env (q ! i) c (after env c (take i q) s)) \<noteq> Panic"
  shows "\<exists>a. exec_queue env c q rs aof s =
    (Ret (rs @ map (\<lambda>i. reply_of (fst (Execute env (q ! i) c (after env c (take i q) s)))) [0..<length q], a), after env c q s)"
  using assms
proof (induction q arbitrary: rs aof s)
  case Nil
  then show ?case by simp
next
  case (Cons r q)
  let ?s = "snd (Execute env r c s)"
  obtain x s' where x: "Execute env r c s = (x, s')" by fastforce
  have "x \<noteq> Panic" using Cons.prems x by (metis after.simps(1) fst_conv length_greater_0_conv list.discI nth_Cons_0 take_0)
  then have "ExecuteInTransaction env r c s = (Ret (reply_of x), s')"
    using x by (cases x) (simp_all add: ExecuteInTransaction_def reply_of_def)
  moreover have "\<forall>i < length q. fst (Execute env (q ! i) c (after env c (take i q) s')) \<noteq> Panic"
    using Cons.prems x by (metis Suc_less_eq after.simps(2) length_Cons nth_Cons_Suc snd_conv take_Suc_Cons)
  from Cons.IH [OF this] obtain a where "exec_queue env c q (rs @ [reply_of x])
      (if Appendonly (Cfg s') = TypeAppendOnlyYes
       then aof @ Array_Marshal (map BulkString_Marshal (Command r # Arguments r)) else aof) s' =
      (Ret ((rs @ [reply_of x]) @ map (\<lambda>i. reply_of (fst (Execute env (q ! i) c (after env c (take i q) s')))) [0..<length q], a),
       after env c q s')" by blast
  moreover have "[0..<length (r # q)] = 0 # map Suc [0..<length q]" using upt_conv_Cons [of 0 "length (r # q)"] by (simp add: map_Suc_upt del: upt_Suc)
  ultimately show ?case using x by (simp add: comp_def)
qed

lemma frame_Execute: "frame (snd (Execute env req c s)) = frame s"
proof (cases rule: Execute_start_cases [of req c s env])
  case (run cmd)
  obtain r s' where r: "Handler cmd env req c s = (r, s')" by fastforce
  then have "frame s' = frame s" using handler_frame [OF run(2), of env req c s] by simp
  with r run(4) show ?thesis by (simp add: Execute_def split: go_result.split reply.split option.split prod.split)
qed (simp_all add: Execute_def)

lemma frame_exec_queue: "frame (snd (exec_queue env c q rs aof s)) = frame s"
proof (induction env c q rs aof s rule: exec_queue.induct)
  case (2 env c req reqs replies aofData s)
  have "frame s' = frame s" if "ExecuteInTransaction env req c s = (x, s')" for x s'
    using that frame_Execute [of env req c s] by (auto simp: ExecuteInTransaction_def split: prod.splits go_result.splits)
  with 2 show ?case by (auto split: prod.split go_result.split)
qed simp

lemma EXEC_not_in_table: "CommandHandlers EXEC = None"
  by (simp add: CommandHandlers_def command_table_def command_names)

subsection \<open>Channels\<close>

lemma written_conn_write:
  "ConnOk env conn \<Longrightarrow> written (snd (conn_write env conn b s)) conn' = written s conn' @ (if conn' = conn then b else [])"
  by (simp add: conn_write_def written_def)

lemma client_conn_write [simp]: "client (snd (conn_write env conn b s)) = client s"
  by (simp add: fun_eq_iff client_def conn_write_def)

lemma publish_all_delivers:
  assumes "\<forall>i \<in> set is. ConnOk env (Conn (client s i))"
  shows "fst (publish_all env b is s) = Ret () \<and>
    written (snd (publish_all env b is s)) conn =
      written s conn @ concat (map (\<lambda>i. if Conn (client s i) = conn then b else []) is)"
  using assms
proof (induction "is" arbitrary: s)
  case (Cons i "is")
  obtain s' where s': "conn_write env (Conn (client s i)) b s = (True, s')" using Cons.prems by (simp add: conn_write_def)
  then have "client s' = client s" using client_conn_write [of env "Conn (client s i)" b s] by simp
  moreover have "written s' conn = written s conn @ (if conn = Conn (client s i) then b else [])"
    using written_conn_write [of env "Conn (client s i)" b s conn] s' Cons.prems by simp
  ultimately show ?case using Cons.IH [of s'] Cons.prems s' by auto
qed simp

subsection \<open>Properties\<close>

text \<open>C7. On a store with its invariant, whatever request a client sends other than a \<^verbatim>\<open>ZADD\<close> that names a member twice or gives
  a NaN score, and whether it is refused, queued, fails or runs, \<^verbatim>\<open>Execute\<close> keeps the invariant of the key space: type tags
  agree with values, each sorted set's hash map and skip list agree, and blocked clients wait only on keys without elements. (For the
  excluded \<^verbatim>\<open>ZADD\<close> it is false of the code: \<open>zadd_fresh_key_duplicates_member\<close>.)\<close>

theorem execute_keeps_store:
  assumes "store_ok (DB s)" and "clean_request (Lib env) req"
  shows "store_ok (DB (snd (Execute env req c s)))"
  by (rule Execute_keeps [OF assms])

theorem execute_keeps_store_witness:
  "store_ok (DB (snd (Execute (sample_env 0) \<lparr>Command = ZADD, Arguments = [''z'', ''0'', ''a'', ''1'', ''b'']\<rparr> 1 sample_server)))"
proof -
  have "clean_request sample_lib \<lparr>Command = ZADD, Arguments = [''z'', ''0'', ''a'', ''1'', ''b'']\<rparr>"
    by (simp add: clean_request_def sample_lib_def clean_pairs_def f64_examples)
  then show ?thesis
    using execute_keeps_store [of sample_server "sample_env 0"] store_ok_New
    by (simp add: sample_env_def sample_server_def blank_server_def)
qed

text \<open>C8. On a store with its invariant, the panics that a request other than a \<^verbatim>\<open>ZADD\<close> that names a member twice or gives a NaN
  score can cause, and no others: \<^verbatim>\<open>SET\<close> with an expiry option that has no value, \<^verbatim>\<open>PUBLISH\<close> with one argument, \<^verbatim>\<open>LPOP\<close> with
  a negative count on a list with elements, \<^verbatim>\<open>LRANGE\<close> with a negative start on an empty list, and only if the request passes the
  checks in front of the handler. \<open>Execute\<close> is the view of one goroutine alone, so that its \<open>Panic\<close> also stands for a call that
  does not return: the theorem shows that this is exactly a \<^verbatim>\<open>BLPOP\<close> with timeout zero on a key without elements. (Stores that
  an excluded \<^verbatim>\<open>ZADD\<close> has left without the invariant are not covered.)\<close>

theorem execute_panics_iff:
  assumes "store_ok (DB s)" and "clean_request (Lib env) req"
  shows "fst (Execute env req c s) = Panic \<longleftrightarrow>
    dispatched req c s \<and> (crashes env req (DB s) \<or> waits_forever env req (DB s))"
  by (rule Execute_panic_iff [OF assms])

theorem execute_panics_iff_witness:
  "fst (Execute (sample_env 0) \<lparr>Command = PUBLISH, Arguments = [''news'']\<rparr> 1 sample_server) = Panic \<and>
   fst (Execute (sample_env 0) \<lparr>Command = PUBLISH, Arguments = [''news'', ''hi'']\<rparr> 1 sample_server) \<noteq> Panic"
proof -
  have d: "dispatched \<lparr>Command = PUBLISH, Arguments = [''news'']\<rparr> 1 sample_server"
    by code_simp
  have c: "clean_request (Lib (sample_env 0)) \<lparr>Command = PUBLISH, Arguments = as\<rparr>" for as
    by (simp add: clean_request_def command_names)
  have "crashes (sample_env 0) \<lparr>Command = PUBLISH, Arguments = [''news'']\<rparr> (DB sample_server)"
    "\<not> crashes (sample_env 0) \<lparr>Command = PUBLISH, Arguments = [''news'', ''hi'']\<rparr> (DB sample_server)"
    "\<not> waits_forever (sample_env 0) \<lparr>Command = PUBLISH, Arguments = [''news'', ''hi'']\<rparr> (DB sample_server)"
    by (simp_all add: crashes_def waits_forever_def command_names)
  then show ?thesis
    using execute_panics_iff [of sample_server "sample_env 0", OF _ c] d store_ok_New
    by (simp add: sample_server_def blank_server_def)
qed

text \<open>C33. A command that fails leaves the entry of every key as it was.\<close>

theorem failed_command_changes_no_key:
  assumes "Execute env req c s = (Err e, s')"
  shows "Get (DB s') k = Get (DB s) k"
  using Execute_Err [OF assms] by (simp add: Get_def)

theorem failed_command_changes_no_key_witness:
  "Get (DB (snd (Execute (sample_env 0) \<lparr>Command = ''flushall'', Arguments = []\<rparr> 1 sample_server))) ''k'' = Get (DB sample_server) ''k''"
proof -
  have "CommandHandlers ''flushall'' = None" by (simp add: CommandHandlers_def command_table_def command_names)
  then obtain e where e: "Execute (sample_env 0) \<lparr>Command = ''flushall'', Arguments = []\<rparr> 1 sample_server = (Err e, sample_server)"
    by (simp add: Execute_def Execute_start_def)
  from failed_command_changes_no_key [OF e, of "''k''"] show ?thesis by (simp add: e)
qed

text \<open>C13. After a write command has succeeded, exactly the registered clients that watch its key have their flag set, beside
  those that had it before; nothing else about any session changes.\<close>

theorem write_marks_watchers_dirty:
  assumes "dispatched req c s" and "CommandHandlers (Command req) = Some cmd" and "IsWrite cmd"
    and "Execute env req c s = (Ret b, s')" and "Arguments req = key # rest"
  shows "client s' w = (if w \<in> set (watchers_of s key) then (client s w)\<lparr>DirtyCompareAndSet := True\<rparr> else client s w)"
proof -
  have "s' = touch key (set_DB (DB s') s)" by (rule Execute_write [OF assms])
  then have "client s' w = client (touch key (set_DB (DB s') s)) w" by (rule arg_cong)
  then show ?thesis by (simp add: client_touch)
qed

theorem write_marks_watchers_dirty_witness:
  "DirtyCompareAndSet (client (snd (Execute (sample_env 0) \<lparr>Command = SET, Arguments = [''k'', ''v'']\<rparr> 2
     (sample_server\<lparr>clients := [1, 2], watcherClients := [(''k'', [1])]\<rparr>))) 1)"
proof -
  let ?s = "sample_server\<lparr>clients := [1, 2], watcherClients := [(''k'', [1])]\<rparr>"
  let ?r = "\<lparr>Command = SET, Arguments = [''k'', ''v'']\<rparr>"
  let ?e = "\<lparr>Handler = HandleSet, MinArgs = 2, MaxArgs = -1, IsWrite = True\<rparr>"
  have e: "CommandHandlers SET = Some ?e" by (simp add: CommandHandlers_def command_table_def command_names)
  have d: "dispatched ?r 2 ?s" by code_simp
  obtain s' where s': "Execute (sample_env 0) ?r 2 ?s = (Ret OK, s')"
    using d e by (auto simp: Execute_def Execute_start_def dispatched_def loading_def queues_def arity_ok_def HandleSet_def Execute_finish_def)
  have "1 \<in> set (watchers_of ?s ''k'')" by (simp add: watchers_of_def)
  then show ?thesis
    using write_marks_watchers_dirty [OF d _ _ s', of ?e "''k''" "[''v'']" 1] e s' by simp
qed

text \<open>C10. \<^verbatim>\<open>EXEC\<close> runs the queued commands one after the other, in the order in which they were queued and each on the
  state the one before it left, after the transaction of the client was closed. A command that fails puts its error into
  its place of the reply and does not stop the others, so there are as many replies as commands. Nothing else is written:
  no log, no replica.\<close>

theorem exec_runs_queue_in_order:
  assumes "Command req = EXEC" and "q = CommandQueue (client s c)" and "s0 = ResetTransactionState env c s"
    and "\<forall>i < length q. fst (Execute env (q ! i) c (after env c (take i q) s0)) \<noteq> Panic"
  shows "exec_body env req c s =
    (Ret (map (\<lambda>i. reply_of (fst (Execute env (q ! i) c (after env c (take i q) s0)))) [0..<length q]), after env c q s0)"
  using exec_queue_in_order [OF assms(4), of "[]" "[]"] assms(1-3) by (auto simp: exec_body_def EXEC_not_in_table)

theorem exec_runs_queue_in_order_witness:
  "fst (exec_body (sample_env 0) \<lparr>Command = EXEC, Arguments = []\<rparr> 1 (set_client 1 (blank_client\<lparr>Mode := ClientModeTransaction,
     CommandQueue := [\<lparr>Command = ''nope'', Arguments = []\<rparr>, \<lparr>Command = ECHO, Arguments = [''hi'']\<rparr>]\<rparr>) sample_server))
   = Ret [SimpleError_Marshal ERR (''unknown command '' @ apostrophe @ ''nope'' @ apostrophe), BulkString_Marshal ''hi'']"
proof -
  let ?r0 = "\<lparr>Command = ''nope'', Arguments = []\<rparr>" and ?r1 = "\<lparr>Command = ECHO, Arguments = [''hi'']\<rparr>"
  define s where "s = set_client 1 (blank_client\<lparr>Mode := ClientModeTransaction, CommandQueue := [?r0, ?r1]\<rparr>) sample_server"
  define s0 where "s0 = ResetTransactionState (sample_env 0) 1 s"
  have q: "[?r0, ?r1] = CommandQueue (client s 1)" by (simp add: s_def)
  have m: "Mode (client s0 1) \<noteq> ClientModeTransaction" by (simp add: s0_def ClientModeNormal_def ClientModeTransaction_def)
  have "frame s0 = frame sample_server" by (simp add: s0_def s_def)
  then have n: "Role (Node s0) \<noteq> NodeRoleReplica"
    by (simp add: frame_def sample_server_def blank_server_def NodeRoleMaster_def NodeRoleReplica_def)
  have e0: "Execute (sample_env 0) ?r0 1 s0 = (Err (ESimple ERR (''unknown command '' @ apostrophe @ ''nope'' @ apostrophe)), s0)"
    by (simp add: Execute_def Execute_start_def CommandHandlers_def command_table_def command_names)
  have e1: "Execute (sample_env 0) ?r1 1 s0 = (Ret (BulkString_Marshal ''hi''), s0)"
    using m n by (simp add: Execute_def Execute_start_def CommandHandlers_def command_table_def arity_ok_def HandleEcho_def
        Execute_finish_def)
  have "\<forall>i < length [?r0, ?r1]. fst (Execute (sample_env 0) ([?r0, ?r1] ! i) 1 (after (sample_env 0) 1 (take i [?r0, ?r1]) s0)) \<noteq> Panic"
    by (simp add: e0 e1 All_less_Suc numeral_2_eq_2)
  from exec_runs_queue_in_order [OF _ q s0_def this, of "\<lparr>Command = EXEC, Arguments = []\<rparr>"]
  show ?thesis by (simp add: e0 e1 reply_of_def error_bytes_def s_def [symmetric])
qed

text \<open>\<^verbatim>\<open>EXEC\<close> itself logs nothing: it looks its own name up in the command table, which has no such entry, so
  neither the log nor any other file changes, whatever write commands were queued.\<close>

theorem exec_never_logged:
  assumes "Command req = EXEC"
  shows "FS (snd (exec_body env req c s)) = FS s"
proof -
  have "frame (snd (exec_body env req c s)) = frame s"
    using frame_exec_queue [of env c "CommandQueue (client s c)" "[]" "[]" "ResetTransactionState env c s"] assms
    by (auto simp: exec_body_def EXEC_not_in_table Let_def split: prod.splits go_result.splits)
  then show ?thesis by (simp add: frame_def)
qed

theorem exec_never_logged_witness:
  "FS (snd (exec_body (sample_env 0) \<lparr>Command = EXEC, Arguments = []\<rparr> 1 (sample_server\<lparr>FS := [(''log'', [])]\<rparr>))) = [(''log'', [])]"
  using exec_never_logged [of "\<lparr>Command = EXEC, Arguments = []\<rparr>" "sample_env 0" 1 "sample_server\<lparr>FS := [(''log'', [])]\<rparr>"] by simp

text \<open>C34. \<^verbatim>\<open>PUBLISH\<close> writes one copy of the message to the connection of every registered subscriber of the channel, once per
  subscription, and to no other connection; it replies with the number of deliveries.\<close>

theorem publish_reaches_subscribers:
  assumes "Arguments req = [channel, message]" and "\<forall>i \<in> set (recipients_of s channel). ConnOk env (Conn (client s i))"
  shows "fst (HandlePublish env req c s) = Ret (Bytes (Integer_Marshal (int (length (recipients_of s channel))))) \<and>
    written (snd (HandlePublish env req c s)) conn = written s conn @ concat (map
      (\<lambda>i. if Conn (client s i) = conn then publish_message channel message else []) (recipients_of s channel))"
  using publish_all_delivers [OF assms(2), of "publish_message channel message" conn] assms(1)
  by (auto simp: HandlePublish_def Let_def split: prod.splits go_result.splits)

theorem publish_reaches_subscribers_witness:
  "fst (HandlePublish (sample_env 0) \<lparr>Command = PUBLISH, Arguments = [''ch'', ''m'']\<rparr> 9
     (sample_server\<lparr>clients := [1], subscribersMetaData := [(''ch'', [1, 7])]\<rparr>)) = Ret (Bytes (Integer_Marshal 1))"
  using publish_reaches_subscribers [of "\<lparr>Command = PUBLISH, Arguments = [''ch'', ''m'']\<rparr>" "''ch''" "''m''"
      "sample_server\<lparr>clients := [1], subscribersMetaData := [(''ch'', [1, 7])]\<rparr>" "sample_env 0" 9]
  by (simp add: recipients_of_def sample_env_def)

end
