(* ===== verification/ConnectionSteps.thy ===== *)
theory ConnectionSteps
  imports Connection ExecuteCorrect
begin

text \<open>
  Steps of the system: a case rule that takes a step apart by its goroutine, what a step does to phases, locks and client
  identifiers, and the invariant of \<^verbatim>\<open>executionMutex\<close>, \<open>locks_ok\<close>. The locales \<open>preserved\<close> and \<open>frozen\<close> are the two ways in
  which invariants are used.
\<close>

subsection \<open>Transition systems\<close>

locale preserved =
  fixes trans :: "'s \<Rightarrow> 's \<Rightarrow> bool"
    and inv :: "'s \<Rightarrow> bool"
  assumes inv_step: "inv s \<Longrightarrow> trans s s' \<Longrightarrow> inv s'"
begin

lemma inv_steps: "trans\<^sup>*\<^sup>* s s' \<Longrightarrow> inv s \<Longrightarrow> inv s'"
  by (induction rule: rtranclp_induct) (auto intro: inv_step)

end

text \<open>A component that no transition out of states with the invariant changes keeps its value for ever.\<close>

locale frozen = preserved trans inv for trans :: "'s \<Rightarrow> 's \<Rightarrow> bool" and inv :: "'s \<Rightarrow> bool" +
  fixes part :: "'s \<Rightarrow> 'p"
  assumes part_step: "inv s \<Longrightarrow> trans s s' \<Longrightarrow> part s' = part s"
begin

lemma part_steps: "trans\<^sup>*\<^sup>* s s' \<Longrightarrow> inv s \<Longrightarrow> part s' = part s"
proof (induction rule: rtranclp_induct)
  case (step y z)
  then show ?case using part_step [OF inv_steps [OF step.hyps(1) step.prems] step.hyps(2)] by simp
qed simp

end

subsection \<open>What the steps of a connection leave alone\<close>

lemma clientIDCounter_simps [simp]:
  "clientIDCounter (set_client c x s) = clientIDCounter s" "clientIDCounter (set_DB d s) = clientIDCounter s"
  "clientIDCounter (CloseConnection c s) = clientIDCounter s" "clientIDCounter (ResetTransactionState env c s) = clientIDCounter s"
  "clientIDCounter (snd (conn_write env conn b s)) = clientIDCounter s" "clientIDCounter (touch k s) = clientIDCounter s"
proof -
  have "clientIDCounter (fold mark_dirty ws s) = clientIDCounter s" for ws s
    by (induction ws arbitrary: s) (simp_all add: mark_dirty_def set_client_def)
  then show "clientIDCounter (touch k s) = clientIDCounter s" by (simp add: touch_def)
qed (simp_all add: set_client_def set_DB_def CloseConnection_def ResetTransactionState_def UnwatchAll_def conn_write_def Let_def)

lemma counter_of_frame: "frame s' = frame s \<Longrightarrow> clientIDCounter s' = clientIDCounter s"
  by (simp add: frame_def)

lemma frame_Execute_start: "Execute_start env req c s = (w, r, s') \<Longrightarrow> frame s' = frame s"
proof (cases rule: Execute_start_cases [of req c s env])
  case (run cmd)
  assume "Execute_start env req c s = (w, r, s')"
  with run(4) have "snd (Handler cmd env req c s) = s'" by (metis snd_conv)
  with handler_frame [OF run(2), of env req c s] show ?thesis by simp
qed auto

lemma counter_Execute_finish: "Execute_finish w req b s = (r, s') \<Longrightarrow> clientIDCounter s' = clientIDCounter s \<and> DB s' = DB s"
  by (auto simp: Execute_finish_def split: list.splits if_splits)

lemma DB_answer [simp]: "DB (snd (answer env c b s)) = DB s" "clientIDCounter (snd (answer env c b s)) = clientIDCounter s"
  by (simp_all add: answer_def conn_write_def)

lemma answer_DB: "answer env c b s = (p, s') \<Longrightarrow> DB s' = DB s \<and> clientIDCounter s' = clientIDCounter s \<and> (p = Ready \<or> p = Closed)"
  by (auto simp: answer_def conn_write_def split: if_splits)

lemma on_parse_error_DB:
  "on_parse_error env e c s = (p, s') \<Longrightarrow> DB s' = DB s \<and> clientIDCounter s' = clientIDCounter s \<and> (p = Ready \<or> p = Closed)"
  by (auto simp: on_parse_error_def dest: answer_DB split: option.splits)

lemma exec_check_DB:
  "exec_check env req c s = (p, s') \<Longrightarrow> DB s' = DB s \<and> clientIDCounter s' = clientIDCounter s \<and> (p = Ready \<or> p = Closed \<or> p = Checked req)"
  by (auto simp: exec_check_def dest!: answer_DB split: if_splits)

lemma write_all_DB: "DB (write_all env cs b s) = DB s \<and> clientIDCounter (write_all env cs b s) = clientIDCounter s"
  by (induction cs arbitrary: s) simp_all

lemma propagate_DB: "propagate env req s = (r, s') \<Longrightarrow> DB s' = DB s \<and> clientIDCounter s' = clientIDCounter s"
  by (auto simp: propagate_def aof_append_def replicate_request_def write_all_DB
      split: option.splits if_splits prod.splits go_result.splits)

lemma psync_reply_DB [simp]: "DB (psync_reply env c b s) = DB s" "clientIDCounter (psync_reply env c b s) = clientIDCounter s"
  by (simp_all add: psync_reply_def Let_def AddReplica_def DeleteReplica_def conn_write_def split: option.split)

lemma finish_command_DB:
  assumes "finish_command env req b c s = (r, s')"
  shows "DB s' = DB s \<and> clientIDCounter s' = clientIDCounter s \<and> (\<forall>p. r = Ret p \<longrightarrow> p = Ready \<or> p = Closed)"
  using assms by (auto simp: finish_command_def dest!: answer_DB propagate_DB split: if_splits prod.splits go_result.splits)

lemma exec_end_DB:
  assumes "exec_end env xreq rs aof s = (r, s')"
  shows "DB s' = DB s \<and> clientIDCounter s' = clientIDCounter s \<and> (\<forall>p. r = Ret p \<longrightarrow> p = Replying (Array_Marshal rs))"
  using assms
  by (auto simp: exec_end_def aof_append_def replicate_request_def write_all_DB
      split: option.splits if_splits prod.splits go_result.splits)

lemma conn_write_pair: "conn_write env conn b s = (ok, s') \<Longrightarrow> DB s' = DB s \<and> clientIDCounter s' = clientIDCounter s \<and> client s' = client s"
  using clientIDCounter_simps(5) [of env conn b s] client_conn_write [of env conn b s]
  by (auto simp: conn_write_def split: if_splits)

lemma run_command_counter: "run_command env req c s = (r, leak, s') \<Longrightarrow> clientIDCounter s' = clientIDCounter s"
  by (auto simp: run_command_def dest!: counter_Execute_finish conn_write_pair counter_of_frame [OF frame_Execute_start]
      split: prod.splits go_result.splits reply.splits bool.splits)

lemma go_on_cases:
  obtains (ret) b s' where "x = (Ret b, s')" "go_on k x = (Ret (k b s'), s')"
  | (panic) s' where "snd x = s'" "go_on k x = (Panic, s')"
  by (cases x rule: prod.exhaust; cases "fst x") (auto simp: go_on_def)

lemma exec_next_counter: "exec_next env xreq q rs aof c s = (r, s') \<Longrightarrow> clientIDCounter s' = clientIDCounter s"
  by (auto simp: exec_next_def go_on_def dest!: exec_end_DB counter_Execute_finish counter_of_frame [OF frame_Execute_start]
      split: list.splits prod.splits go_result.splits reply.splits)

lemma exchange_pair: "exchange env conn b s r = (x, s', r') \<Longrightarrow> DB s' = DB s \<and> clientIDCounter s' = clientIDCounter s \<and> client s' = client s"
  by (auto simp: exchange_def dest!: conn_write_pair split: prod.splits bool.splits)

lemma handshake_pair:
  "ReplicaHandShake env dial conn s r = (x, s', r') \<Longrightarrow> DB s' = DB s \<and> clientIDCounter s' = clientIDCounter s \<and> client s' = client s"
  by (auto simp: ReplicaHandShake_def Let_def dest!: exchange_pair
      split: option.splits prod.splits go_result.splits if_splits response.splits)

lemma link_sync_pair:
  "link_sync env dial conn r s = (x, s') \<Longrightarrow> DB s' = DB s \<and> clientIDCounter s' = clientIDCounter s \<and> client s' = client s"
  by (auto simp: link_sync_def dest!: handshake_pair split: prod.splits go_result.splits)

lemma link_next_counter: "link_next env conn c r s = (x, s') \<Longrightarrow> clientIDCounter s' = clientIDCounter s"
  by (auto simp: link_next_def follow_def add_offset_def dest!: conn_write_pair counter_Execute_finish counter_of_frame [OF frame_Execute_start]
      split: prod.splits go_result.splits reply.splits bool.splits if_splits)

lemma AddClient_pair:
  assumes "AddClient conn s = (c, s')"
  shows "c = clientIDCounter s + 1 \<and> clientIDCounter s' = c \<and> DB s' = DB s"
  using assms by (auto simp: AddClient_def new_client_def nextClientID_def Let_def set_client_def)

lemma link_ready_pair:
  assumes "link_ready conn r s = (l, s')"
  shows "clientIDCounter s' = clientIDCounter s + 1 \<and> DB s' = DB s \<and> (\<exists>c. l = Following conn c r)"
  using assms by (auto simp: link_ready_def new_client_def nextClientID_def Let_def set_client_def)

subsection \<open>Steps by their goroutine\<close>

lemma recv_cases:
  assumes "recv env c y = Some y'"
  obtains (quiet) p s i where "y' = set_phase c p s (y\<lparr>Inbox := i\<rparr>)" "p = Ready \<or> p = Closed \<or> (\<exists>req. p = Checked req)"
      "DB s = DB (Srv y)" "clientIDCounter s = clientIDCounter (Srv y)"
  | (dies) i where "y' = crash (Srv y) (y\<lparr>Inbox := i\<rparr>)"
  | (runs) req p leak s i where "\<not> writer_waiting y" "run_command env req c (Srv y) = (Ret p, leak, s)"
      "y' = set_phase c p s (y\<lparr>Inbox := i, Leaked := Leaked y + leak\<rparr>)"
  | (panics) req x leak s i where "\<not> writer_waiting y" "run_command env req c (Srv y) = (x, leak, s)"
      "y' = crash s (y\<lparr>Inbox := i\<rparr>)"
proof -
  obtain r where r: "map_of (Inbox y) c = Some r" using assms by (auto simp: recv_def split: option.splits)
  obtain x r' where x: "ParseRequest (Lib env) r = (x, r')" by fastforce
  show thesis
  proof (cases x)
    case (Err e)
    obtain p s where p: "on_parse_error env e c (Srv y) = (p, s)" by fastforce
    from quiet [of p s "gm_set c r' (Inbox y)"] on_parse_error_DB [OF p] assms r x Err p show thesis by (auto simp: recv_def)
  next
    case Panic
    from dies [of "Inbox y"] assms r x Panic show thesis by (simp add: recv_def)
  next
    case (Ret req)
    let ?i = "gm_set c r' (Inbox y)" and ?s = "Srv y"
    consider "Mode (client ?s c) = ClientModeSubscribed \<and> Command req \<notin> set SubcribedModeCommands"
      | "\<not> (Mode (client ?s c) = ClientModeSubscribed \<and> Command req \<notin> set SubcribedModeCommands)" "Command req = EXEC"
      | "\<not> (Mode (client ?s c) = ClientModeSubscribed \<and> Command req \<notin> set SubcribedModeCommands)" "Command req \<noteq> EXEC"
      by blast
    then show thesis
    proof cases
      case 1
      obtain p s where p: "answer env c (subscribed_error (Command req)) ?s = (p, s)" by fastforce
      from quiet [of p s ?i] answer_DB [OF p] assms r x Ret p 1 show thesis by (auto simp: recv_def)
    next
      case 2
      obtain p s where p: "exec_check env req c ?s = (p, s)" by fastforce
      with assms r x Ret 2 have "y' = set_phase c p s (y\<lparr>Inbox := ?i\<rparr>)" by (auto simp: recv_def)
      with quiet [of p s ?i] exec_check_DB [OF p] show thesis by blast
    next
      case 3
      obtain z leak s where z: "run_command env req c ?s = (z, leak, s)" by (metis prod_cases3)
      have w: "\<not> writer_waiting y" using assms r x Ret 3 by (auto simp: recv_def)
      from assms r x Ret 3 z w runs [OF w, of req _ leak s ?i] panics [OF w z, of ?i] show thesis
        by (cases z) (auto simp: recv_def)
    qed
  qed
qed

lemma step_cases:
  assumes "sys_step env ev y = Some y'"
  obtains (accept) conn r s where "ev = Accept conn r" "AddClient conn (Srv y) = (clientIDCounter (Srv y) + 1, s)"
      "y' = y\<lparr>Srv := s, Phase := gm_set (clientIDCounter (Srv y) + 1) Ready (Phase y),
        Inbox := gm_set (clientIDCounter (Srv y) + 1) r (Inbox y)\<rparr>"
  | (recv) c where "ev = Recv c" "phase_of y c = Ready" "recv env c y = Some y'"
  | (calls) c req where "ev = LockCall c" "phase_of y c = Checked req" "y' = set_phase c (WantsLock req) (Srv y) y"
  | (granted) c req where "ev = LockGranted c" "phase_of y c = WantsLock req" "lock_free y"
      "y' = set_phase c (Executing req (CommandQueue (client (Srv y) c)) [] []) (ResetTransactionState env c (Srv y)) y"
  | (exec) c req q rs aof r s where "ev = ExecNext c" "phase_of y c = Executing req q rs aof"
      "exec_next env req q rs aof c (Srv y) = (r, s)" "y' = settle c (r, s) y"
  | (woken) c wr req w t d db where "ev = Deliver c \<or> ev = Expire c" "phase_of y c = Blocked wr req w t"
      "ev = Deliver c \<and> resolve_receive (DB (Srv y)) w = Some (d, db) \<or> ev = Expire c \<and> resolve_timeout t (DB (Srv y)) w = Some (d, db)"
      "y' = settle c (go_on (\<lambda>b s. Finishing req b) (woken wr req d db (Srv y))) y"
  | (exec_woken) c xreq rest rs aof wr req w t d db where "ev = Deliver c \<or> ev = Expire c"
      "phase_of y c = ExecBlocked xreq rest rs aof wr req w t"
      "ev = Deliver c \<and> resolve_receive (DB (Srv y)) w = Some (d, db) \<or> ev = Expire c \<and> resolve_timeout t (DB (Srv y)) w = Some (d, db)"
      "y' = settle c (go_on (exec_collect xreq rest rs aof req) (woken wr req d db (Srv y))) y"
  | (finish) c req b r s where "ev = Finish c" "phase_of y c = Finishing req b" "finish_command env req b c (Srv y) = (r, s)"
      "y' = settle c (r, s) y"
  | (reply) c b p s where "ev = Finish c" "phase_of y c = Replying b" "answer env c b (Srv y) = (p, s)" "y' = set_phase c p s y"
  | (sync) dial conn r l s where "ev = LinkSync dial conn r" "Link y = Dialing" "link_sync env dial conn r (Srv y) = (l, s)"
      "y' = settle_link (l, s) y"
  | (loaded) conn r l s where "ev = LinkGranted" "Link y = Loading conn r" "lock_free y" "link_ready conn r (Srv y) = (l, s)"
      "y' = y\<lparr>Srv := s, Link := l\<rparr>"
  | (link) conn c r l s where "ev = LinkNext" "Link y = Following conn c r" "link_next env conn c r (Srv y) = (l, s)"
      "y' = settle_link (l, s) y"
  | (link_woken) conn c r wr req w t d db where "ev = LinkDeliver \<or> ev = LinkExpire" "Link y = LinkBlocked conn c r wr req w t"
      "ev = LinkDeliver \<and> resolve_receive (DB (Srv y)) w = Some (d, db) \<or> ev = LinkExpire \<and> resolve_timeout t (DB (Srv y)) w = Some (d, db)"
      "y' = settle_link (follow env conn c r req (woken wr req d db (Srv y))) y"
proof -
  have nc: "\<not> Crashed y" using assms by (auto simp: sys_step_def split: if_splits)
  note run = assms [unfolded sys_step_def if_not_P [OF nc]]
  show thesis
  proof (cases ev)
    case (Accept conn r)
    obtain c s where "AddClient conn (Srv y) = (c, s)" by fastforce
    with AddClient_pair [OF this] run Accept show thesis by (intro accept) auto
  next
    case (Recv c)
    with run show thesis by (intro recv) (auto split: phase.splits)
  next
    case (LockCall c)
    with run calls show thesis by (auto split: phase.splits)
  next
    case (LockGranted c)
    with run granted show thesis by (auto simp: exec_start_def split: phase.splits if_splits)
  next
    case (ExecNext c)
    then obtain req q rs aof where p: "phase_of y c = Executing req q rs aof" using run by (auto split: phase.splits)
    obtain r s where "exec_next env req q rs aof c (Srv y) = (r, s)" by fastforce
    with exec [OF ExecNext p this] run ExecNext p show thesis by simp
  next
    case (Deliver c)
    then have "wake c (\<lambda>t. resolve_receive (DB (Srv y))) y = Some y'" using run by simp
    with woken [of c] exec_woken [of c] Deliver show thesis by (auto simp: wake_def split: phase.splits option.splits)
  next
    case (Expire c)
    then have "wake c (\<lambda>t. resolve_timeout t (DB (Srv y))) y = Some y'" using run by simp
    with woken [of c] exec_woken [of c] Expire show thesis by (auto simp: wake_def split: phase.splits option.splits)
  next
    case (Finish c)
    then consider req b where "phase_of y c = Finishing req b" | b where "phase_of y c = Replying b"
      using run by (auto split: phase.splits)
    then show thesis
    proof cases
      case (1 req b)
      obtain r s where "finish_command env req b c (Srv y) = (r, s)" by fastforce
      with finish [OF Finish 1 this] run Finish 1 show thesis by simp
    next
      case (2 b)
      obtain p s where "answer env c b (Srv y) = (p, s)" by fastforce
      with reply [OF Finish 2 this] run Finish 2 show thesis by simp
    qed
  next
    case (LinkSync dial conn r)
    obtain l s where "link_sync env dial conn r (Srv y) = (l, s)" by fastforce
    with sync [OF LinkSync _ this] run LinkSync show thesis by (auto split: link.splits)
  next
    case LinkGranted
    then obtain conn r where p: "Link y = Loading conn r" "lock_free y" using run by (auto split: link.splits if_splits)
    obtain l s where "link_ready conn r (Srv y) = (l, s)" by fastforce
    with loaded [OF LinkGranted p this] run LinkGranted p show thesis by simp
  next
    case LinkNext
    then obtain conn c r where p: "Link y = Following conn c r" using run by (auto split: link.splits)
    obtain l s where "link_next env conn c r (Srv y) = (l, s)" by fastforce
    with link [OF LinkNext p this] run LinkNext p show thesis by simp
  next
    case LinkDeliver
    then have "wake_link env (\<lambda>t. resolve_receive (DB (Srv y))) y = Some y'" using run by simp
    with link_woken LinkDeliver show thesis by (auto simp: wake_link_def split: link.splits option.splits)
  next
    case LinkExpire
    then have "wake_link env (\<lambda>t. resolve_timeout t (DB (Srv y))) y = Some y'" using run by simp
    with link_woken LinkExpire show thesis by (auto simp: wake_link_def split: link.splits option.splits)
  qed
qed

subsection \<open>Phases and locks\<close>

lemma phase_of_simps [simp]:
  "phase_of (set_phase c p s y) c' = (if c' = c then p else phase_of y c')"
  "phase_of (crash s y) c' = phase_of y c'" "phase_of (y\<lparr>Inbox := i\<rparr>) c' = phase_of y c'"
  "phase_of (y\<lparr>Leaked := n\<rparr>) c' = phase_of y c'" "phase_of (y\<lparr>Srv := s\<rparr>) c' = phase_of y c'"
  "phase_of (y\<lparr>Link := l\<rparr>) c' = phase_of y c'"
  "Srv (set_phase c p s y) = s" "Srv (crash s y) = s" "Leaked (set_phase c p s y) = Leaked y" "Leaked (crash s y) = Leaked y"
  "Link (set_phase c p s y) = Link y" "Link (crash s y) = Link y" "Inbox (set_phase c p s y) = Inbox y"
  "Crashed (set_phase c p s y) = Crashed y" "Crashed (crash s y)" "Phase (crash s y) = Phase y"
  by (simp_all add: phase_of_def set_phase_def crash_def)

lemma settle_simps [simp]:
  "Leaked (settle c x y) = Leaked y" "Link (settle c x y) = Link y" "Srv (settle c x y) = snd x"
  "phase_of (settle c x y) c' = (case fst x of Ret p \<Rightarrow> if c' = c then p else phase_of y c' | _ \<Rightarrow> phase_of y c')"
  by (auto simp: settle_def split: prod.split go_result.split)

lemma settle_link_simps [simp]:
  "Leaked (settle_link x y) = Leaked y" "phase_of (settle_link x y) c = phase_of y c" "Srv (settle_link x y) = snd x"
  "Phase (settle_link x y) = Phase y"
  by (auto simp: settle_link_def split: prod.split go_result.split)

lemma gm_ok_phases [simp]:
  "gm_ok (Phase y) \<Longrightarrow> gm_ok (Phase (set_phase c p s y))" "gm_ok (Phase y) \<Longrightarrow> gm_ok (Phase (settle c x y))"
  by (auto simp: set_phase_def settle_def split: prod.split go_result.split)

lemma phase_of_mem: "phase_of y c = p \<Longrightarrow> p \<noteq> Closed \<Longrightarrow> p \<in> snd ` set (Phase y)"
  by (force simp: phase_of_def split: option.splits dest: map_of_SomeD)

lemma phase_kinds [simp]:
  "\<not> is_blocked Ready" "\<not> is_blocked Closed" "\<not> is_blocked (Checked req)" "\<not> is_blocked (Finishing req b)" "\<not> is_blocked (Replying b)"
  "\<not> is_blocked (WantsLock req)" "\<not> is_blocked (Executing req q rs aof)" "\<not> is_blocked (ExecBlocked req q rs aof wr r w t)"
  "is_blocked (Blocked wr req w t)"
  "\<not> holds_write Ready" "\<not> holds_write Closed" "\<not> holds_write (Checked req)" "\<not> holds_write (Finishing req b)"
  "\<not> holds_write (Replying b)" "\<not> holds_write (WantsLock req)" "\<not> holds_write (Blocked wr req w t)"
  "holds_write (Executing req q rs aof)" "holds_write (ExecBlocked req q rs aof wr r w t)"
  "wants_write (WantsLock req)" "holds_write p \<Longrightarrow> wants_write p"
  by (auto simp: is_blocked_def holds_write_def wants_write_def split: phase.splits)

lemma collect_holds [simp]: "holds_write (exec_collect x q rs aof req b s)" "\<not> is_blocked (exec_collect x q rs aof req b s)"
  by (simp_all add: exec_collect_def)

lemma holds_writeE:
  assumes "holds_write p"
  obtains (executing) req q rs aof where "p = Executing req q rs aof"
  | (blocked) req q rs aof wr r w t where "p = ExecBlocked req q rs aof wr r w t"
  using assms by (auto simp: holds_write_def split: phase.splits)

lemma is_blockedE:
  assumes "is_blocked p"
  obtains wr req w t where "p = Blocked wr req w t"
  using assms by (auto simp: is_blocked_def split: phase.splits)

lemma phase_of_mem':
  assumes "P (phase_of y c)" and "\<not> P Closed"
  shows "\<exists>p \<in> snd ` set (Phase y). P p"
proof -
  have "phase_of y c \<noteq> Closed" using assms by auto
  with phase_of_mem [OF refl this] assms(1) show ?thesis by blast
qed

lemma not_wants_Closed [simp]: "\<not> wants_write Closed" by (simp add: wants_write_def)

lemma wants_write_waiting: "wants_write (phase_of y c) \<Longrightarrow> writer_waiting y"
  unfolding writer_waiting_def by (intro disjI1 phase_of_mem' [of wants_write]) simp_all

lemma blocked_reader: "is_blocked (phase_of y c) \<Longrightarrow> readers_out y"
  unfolding readers_out_def by (intro disjI2 phase_of_mem' [of is_blocked]) simp_all

lemma holder_in: "holds_write (phase_of y c) \<Longrightarrow> writer_in y"
  unfolding writer_in_def by (intro phase_of_mem' [of holds_write]) simp_all

lemma some_phase:
  assumes "gm_ok (Phase y)" and "\<not> P Closed"
  shows "(\<exists>p \<in> snd ` set (Phase y). P p) \<longleftrightarrow> (\<exists>d. P (phase_of y d))"
proof
  assume "\<exists>p \<in> snd ` set (Phase y). P p"
  then obtain d p where "(d, p) \<in> set (Phase y)" "P p" by auto
  then have "phase_of y d = p" using assms(1) by (simp add: phase_of_def gm_ok_def)
  then show "\<exists>d. P (phase_of y d)" using \<open>P p\<close> by blast
next
  assume "\<exists>d. P (phase_of y d)"
  then obtain d where d: "P (phase_of y d)" by blast
  then have "phase_of y d \<noteq> Closed" using assms(2) by auto
  then show "\<exists>p \<in> snd ` set (Phase y). P p" using phase_of_mem [of y d] d by blast
qed

lemma lock_free_iff:
  assumes "gm_ok (Phase y)"
  shows "lock_free y \<longleftrightarrow> Leaked y = 0 \<and> (\<forall>d. \<not> is_blocked (phase_of y d) \<and> \<not> holds_write (phase_of y d))"
  using some_phase [OF assms, of is_blocked] some_phase [OF assms, of holds_write]
  by (auto simp: lock_free_def readers_out_def writer_in_def)

lemma finite_phases: "\<not> P Closed \<Longrightarrow> finite {d. P (phase_of y d)}"
proof (rule finite_subset)
  show "\<not> P Closed \<Longrightarrow> {d. P (phase_of y d)} \<subseteq> fst ` set (Phase y)"
    by (force simp: phase_of_def split: option.splits dest: map_of_SomeD)
qed simp

subsection \<open>What a step does to phases, locks and identifiers\<close>

lemma exec_next_phase:
  assumes "exec_next env req q rs aof c s = (Ret p, s')"
  shows "q = [] \<and> p = Replying (Array_Marshal rs) \<or> (\<exists>r rest rs' aof'. q = r # rest \<and>
    (p = Executing req rest rs' aof' \<or> (\<exists>wr w t. p = ExecBlocked req rest rs' aof' wr r w t)))"
  using assms
  by (auto simp: exec_next_def go_on_def exec_collect_def dest!: exec_end_DB split: list.splits prod.splits go_result.splits reply.splits)

lemma run_command_phase:
  assumes "run_command env req c s = (Ret p, leak, s')"
  shows "(\<exists>b. p = Finishing req b) \<and> leak = 0 \<or> p = Closed \<or> (\<exists>wr w t. p = Blocked wr req w t) \<and> leak = 0"
  using assms by (auto simp: run_command_def split: prod.splits go_result.splits reply.splits bool.splits)

lemma go_on_phase: "fst (go_on k x) = Ret p \<Longrightarrow> \<exists>b s. p = k b s"
  by (auto simp: go_on_def split: prod.splits go_result.splits)

lemma step_moves:
  assumes "sys_step env ev y = Some y'"
  obtains c where "\<And>d. d \<noteq> c \<Longrightarrow> phase_of y' d = phase_of y d"
    and "is_blocked (phase_of y' c) \<Longrightarrow> is_blocked (phase_of y c) \<or> \<not> writer_waiting y"
    and "Leaked y' \<noteq> Leaked y \<Longrightarrow> \<not> writer_waiting y"
    and "holds_write (phase_of y' c) \<Longrightarrow> holds_write (phase_of y c) \<or> lock_free y \<and> writer_waiting y"
    and "gm_ok (Phase y) \<Longrightarrow> gm_ok (Phase y')"
    and "phase_of y c \<noteq> Closed \<or> phase_of y' c = Closed \<or> c = clientIDCounter (Srv y) + 1 \<and> clientIDCounter (Srv y') = c"
    and "clientIDCounter (Srv y) \<le> clientIDCounter (Srv y')" and "Leaked y \<le> Leaked y'"
    and "Link y = NoLink \<Longrightarrow> Link y' = NoLink"
    and "\<And>req. phase_of y c = WantsLock req \<Longrightarrow> c \<le> clientIDCounter (Srv y) \<Longrightarrow> phase_of y' c \<noteq> phase_of y c \<Longrightarrow> ev = LockGranted c"
  using assms
proof (cases rule: step_cases)
  case (accept conn r s)
  then show thesis using AddClient_pair [OF accept(2)]
    by (intro that [of "clientIDCounter (Srv y) + 1"]) (auto simp: phase_of_def)
next
  case (recv c)
  from recv(3) show thesis
  proof (cases rule: recv_cases)
    case (quiet p s i)
    then show thesis using recv(2) by (intro that [of c]) auto
  next
    case (dies i)
    then show thesis by (intro that [of c]) auto
  next
    case (runs req p leak s i)
    then show thesis using recv(2) run_command_counter [OF runs(2)] run_command_phase [OF runs(2)]
      by (intro that [of c]) auto
  next
    case (panics req x leak s i)
    then show thesis using run_command_counter [OF panics(2)] by (intro that [of c]) auto
  qed
next
  case (calls c req)
  then show thesis by (intro that [of c]) auto
next
  case (granted c req)
  then show thesis using wants_write_waiting [of y c] by (intro that [of c]) auto
next
  case (exec c req q rs aof r s)
  then show thesis using exec_next_counter [OF exec(3)] exec_next_phase [of env req q rs aof c "Srv y" _ s]
    by (intro that [of c]) (auto split: go_result.splits)
next
  case (woken c wr req w t d db)
  then show thesis
    by (intro that [of c]) (auto dest: go_on_phase counter_Execute_finish simp: woken_def go_on_def split: prod.splits go_result.splits)
next
  case (exec_woken c xreq rest rs aof wr req w t d db)
  then show thesis
    by (intro that [of c]) (auto dest: go_on_phase counter_Execute_finish simp: woken_def go_on_def split: prod.splits go_result.splits)
next
  case (finish c req b r s)
  then show thesis using finish_command_DB [OF finish(3)] by (intro that [of c]) (auto split: go_result.splits)
next
  case (reply c b p s)
  then show thesis using answer_DB [OF reply(3)] by (intro that [of c]) auto
next
  case (sync dial conn r l s)
  then show thesis using link_sync_pair [OF sync(3)] by (intro that) auto
next
  case (loaded conn r l s)
  then show thesis using link_ready_pair [OF loaded(4)] by (intro that) auto
next
  case (link conn c r l s)
  then show thesis using link_next_counter [OF link(3)] by (intro that) auto
next
  case (link_woken conn c r wr req w t d db)
  then show thesis
    by (intro that) (auto dest: counter_Execute_finish simp: woken_def follow_def add_offset_def split: prod.splits go_result.splits)
qed

subsection \<open>The lock excludes\<close>

text \<open>At most one transaction holds the write lock, nobody holds the read lock beside it, and clients have identifiers that have
  been given out.\<close>

definition locks_ok :: "Sys \<Rightarrow> bool" where
  "locks_ok y \<longleftrightarrow> gm_ok (Phase y) \<and> (\<forall>c. phase_of y c \<noteq> Closed \<longrightarrow> c \<le> clientIDCounter (Srv y)) \<and>
     (\<forall>c d. holds_write (phase_of y c) \<longrightarrow> holds_write (phase_of y d) \<longrightarrow> c = d) \<and>
     (\<forall>c. holds_write (phase_of y c) \<longrightarrow> Leaked y = 0 \<and> (\<forall>d. \<not> is_blocked (phase_of y d)))"

lemma locks_okD:
  assumes "locks_ok y"
  shows "gm_ok (Phase y)" and "phase_of y c \<noteq> Closed \<Longrightarrow> c \<le> clientIDCounter (Srv y)"
    and "holds_write (phase_of y c) \<Longrightarrow> holds_write (phase_of y d) \<Longrightarrow> c = d"
    and "holds_write (phase_of y c) \<Longrightarrow> Leaked y = 0" and "holds_write (phase_of y c) \<Longrightarrow> \<not> is_blocked (phase_of y d)"
  using assms by (auto simp: locks_ok_def)

lemma locks_ok_step:
  assumes ok: "locks_ok y" and st: "sys_step env ev y = Some y'"
  shows "locks_ok y'"
proof -
  obtain c where c: "\<And>d. d \<noteq> c \<Longrightarrow> phase_of y' d = phase_of y d"
      "is_blocked (phase_of y' c) \<Longrightarrow> is_blocked (phase_of y c) \<or> \<not> writer_waiting y"
      "Leaked y' \<noteq> Leaked y \<Longrightarrow> \<not> writer_waiting y"
      "holds_write (phase_of y' c) \<Longrightarrow> holds_write (phase_of y c) \<or> lock_free y \<and> writer_waiting y"
      "gm_ok (Phase y) \<Longrightarrow> gm_ok (Phase y')"
      "phase_of y c \<noteq> Closed \<or> phase_of y' c = Closed \<or> c = clientIDCounter (Srv y) + 1 \<and> clientIDCounter (Srv y') = c"
      "clientIDCounter (Srv y) \<le> clientIDCounter (Srv y')"
    by (rule step_moves [OF st]) (rule that)
  note ok' = locks_okD [OF ok]
  have free: "lock_free y \<Longrightarrow> \<not> holds_write (phase_of y d) \<and> \<not> is_blocked (phase_of y d) \<and> Leaked y = 0" for d
    using lock_free_iff [OF ok'(1)] by blast
  have wait: "\<not> holds_write (phase_of y d)" if "\<not> writer_waiting y" for d
    using that wants_write_waiting [of y d] by auto
  have holder: "holds_write (phase_of y d) \<or> lock_free y \<and> writer_waiting y \<and> d = c" if "holds_write (phase_of y' d)" for d
    using that c(1,4) by metis
  have quiet: "Leaked y' = 0 \<and> \<not> is_blocked (phase_of y' d)" if h: "holds_write (phase_of y' e)" for d e
  proof -
    have "Leaked y = 0 \<and> (\<forall>d. \<not> is_blocked (phase_of y d))" using holder [OF h] ok'(4,5) free by blast
    moreover have "writer_waiting y" using holder [OF h] wait by blast
    ultimately show ?thesis using c(1-3) by (cases "d = c") auto
  qed
  show ?thesis
    unfolding locks_ok_def
  proof (intro conjI allI impI)
    show "gm_ok (Phase y')" using c(5) ok'(1) by blast
    show "d \<le> clientIDCounter (Srv y')" if "phase_of y' d \<noteq> Closed" for d
      using that c(1,6,7) ok'(2) [of d] by (cases "d = c") force+
    show "d = e" if "holds_write (phase_of y' d)" "holds_write (phase_of y' e)" for d e
      using holder [OF that(1)] holder [OF that(2)] ok'(3) free by blast
  qed (use quiet in blast)+
qed

interpretation locks: preserved step locks_ok
  by unfold_locales (auto elim!: stepE dest: locks_ok_step)

end
