(* ===== verification/ConnectionCorrect.thy ===== *)
theory ConnectionCorrect
  imports ConnectionSteps
begin

text \<open>
  The system of all goroutines: when a transaction gets its lock and when it never does, the invariant of every
  interleaving, transactions step by step against \<open>exec_body\<close>, and what the gap between a check and a lock allows.
\<close>

subsection \<open>A deadlock\<close>

text \<open>Client \<open>b\<close> waits in \<^verbatim>\<open>BLPOP\<close> without a timeout, holding the read lock, and client \<open>x\<close> has called \<^verbatim>\<open>Lock\<close> for its
  \<^verbatim>\<open>EXEC\<close>, so that no new reader is admitted and no client can push the element that \<open>b\<close> waits for. There is no goroutine that
  follows a master, which could.\<close>

definition deadlocked :: "int \<Rightarrow> int \<Rightarrow> Sys \<Rightarrow> bool" where
  "deadlocked b x y \<longleftrightarrow>
     (case phase_of y b of
        Blocked write req w t \<Rightarrow> f64_eq t f64_zero \<and> map_of (chans (DB (Srv y))) (WChan w) = None
      | _ \<Rightarrow> False) \<and>
     (case phase_of y x of WantsLock req \<Rightarrow> True | _ \<Rightarrow> False)"

definition stuck_part :: "int \<Rightarrow> int \<Rightarrow> Sys \<Rightarrow> (string, Entry) gomap \<times> phase \<times> phase" where
  "stuck_part b x y = (data (DB (Srv y)), phase_of y b, phase_of y x)"

lemma removeWaiter_keeps [simp]: "data (removeWaiter d w) = data d" "chans (removeWaiter d w) = chans d"
  by (simp_all add: removeWaiter_def Let_def split: option.split)

lemma woken_DB: "DB (snd (woken wr req d db s)) = db"
  using counter_Execute_finish [of wr req "blpop_reply d" "set_DB db s" "fst (woken wr req d db s)" "snd (woken wr req d db s)"]
  by (simp add: woken_def)

lemma snd_go_on [simp]: "snd (go_on k x) = snd x"
  by (simp add: go_on_def split: prod.split go_result.split)

lemma deadlocked_keep:
  assumes "deadlocked b x y"
    and "phase_of y' b = phase_of y b" and "phase_of y' x = phase_of y x" and "data (DB (Srv y')) = data (DB (Srv y))"
    and "\<And>c. map_of (chans (DB (Srv y))) c = None \<Longrightarrow> map_of (chans (DB (Srv y'))) c = None"
  shows "deadlocked b x y' \<and> stuck_part b x y' = stuck_part b x y"
  using assms by (auto simp: deadlocked_def stuck_part_def split: phase.splits)

lemma deadlocked_step:
  assumes dl: "deadlocked b x y" and ok: "locks_ok y" and nolink: "Link y = NoLink" and st: "sys_step env ev y = Some y'"
  shows "deadlocked b x y' \<and> stuck_part b x y' = stuck_part b x y"
proof -
  obtain wr req w t where b: "phase_of y b = Blocked wr req w t" "f64_eq t f64_zero"
      "map_of (chans (DB (Srv y))) (WChan w) = None"
    using dl by (auto simp: deadlocked_def split: phase.splits)
  obtain rq where x: "phase_of y x = WantsLock rq" using dl by (auto simp: deadlocked_def split: phase.splits)
  have ids: "b \<le> clientIDCounter (Srv y)" "x \<le> clientIDCounter (Srv y)" using locks_okD(2) [OF ok] b(1) x by auto
  have no_holder: "\<not> holds_write (phase_of y d)" for d using locks_okD(5) [OF ok, of d b] b(1) by auto
  have waits: "writer_waiting y" using wants_write_waiting [of y x] x by simp
  note keep = deadlocked_keep [OF dl]
  from st show ?thesis
  proof (cases rule: step_cases)
    case (accept conn r s)
    with AddClient_pair [OF accept(2)] ids show ?thesis by (intro keep) (auto simp: phase_of_def)
  next
    case (recv c)
    then have "c \<noteq> b" "c \<noteq> x" using b(1) x by auto
    with recv(3) waits show ?thesis by (cases rule: recv_cases) (intro keep; simp)+
  next
    case (calls c q)
    with b x show ?thesis by (intro keep) auto
  next
    case (granted c q)
    with blocked_reader [of y b] b(1) show ?thesis by (simp add: lock_free_def)
  next
    case (exec c q qs rs aof r s)
    with no_holder [of c] show ?thesis by simp
  next
    case (woken c wr' q w' t' d db)
    then have "data db = data (DB (Srv y)) \<and> (\<forall>i. map_of (chans (DB (Srv y))) i = None \<longrightarrow> map_of (chans db) i = None) \<and>
        (w' \<noteq> w \<or> t' \<noteq> t)"
      using b(2,3) by (auto simp: resolve_receive_def resolve_timeout_def split: option.splits if_splits)
    moreover from this have "c \<noteq> b" "c \<noteq> x" using woken(2) b(1) x by auto
    ultimately show ?thesis by (intro keep) (simp_all add: woken(4) woken_DB split: go_result.split)
  next
    case (exec_woken c xreq rest rs aof wr' q w' t' d db)
    with no_holder [of c] show ?thesis by simp
  next
    case (finish c q bs r s)
    then have "c \<noteq> b" "c \<noteq> x" using b(1) x by auto
    then show ?thesis using finish_command_DB [OF finish(3)]
      by (intro keep) (auto simp: finish(4) split: go_result.split)
  next
    case (reply c bs p s)
    then have "c \<noteq> b" "c \<noteq> x" using b(1) x by auto
    then show ?thesis using answer_DB [OF reply(3)] by (intro keep) (auto simp: reply(4))
  qed (use nolink in simp_all)
qed

lemma no_link_step: "sys_step env ev y = Some y' \<Longrightarrow> Link y = NoLink \<Longrightarrow> Link y' = NoLink"
  by (elim step_moves) simp

interpretation deadlock: frozen step "\<lambda>y. deadlocked b x y \<and> locks_ok y \<and> Link y = NoLink" "stuck_part b x" for b x
  by unfold_locales (auto elim!: stepE dest: deadlocked_step no_link_step locks_ok_step)

subsection \<open>A read lock that is never released\<close>

lemma step_Leaked: "sys_step env ev y = Some y' \<Longrightarrow> Leaked y \<le> Leaked y'"
  by (elim step_moves) simp

interpretation leak: preserved step "\<lambda>y. 0 < Leaked y"
  by unfold_locales (auto elim!: stepE dest: step_Leaked)

lemma leaked_no_grant: "0 < Leaked y \<Longrightarrow> sys_step env (LockGranted c) y = None" "0 < Leaked y \<Longrightarrow> sys_step env LinkGranted y = None"
  by (auto simp: sys_step_def lock_free_def readers_out_def split: phase.split link.split)

text \<open>A request that is refused, and whose error cannot be written to its connection.\<close>

lemma refused_leaks:
  assumes "phase_of y c = Ready" and "\<not> Crashed y" and "map_of (Inbox y) c = Some r" and "ParseRequest (Lib env) r = (Ret req, r')"
    and "Mode (client (Srv y) c) \<noteq> ClientModeSubscribed" and "Command req \<noteq> EXEC" and "\<not> writer_waiting y"
    and "Execute_start env req c (Srv y) = (w, Err e, s)" and "\<not> ConnOk env (Conn (client s c))"
  shows "\<exists>y1. sys_step env (Recv c) y = Some y1 \<and> phase_of y1 c = Closed \<and> Leaked y1 = Leaked y + 1 \<and> DB (Srv y1) = DB s"
proof -
  have "run_command env req c (Srv y) = (Ret Closed, 1, CloseConnection c s)"
    using assms(8,9) by (simp add: run_command_def conn_write_def)
  then show ?thesis using assms(1-7) by (simp add: sys_step_def recv_def set_phase_def phase_of_def CloseConnection_def)
qed

subsection \<open>A transaction gets its lock\<close>

text \<open>An endless behaviour: at each instant one event happens, or nothing. An event that stays possible is taken at some time
  (a timer that has run out, the next command of a transaction that has the lock); one that is possible again and again
  is taken at some time too, where that is demanded (the mutex does not let a waiting writer starve).\<close>

type_synonym history = "nat \<Rightarrow> (env \<times> event) option"

definition behaviour :: "(nat \<Rightarrow> Sys) \<Rightarrow> history \<Rightarrow> bool" where
  "behaviour ys evs \<longleftrightarrow>
     (\<forall>i. case evs i of None \<Rightarrow> ys (Suc i) = ys i | Some (env, ev) \<Rightarrow> sys_step env ev (ys i) = Some (ys (Suc i)))"

definition taken :: "history \<Rightarrow> event \<Rightarrow> nat \<Rightarrow> bool" where
  "taken evs ev i \<longleftrightarrow> (\<exists>env. evs i = Some (env, ev))"

definition enabled :: "event \<Rightarrow> Sys \<Rightarrow> bool" where
  "enabled ev y \<longleftrightarrow> (\<exists>env y'. sys_step env ev y = Some y')"

definition weakly_fair :: "(nat \<Rightarrow> Sys) \<Rightarrow> history \<Rightarrow> event \<Rightarrow> bool" where
  "weakly_fair ys evs ev \<longleftrightarrow> (\<forall>i. (\<forall>j \<ge> i. enabled ev (ys j)) \<longrightarrow> (\<exists>j \<ge> i. taken evs ev j))"

definition strongly_fair :: "(nat \<Rightarrow> Sys) \<Rightarrow> history \<Rightarrow> event \<Rightarrow> bool" where
  "strongly_fair ys evs ev \<longleftrightarrow> (\<forall>i. (\<forall>k \<ge> i. \<exists>j \<ge> k. enabled ev (ys j)) \<longrightarrow> (\<exists>j \<ge> i. taken evs ev j))"

text \<open>Nobody waits in \<^verbatim>\<open>BLPOP\<close> without a timeout.\<close>

definition timed :: "Sys \<Rightarrow> bool" where
  "timed y \<longleftrightarrow> (\<forall>d. case phase_of y d of
       Blocked wr r w t \<Rightarrow> \<not> f64_eq t f64_zero
     | ExecBlocked x q rs aof wr r w t \<Rightarrow> \<not> f64_eq t f64_zero
     | _ \<Rightarrow> True)"

text \<open>How much is left to do for a transaction that has the lock.\<close>

definition left_to_do :: "phase \<Rightarrow> nat" where
  "left_to_do p = (case p of Executing x q rs aof \<Rightarrow> 2 * length q | ExecBlocked x q rs aof wr r w t \<Rightarrow> 2 * length q + 1 | _ \<Rightarrow> 0)"

lemma expire_enabled:
  assumes "\<not> Crashed y" and "timed y" and "is_blocked (phase_of y d) \<or> (\<exists>x q rs aof wr r w t. phase_of y d = ExecBlocked x q rs aof wr r w t)"
  shows "enabled (Expire d) y"
proof -
  have t: "case phase_of y d of Blocked wr r w t \<Rightarrow> \<not> f64_eq t f64_zero
     | ExecBlocked x q rs aof wr r w t \<Rightarrow> \<not> f64_eq t f64_zero | _ \<Rightarrow> True" using assms(2) unfolding timed_def by blast
  then show ?thesis
    using assms(1,3) by (auto simp: enabled_def sys_step_def wake_def resolve_timeout_def is_blocked_def split: phase.splits)
qed

lemma exec_next_enabled: "\<not> Crashed y \<Longrightarrow> phase_of y d = Executing x q rs aof \<Longrightarrow> enabled (ExecNext d) y"
  by (simp add: enabled_def sys_step_def)

lemma grant_enabled: "\<not> Crashed y \<Longrightarrow> phase_of y c = WantsLock req \<Longrightarrow> lock_free y \<Longrightarrow> enabled (LockGranted c) y"
  by (simp add: enabled_def sys_step_def exec_start_def)

lemma crash_settle: "Crashed (settle c x y) \<longleftrightarrow> Crashed y \<or> (\<forall>p. fst x \<noteq> Ret p)"
  by (auto simp: settle_def split: prod.split go_result.split)

lemma expire_unblocks:
  assumes "sys_step env (Expire d) y = Some y'" and "is_blocked (phase_of y d)" and "\<not> Crashed y'"
  shows "\<not> is_blocked (phase_of y' d)"
  using assms(1)
proof (cases rule: step_cases)
  case (woken c wr req w t e db)
  then obtain p where p: "fst (go_on (\<lambda>b s. Finishing req b) (woken wr req e db (Srv y))) = Ret p"
    using assms(3) by (auto simp: crash_settle)
  with go_on_phase [OF p] woken show ?thesis by auto
qed (use assms(2) in auto)

lemma holder_moves:
  assumes "locks_ok y" and "sys_step env ev y = Some y'" and "holds_write (phase_of y d)" and "\<not> Crashed y'"
  shows "phase_of y' d = phase_of y d \<and> ev \<noteq> ExecNext d \<and> ev \<noteq> Expire d \<or>
    left_to_do (phase_of y' d) < left_to_do (phase_of y d) \<and> holds_write (phase_of y' d) \<or> \<not> holds_write (phase_of y' d)"
  using assms(2)
proof (cases rule: step_cases)
  case (accept conn r s)
  have "d \<le> clientIDCounter (Srv y)" using locks_okD(2) [OF assms(1), of d] assms(3) by (cases "phase_of y d") auto
  with accept show ?thesis by (simp add: phase_of_def)
next
  case (recv c)
  then have "c \<noteq> d" using assms(3) by auto
  with recv(3) have "phase_of y' d = phase_of y d" by (cases rule: recv_cases) simp_all
  with recv(1) show ?thesis by simp
next
  case (exec c req q rs aof r s)
  then obtain p where p: "r = Ret p" using assms(4) by (auto simp: crash_settle)
  show ?thesis
  proof (cases "c = d")
    case True
    with exec_next_phase [of env req q rs aof c "Srv y" p s] exec p show ?thesis by (auto simp: left_to_do_def)
  qed (use exec p in auto)
next
  case (exec_woken c xreq rest rs aof wr req w t e db)
  then obtain p where p: "fst (go_on (exec_collect xreq rest rs aof req) (woken wr req e db (Srv y))) = Ret p"
    using assms(4) by (auto simp: crash_settle)
  show ?thesis
  proof (cases "c = d")
    case True
    with go_on_phase [OF p] exec_woken p show ?thesis by (auto simp: left_to_do_def exec_collect_def)
  qed (use exec_woken p in auto)
next
  case (woken c wr req w t e db)
  then have "c \<noteq> d" using assms(3) by auto
  with woken show ?thesis by (auto split: go_result.split)
next
  case (finish c req b r s)
  then have "c \<noteq> d" using assms(3) by auto
  with finish show ?thesis by (auto split: go_result.split)
next
  case (reply c b p s)
  then have "c \<noteq> d" using assms(3) by auto
  with reply show ?thesis by auto
qed (use assms(3) in auto)

lemma others_hold:
  assumes "locks_ok y" and "sys_step env ev y = Some y'" and "holds_write (phase_of y d)" and "\<not> holds_write (phase_of y' d)"
  shows "\<not> holds_write (phase_of y' e)"
proof
  assume e: "holds_write (phase_of y' e)"
  obtain c where c: "\<And>d. d \<noteq> c \<Longrightarrow> phase_of y' d = phase_of y d"
    by (rule step_moves [OF assms(2)]) (rule that)
  from assms(3,4) have "d = c" using c by metis
  then have "e \<noteq> d" using e assms(4) by auto
  with \<open>d = c\<close> e c have "holds_write (phase_of y e)" by simp
  with locks_okD(3) [OF assms(1,3)] \<open>e \<noteq> d\<close> show False by blast
qed

lemma reader_new: "sys_step env ev y = Some y' \<Longrightarrow> writer_waiting y \<Longrightarrow> is_blocked (phase_of y' d) \<Longrightarrow> is_blocked (phase_of y d)"
  by (elim step_moves) metis

lemma leak_new: "sys_step env ev y = Some y' \<Longrightarrow> writer_waiting y \<Longrightarrow> Leaked y' = Leaked y"
  by (elim step_moves) metis

lemma wants_stays:
  "sys_step env ev y = Some y' \<Longrightarrow> phase_of y c = WantsLock req \<Longrightarrow> c \<le> clientIDCounter (Srv y) \<Longrightarrow> ev \<noteq> LockGranted c \<Longrightarrow>
   phase_of y' c = WantsLock req"
  by (elim step_moves) metis

text \<open>A behaviour that never dies, in which client \<open>c\<close> waits for the write lock and is never granted it.\<close>

definition waits_for_ever :: "(nat \<Rightarrow> Sys) \<Rightarrow> history \<Rightarrow> int \<Rightarrow> Request \<Rightarrow> bool" where
  "waits_for_ever ys evs c req \<longleftrightarrow> behaviour ys evs \<and> locks_ok (ys 0) \<and> Leaked (ys 0) = 0 \<and>
     phase_of (ys 0) c = WantsLock req \<and> (\<forall>i. \<not> Crashed (ys i) \<and> timed (ys i)) \<and>
     (\<forall>d. weakly_fair ys evs (Expire d) \<and> weakly_fair ys evs (ExecNext d)) \<and> (\<forall>i. \<not> taken evs (LockGranted c) i)"

lemma waits_for_everD:
  assumes "waits_for_ever ys evs c req"
  shows w_beh: "behaviour ys evs" and w_ok: "locks_ok (ys 0)" and w_no_leak: "Leaked (ys 0) = 0"
    and w_wants: "phase_of (ys 0) c = WantsLock req" and w_alive: "\<not> Crashed (ys i)" and w_timed: "timed (ys i)"
    and w_timers: "weakly_fair ys evs (Expire d)" and w_goes_on: "weakly_fair ys evs (ExecNext d)"
    and w_never: "\<not> taken evs (LockGranted c) i"
  using assms by (simp_all add: waits_for_ever_def)

lemma step_at:
  assumes "behaviour ys evs"
  obtains (stutter) "ys (Suc i) = ys i" "\<And>ev. \<not> taken evs ev i"
  | (step) env ev where "sys_step env ev (ys i) = Some (ys (Suc i))" "taken evs ev i" "\<And>ev'. taken evs ev' i \<Longrightarrow> ev' = ev"
proof (cases "evs i")
  case None
  have "case evs i of None \<Rightarrow> ys (Suc i) = ys i | Some (env, ev) \<Rightarrow> sys_step env ev (ys i) = Some (ys (Suc i))"
    using assms unfolding behaviour_def by blast
  with None stutter show thesis by (simp add: taken_def)
next
  case (Some x)
  obtain env ev where x: "x = (env, ev)" by fastforce
  have "case evs i of None \<Rightarrow> ys (Suc i) = ys i | Some (env, ev) \<Rightarrow> sys_step env ev (ys i) = Some (ys (Suc i))"
    using assms unfolding behaviour_def by blast
  with Some x have "sys_step env ev (ys i) = Some (ys (Suc i))" by simp
  with Some x step show thesis by (auto simp: taken_def)
qed

lemma waiting_invariants:
  assumes w: "waits_for_ever ys evs c req"
  shows "locks_ok (ys i) \<and> phase_of (ys i) c = WantsLock req \<and> Leaked (ys i) = 0 \<and> writer_waiting (ys i)"
proof -
  have "locks_ok (ys i) \<and> phase_of (ys i) c = WantsLock req \<and> Leaked (ys i) = 0"
  proof (induction i)
    case 0
    then show ?case using waits_for_everD(2-4) [OF w] by simp
  next
    case (Suc i)
    show ?case
      using w_beh [OF w]
    proof (cases rule: step_at [where i = i])
      case (step env ev)
      have ww: "writer_waiting (ys i)" using wants_write_waiting [of "ys i" c] Suc by simp
      have "c \<le> clientIDCounter (Srv (ys i))" using locks_okD(2) [of "ys i" c] Suc by simp
      moreover have "ev \<noteq> LockGranted c" using w_never [OF w, of i] step(2) by blast
      ultimately have "phase_of (ys (Suc i)) c = WantsLock req \<and> Leaked (ys (Suc i)) = Leaked (ys i)"
        using wants_stays [OF step(1)] leak_new [OF step(1) ww] Suc by blast
      with locks_ok_step [OF _ step(1)] Suc show ?thesis by simp
    qed (use Suc in simp)
  qed
  then show ?thesis using wants_write_waiting [of "ys i" c] by simp
qed

lemma readers_shrink:
  assumes w: "waits_for_ever ys evs c req" and "i \<le> j" and "is_blocked (phase_of (ys j) d)"
  shows "is_blocked (phase_of (ys i) d)"
proof -
  have "is_blocked (phase_of (ys k) d)" if "is_blocked (phase_of (ys (Suc k)) d)" for k
    using w_beh [OF w]
  proof (cases rule: step_at [where i = k])
    case (step env ev)
    from reader_new [OF step(1) _ that] waiting_invariants [OF w, of k] show ?thesis by blast
  qed (use that in simp)
  with assms(2,3) show ?thesis by (induction j rule: dec_induct) auto
qed

lemma reader_leaves:
  assumes w: "waits_for_ever ys evs c req"
  shows "\<exists>j \<ge> i. \<not> is_blocked (phase_of (ys j) d)"
proof (rule ccontr)
  assume "\<not> ?thesis"
  then have b: "\<And>j. i \<le> j \<Longrightarrow> is_blocked (phase_of (ys j) d)" by blast
  then have "\<forall>j \<ge> i. enabled (Expire d) (ys j)" using expire_enabled w_alive [OF w] w_timed [OF w] by blast
  then obtain j where j: "i \<le> j" "taken evs (Expire d) j" using w_timers [OF w] unfolding weakly_fair_def by blast
  show False
    using w_beh [OF w]
  proof (cases rule: step_at [where i = j])
    case (step env ev)
    then have "sys_step env (Expire d) (ys j) = Some (ys (Suc j))" using j(2) by blast
    from expire_unblocks [OF this b [OF j(1)] w_alive [OF w]] b [of "Suc j"] j(1) show False by simp
  qed (use j in blast)
qed

lemma readers_gone:
  assumes w: "waits_for_ever ys evs c req"
  shows "\<exists>j. \<forall>k \<ge> j. \<forall>d. \<not> is_blocked (phase_of (ys k) d)"
proof -
  let ?B = "\<lambda>i. {d. is_blocked (phase_of (ys i) d)}"
  have "\<exists>j \<ge> i. ?B j = {}" for i
  proof (induction "card (?B i)" arbitrary: i rule: less_induct)
    case less
    show ?case
    proof (cases "?B i = {}")
      case False
      then obtain d where d: "is_blocked (phase_of (ys i) d)" by blast
      obtain j where j: "i \<le> j" "\<not> is_blocked (phase_of (ys j) d)" using reader_leaves [OF w] by blast
      have "?B j \<subset> ?B i" using readers_shrink [OF w j(1)] j(2) d by blast
      then have "card (?B j) < card (?B i)" by (intro psubset_card_mono finite_phases) simp_all
      from less [OF this] j(1) show ?thesis by (meson order_trans)
    qed blast
  qed
  then obtain j where "?B j = {}" by blast
  then show ?thesis using readers_shrink [OF w] by blast
qed

lemma holder_moves_on:
  assumes w: "waits_for_ever ys evs c req" and h: "holds_write (phase_of (ys i) d)"
  obtains j where "i \<le> j" and "\<forall>e. \<not> holds_write (phase_of (ys j) e)"
  | j where "i \<le> j" and "holds_write (phase_of (ys j) d)" and "left_to_do (phase_of (ys j) d) < left_to_do (phase_of (ys i) d)"
proof -
  let ?p = "phase_of (ys i) d"
  have locks: "locks_ok (ys j)" for j using waiting_invariants [OF w] by blast
  have "\<exists>j \<ge> i. phase_of (ys j) d = ?p \<and> phase_of (ys (Suc j)) d \<noteq> ?p"
  proof (rule ccontr)
    assume no: "\<not> ?thesis"
    have same: "phase_of (ys j) d = ?p" if "i \<le> j" for j
      using that by (induction j rule: dec_induct) (use no in auto)
    consider x q rs aof where "?p = Executing x q rs aof" | x q rs aof wr r u t where "?p = ExecBlocked x q rs aof wr r u t"
      using h by (cases rule: holds_writeE)
    then obtain ev where ev: "ev = ExecNext d \<or> ev = Expire d" and en: "\<forall>j \<ge> i. enabled ev (ys j)"
      using exec_next_enabled [OF w_alive [OF w]] expire_enabled [OF w_alive [OF w] w_timed [OF w]] same by metis
    obtain j where j: "i \<le> j" "taken evs ev j"
      using en ev w_timers [OF w] w_goes_on [OF w] unfolding weakly_fair_def by blast
    show False
      using w_beh [OF w]
    proof (cases rule: step_at [where i = j])
      case (step env ev')
      then have st: "sys_step env ev (ys j) = Some (ys (Suc j))" using j(2) by blast
      have "holds_write (phase_of (ys j) d)" using h same [OF j(1)] by simp
      from holder_moves [OF locks st this w_alive [OF w]] ev same [OF j(1)] same [of "Suc j"] j(1) h show False by auto
    qed (use j in blast)
  qed
  then obtain j where j: "i \<le> j" "phase_of (ys j) d = ?p" "phase_of (ys (Suc j)) d \<noteq> ?p" by blast
  show thesis
    using w_beh [OF w]
  proof (cases rule: step_at [where i = j])
    case stutter
    with j show thesis by simp
  next
    case (step env ev)
    have h': "holds_write (phase_of (ys j) d)" using h j(2) by simp
    from holder_moves [OF locks step(1) h' w_alive [OF w]] j others_hold [OF locks step(1) h'] that [of "Suc j"]
    show thesis by (metis le_Suc_eq)
  qed
qed

lemma writer_leaves:
  assumes w: "waits_for_ever ys evs c req"
  shows "holds_write (phase_of (ys i) d) \<Longrightarrow> \<exists>j \<ge> i. \<forall>e. \<not> holds_write (phase_of (ys j) e)"
proof (induction "left_to_do (phase_of (ys i) d)" arbitrary: i rule: less_induct)
  case less
  from w less.prems show ?case
  proof (cases rule: holder_moves_on)
    case (2 j)
    from less.hyps [OF 2(3,2)] 2(1) show ?thesis by (meson order_trans)
  qed blast
qed

lemma granted_again_and_again:
  assumes w: "waits_for_ever ys evs c req"
  shows "\<not> strongly_fair ys evs (LockGranted c)"
proof -
  obtain i where i: "\<And>k d. i \<le> k \<Longrightarrow> \<not> is_blocked (phase_of (ys k) d)" using readers_gone [OF w] by blast
  have "\<exists>j \<ge> k. enabled (LockGranted c) (ys j)" if "i \<le> k" for k
  proof -
    obtain j where j: "k \<le> j" "\<forall>e. \<not> holds_write (phase_of (ys j) e)"
      using writer_leaves [OF w, of k] by (cases "\<exists>d. holds_write (phase_of (ys k) d)") blast+
    note inv = waiting_invariants [OF w, of j]
    have "lock_free (ys j)" using lock_free_iff [OF locks_okD(1)] inv i [of j] j that by simp
    with grant_enabled [OF w_alive [OF w] _ this] inv j(1) show ?thesis by blast
  qed
  with w_never [OF w] show ?thesis unfolding strongly_fair_def by blast
qed

subsection \<open>The invariant of the system\<close>

text \<open>Queued requests wait in a session until their \<^verbatim>\<open>EXEC\<close>; as long as no client sends a \<^verbatim>\<open>ZADD\<close> that the store does not
  handle (a member named twice, a NaN score), none is queued either.\<close>

definition quiet :: "Server \<Rightarrow> Server \<Rightarrow> bool" where
  "quiet s s' \<longleftrightarrow> (\<forall>c. set (CommandQueue (client s' c)) \<subseteq> set (CommandQueue (client s c)))"

lemma quiet_refl [simp]: "quiet s s" by (simp add: quiet_def)

lemma quiet_trans: "quiet s s' \<Longrightarrow> quiet s' s'' \<Longrightarrow> quiet s s''" by (auto simp: quiet_def)

lemma quiet_same: "client s' = client s \<Longrightarrow> quiet s s'" by (simp add: quiet_def)

lemma client_more [simp]:
  "client (CloseConnection c s) = client s" "client (s\<lparr>subscribersMetaData := m\<rparr>) = client s" "client (s\<lparr>FS := f\<rparr>) = client s"
  "client (s\<lparr>Node := n\<rparr>) = client s"
  by (simp_all add: fun_eq_iff client_def CloseConnection_def)

lemma quiet_touch: "quiet s (touch key s)"
  by (auto simp: quiet_def client_touch)

lemma quiet_watch: "quiet s (fold (watch_key c) ks s)"
proof (induction ks arbitrary: s)
  case (Cons k ks)
  have "quiet s (watch_key c k s)" by (auto simp: quiet_def watch_key_def Let_def)
  then show ?case using Cons.IH [of "watch_key c k s"] by (simp add: quiet_trans)
qed simp

lemma client_publish_all: "publish_all env b is s = (r, s') \<Longrightarrow> client s' = client s"
proof (induction env b "is" s rule: publish_all.induct)
  case (2 env payload i "is" s)
  obtain ok s1 where w: "conn_write env (Conn (client s i)) payload s = (ok, s1)" by fastforce
  then have "client s1 = client s" using client_conn_write [of env "Conn (client s i)" payload s] by simp
  with 2 w show ?case by (cases ok) auto
qed simp

lemma quiet_sessions:
  "quiet s (snd (HandleUnwatch env req c s))" "quiet s (snd (HandleWatch env req c s))" "quiet s (snd (HandleDiscard env req c s))"
  "quiet s (snd (HandleMulti env req c s))" "quiet s (snd (HandleSubscribe env req c s))"
  "quiet s (snd (HandleUnsubscribe env req c s))" "quiet s (snd (HandlePublish env req c s))"
  "quiet s (snd (HandleGet env req c s))"
  by (auto simp: HandleUnwatch_def HandleWatch_def HandleDiscard_def HandleMulti_def HandleSubscribe_def HandleUnsubscribe_def
      HandlePublish_def HandleGet_def Let_def quiet_watch quiet_def [of s "UnwatchAll env c s"]
      quiet_def [of s "ResetTransactionState env c s"] quiet_def [of s "set_client c x s'" for x s']
      intro: quiet_same dest: client_publish_all split: list.split option.split prod.split go_result.split)

lemma quiet_store_handler: "store_handler H \<Longrightarrow> quiet s (snd (H env req c s))"
proof (rule quiet_same)
  assume "store_handler H"
  then have "snd (H env req c s) = set_DB (DB (snd (H env req c s))) s" unfolding store_handler_def by blast
  then show "client (snd (H env req c s)) = client s" by (metis client_set_DB)
qed

lemma quiet_handler:
  assumes "CommandHandlers name = Some cmd"
  shows "quiet s (snd (Handler cmd env req c s))"
proof (rule table_rows [OF assms])
  fix row assume "row \<in> set command_table"
  then show "quiet s (snd (Handler (snd row) env req c s))"
    unfolding command_table_def set_simps insert_iff empty_iff
    by (elim disjE) (simp_all add: reads_state reads_geosearch quiet_sessions quiet_store_handler store_handlers)
qed

definition srv_ok :: "golib \<Rightarrow> Server \<Rightarrow> bool" where
  "srv_ok lib s \<longleftrightarrow> store_ok (DB s) \<and> (\<forall>c. \<forall>r \<in> set (CommandQueue (client s c)). clean_request lib r)"

lemma srv_okI: "srv_ok lib s \<Longrightarrow> quiet s s' \<Longrightarrow> store_ok (DB s') \<Longrightarrow> srv_ok lib s'"
  by (auto simp: srv_ok_def quiet_def)

lemma srv_ok_same: "srv_ok lib s \<Longrightarrow> DB s' = DB s \<Longrightarrow> client s' = client s \<Longrightarrow> srv_ok lib s'"
  by (simp add: srv_ok_def)

lemma srv_ok_set_DB: "srv_ok lib s \<Longrightarrow> store_ok d \<Longrightarrow> srv_ok lib (set_DB d s)"
  by (simp add: srv_ok_def)

lemma srv_ok_touch: "srv_ok lib s \<Longrightarrow> srv_ok lib (touch key s)"
  by (rule srv_okI [OF _ quiet_touch]) (simp_all add: srv_ok_def)

lemma srv_ok_Execute_finish: "srv_ok lib s \<Longrightarrow> srv_ok lib (snd (Execute_finish w req b s))"
  by (simp add: Execute_finish_def srv_ok_touch split: list.split)

lemma srv_ok_Execute_start:
  assumes "srv_ok lib s" and "clean_request lib req" and "Lib env = lib"
  shows "srv_ok lib (snd (snd (Execute_start env req c s)))"
proof (cases rule: Execute_start_cases [of req c s env])
  case queued
  then show ?thesis using assms by (auto simp: srv_ok_def enqueue_def)
next
  case (run cmd)
  have "srv_ok lib (snd (Handler cmd env req c s))"
    using handler_keeps_store [OF run(2,3)] assms quiet_handler [OF run(2)] by (intro srv_okI [OF assms(1)]) (simp_all add: srv_ok_def)
  then show ?thesis using run(4) by simp
qed (use assms in simp)

lemma Execute_finish_ok: "Execute_finish w req b s = (r, s') \<Longrightarrow> srv_ok lib s \<Longrightarrow> srv_ok lib s'"
  using srv_ok_Execute_finish [of lib s w req b] by simp

lemma srv_ok_timeout: "srv_ok lib s \<Longrightarrow> resolve_timeout t (DB s) w = Some (d, db) \<Longrightarrow> srv_ok lib (set_DB db s)"
  using store_ok_timeout by (auto simp: srv_ok_def)

lemma srv_ok_Execute:
  assumes "srv_ok lib s" and "clean_request lib req" and "Lib env = lib"
  shows "srv_ok lib (snd (Execute env req c s))"
  using srv_ok_Execute_start [OF assms, of c]
  by (auto simp: Execute_def split: prod.splits go_result.splits reply.splits option.splits
      intro: srv_ok_Execute_finish srv_ok_Execute_finish [OF srv_ok_timeout])

lemma srv_ok_exec_queue:
  assumes "srv_ok lib s" and "\<forall>r \<in> set q. clean_request lib r" and "Lib env = lib"
  shows "srv_ok lib (snd (exec_queue env c q rs aof s))"
  using assms(1,2)
proof (induction q arbitrary: rs aof s)
  case (Cons r q)
  obtain x s' where x: "ExecuteInTransaction env r c s = (x, s')" by fastforce
  then have "srv_ok lib s'"
    using srv_ok_Execute [OF Cons.prems(1) _ assms(3), of r c] Cons.prems(2)
    by (auto simp: ExecuteInTransaction_def split: prod.splits go_result.splits)
  with Cons x show ?case by (auto split: go_result.split)
qed simp

lemma srv_ok_Reset: "srv_ok lib s \<Longrightarrow> srv_ok lib (ResetTransactionState env c s)"
  by (auto simp: srv_ok_def)

lemma write_all_client [simp]: "client (write_all env cs b s) = client s"
  by (induction cs arbitrary: s) simp_all

lemma srv_ok_propagate: "propagate env req s = (r, s') \<Longrightarrow> srv_ok lib s \<Longrightarrow> srv_ok lib s'"
  by (rule srv_ok_same, assumption)
    (auto simp: propagate_def aof_append_def replicate_request_def write_all_DB
      split: option.splits if_splits prod.splits go_result.splits)

lemma srv_ok_exec_body:
  assumes "srv_ok lib s" and "Lib env = lib"
  shows "srv_ok lib (snd (exec_body env req c s))"
proof -
  have "srv_ok lib (snd (exec_queue env c (CommandQueue (client s c)) [] [] (ResetTransactionState env c s)))"
    using assms by (intro srv_ok_exec_queue srv_ok_Reset) (simp_all add: srv_ok_def)
  moreover have "srv_ok lib s2" if "aof_append env a s1 = (r, s2)" "srv_ok lib s1" for a s1 r s2
    using that by (auto simp: aof_append_def srv_ok_def split: option.splits)
  moreover have "srv_ok lib (replicate_request env req s1)" if "srv_ok lib s1" for s1
    using that by (simp add: srv_ok_def replicate_request_def write_all_DB)
  ultimately show ?thesis
    by (auto simp: exec_body_def Let_def split: prod.splits go_result.splits option.splits if_splits)
qed

lemma answer_ok: "answer env c b s = (p, s') \<Longrightarrow> srv_ok lib s \<Longrightarrow> srv_ok lib s'"
  by (rule srv_ok_same, assumption) (auto simp: answer_def conn_write_def CloseConnection_def client_def fun_eq_iff split: if_splits)

lemma srv_ok_conn [simp]:
  "srv_ok lib (snd (conn_write env conn b s)) = srv_ok lib s" "srv_ok lib (CloseConnection c s) = srv_ok lib s"
  by (simp_all add: srv_ok_def)

lemma on_parse_error_ok: "on_parse_error env e c s = (p, s') \<Longrightarrow> srv_ok lib s \<Longrightarrow> srv_ok lib s'"
  by (auto simp: on_parse_error_def dest: answer_ok split: option.splits)

lemma exec_check_ok: "exec_check env req c s = (p, s') \<Longrightarrow> srv_ok lib s \<Longrightarrow> srv_ok lib s'"
  by (auto simp: exec_check_def intro: answer_ok srv_ok_Reset split: if_splits)

lemma psync_ok: "srv_ok lib s \<Longrightarrow> srv_ok lib (psync_reply env c b s)"
  by (auto simp: srv_ok_def psync_reply_def Let_def AddReplica_def DeleteReplica_def conn_write_def client_def
      split: option.splits)

lemma srv_ok_exec_end: "exec_end env xreq rs aof s = (r, s') \<Longrightarrow> srv_ok lib s \<Longrightarrow> srv_ok lib s'"
  by (rule srv_ok_same, assumption)
    (auto simp: exec_end_def aof_append_def replicate_request_def write_all_DB
      split: option.splits if_splits prod.splits go_result.splits)

text \<open>What a phase and the state of the link hold: blocked requests name a key, and the rest of a queue is as clean as the queue
  was.\<close>

definition phase_ok :: "golib \<Rightarrow> phase \<Rightarrow> bool" where
  "phase_ok lib p \<longleftrightarrow> (case p of
       Blocked wr r w t \<Rightarrow> Arguments r \<noteq> []
     | Executing x q rs aof \<Rightarrow> \<forall>r \<in> set q. clean_request lib r
     | ExecBlocked x q rs aof wr r w t \<Rightarrow> Arguments r \<noteq> [] \<and> (\<forall>r \<in> set q. clean_request lib r)
     | _ \<Rightarrow> True)"

definition link_ok :: "link \<Rightarrow> bool" where
  "link_ok l \<longleftrightarrow> (case l of LinkBlocked conn c r wr q w t \<Rightarrow> Arguments q \<noteq> [] | _ \<Rightarrow> True)"

lemma phase_ok_simps [simp]:
  "phase_ok lib Ready" "phase_ok lib Closed" "phase_ok lib (Checked req)" "phase_ok lib (WantsLock req)" "phase_ok lib (Finishing req b)"
  "phase_ok lib (Replying b)" "phase_ok lib (Blocked wr r w t) \<longleftrightarrow> Arguments r \<noteq> []"
  "phase_ok lib (Executing x q rs aof) \<longleftrightarrow> (\<forall>r \<in> set q. clean_request lib r)"
  "phase_ok lib (exec_collect x q rs aof r b s) \<longleftrightarrow> (\<forall>r \<in> set q. clean_request lib r)"
  "phase_ok lib (ExecBlocked x q rs aof wr r w t) \<longleftrightarrow> Arguments r \<noteq> [] \<and> (\<forall>r \<in> set q. clean_request lib r)"
  "link_ok NoLink" "link_ok Dialing" "link_ok (Loading conn rd)" "link_ok (Following conn c rd)"
  "link_ok (LinkBlocked conn c rd wr r w t) \<longleftrightarrow> Arguments r \<noteq> []"
  by (simp_all add: phase_ok_def link_ok_def exec_collect_def)

definition sys_ok :: "golib \<Rightarrow> Sys \<Rightarrow> bool" where
  "sys_ok lib y \<longleftrightarrow> srv_ok lib (Srv y) \<and> locks_ok y \<and> (\<forall>d. phase_ok lib (phase_of y d)) \<and> link_ok (Link y)"

text \<open>A step in which no client and no master sends a \<^verbatim>\<open>ZADD\<close> that names a member twice or gives a NaN score.\<close>

definition clean_reader :: "golib \<Rightarrow> reader \<Rightarrow> bool" where
  "clean_reader lib r \<longleftrightarrow> (case fst (ParseRequest lib r) of Ret req \<Rightarrow> clean_request lib req | _ \<Rightarrow> True)"

definition clean_event :: "golib \<Rightarrow> Sys \<Rightarrow> event \<Rightarrow> bool" where
  "clean_event lib y ev \<longleftrightarrow> (case ev of
     Recv c \<Rightarrow> (case map_of (Inbox y) c of None \<Rightarrow> True | Some r \<Rightarrow> clean_reader lib r)
   | LinkNext \<Rightarrow> (case Link y of Following conn c r \<Rightarrow> clean_reader lib r | _ \<Rightarrow> True)
   | _ \<Rightarrow> True)"

inductive clean_step :: "golib \<Rightarrow> Sys \<Rightarrow> Sys \<Rightarrow> bool" where
  "sys_step env ev y = Some y' \<Longrightarrow> Lib env = lib \<Longrightarrow> clean_event lib y ev \<Longrightarrow> clean_step lib y y'"

inductive_cases clean_stepE: "clean_step lib y y'"

lemma Execute_start_ok:
  assumes "Execute_start env req c s = (w, x, s1)" and "srv_ok lib s" and "clean_request lib req" and "Lib env = lib"
  shows "srv_ok lib s1 \<and> (\<forall>u t. x = Ret (Wait u t) \<longrightarrow> Arguments req \<noteq> [])"
proof -
  have "Arguments req \<noteq> []" if "x = Ret (Wait u t)" for u t
    using assms(1) that only_BLPop_waits [of req _ env c s u t s1]
    by (cases rule: Execute_start_cases [of req c s env]) fastforce+
  with srv_ok_Execute_start [OF assms(2-4), of c] assms(1) show ?thesis by auto
qed

lemma woken_ok: "srv_ok lib s \<Longrightarrow> store_ok db \<Longrightarrow> srv_ok lib (snd (woken wr req d db s))"
  by (simp add: woken_def srv_ok_Execute_finish srv_ok_set_DB)

lemma woken_store:
  assumes "store_ok d" and "ev = e1 \<and> resolve_receive d w = Some (x, db) \<or> ev = e2 \<and> resolve_timeout t d w = Some (x, db)"
  shows "store_ok db"
  using assms store_ok_receive store_ok_timeout by blast

lemma run_command_ok:
  assumes "srv_ok lib s" and "clean_request lib req" and "Lib env = lib" and "run_command env req c s = (r, leak, s')"
  shows "srv_ok lib s' \<and> (\<forall>p. r = Ret p \<longrightarrow> phase_ok lib p)"
proof -
  obtain w x s1 where x: "Execute_start env req c s = (w, x, s1)" by (metis prod_cases3)
  from Execute_start_ok [OF this assms(1-3)] assms(4) x show ?thesis
    by (auto simp: run_command_def dest: Execute_finish_ok split: go_result.splits reply.splits prod.splits bool.splits)
      (metis (no_types, lifting) srv_ok_conn(1) snd_conv)+
qed

lemma exec_next_ok:
  assumes "srv_ok lib s" and "\<forall>r \<in> set q. clean_request lib r" and "Lib env = lib" and "exec_next env xreq q rs aof c s = (r, s')"
  shows "srv_ok lib s' \<and> (\<forall>p. r = Ret p \<longrightarrow> phase_ok lib p)"
proof (cases q)
  case Nil
  with assms(4) have "exec_end env xreq rs aof s = (r, s')" by (simp add: exec_next_def)
  from srv_ok_exec_end [OF this assms(1)] exec_end_DB [OF this] show ?thesis by auto
next
  case (Cons req rest)
  obtain w x s1 where x: "Execute_start env req c s = (w, x, s1)" by (metis prod_cases3)
  from Execute_start_ok [OF this assms(1) _ assms(3)] assms(2,4) x Cons show ?thesis
    by (auto simp: exec_next_def go_on_def dest: Execute_finish_ok split: go_result.splits reply.splits prod.splits)
qed

lemma add_offset_ok [simp]: "srv_ok lib (add_offset n s) = srv_ok lib s"
  by (simp add: add_offset_def srv_ok_def)

lemma follow_ok:
  assumes "follow env conn c rd req x = (l, s')" and "srv_ok lib (snd x)"
  shows "srv_ok lib s' \<and> (\<forall>k. l = Ret k \<longrightarrow> link_ok k)"
  using assms by (auto simp: follow_def split: prod.splits go_result.splits)

lemma link_next_ok:
  assumes "srv_ok lib s" and "clean_reader lib rd" and "Lib env = lib" and "link_next env conn c rd s = (l, s')"
  shows "srv_ok lib s' \<and> (\<forall>k. l = Ret k \<longrightarrow> link_ok k)"
proof (cases "fst (ParseRequest lib rd)")
  case (Ret req)
  then obtain r1 where p: "ParseRequest (Lib env) rd = (Ret req, r1)" using assms(3) by (metis prod.collapse)
  have cl: "clean_request lib req" using assms(2) Ret by (simp add: clean_reader_def)
  obtain w x s1 where x: "Execute_start env req c s = (w, x, s1)" by (metis prod_cases3)
  note start = Execute_start_ok [OF x assms(1) cl assms(3)]
  show ?thesis
  proof (cases "is_getack (Lib env) req")
    case True
    then show ?thesis using assms(1,4) p
      by (auto simp: link_next_def split: prod.splits bool.splits) (metis snd_conv srv_ok_conn(1))+
  next
    case False
    have fin: "srv_ok lib s' \<and> (\<forall>k. l = Ret k \<longrightarrow> link_ok k)"
      if "follow env conn c r1 req (Execute_finish w req b s1) = (l, s')" for b
      using follow_ok [OF that] srv_ok_Execute_finish start by blast
    show ?thesis using False assms(4) p x start fin
      by (auto simp: link_next_def split: prod.splits go_result.splits reply.splits)
  qed
qed (use assms in \<open>auto simp: link_next_def split: prod.splits go_result.splits if_splits\<close>)

lemma sys_ok_set_phase:
  assumes "sys_ok lib y" and "locks_ok (set_phase c p s y)" and "srv_ok lib s" and "phase_ok lib p"
  shows "sys_ok lib (set_phase c p s y)"
  using assms by (auto simp: sys_ok_def)

lemma sys_ok_settle:
  assumes "sys_ok lib y" and "locks_ok (settle c (r, s) y)" and "srv_ok lib s" and "\<And>p. r = Ret p \<Longrightarrow> phase_ok lib p"
  shows "sys_ok lib (settle c (r, s) y)"
  using assms by (auto simp: sys_ok_def split: go_result.split)

lemma sys_ok_settle_link:
  assumes "sys_ok lib y" and "locks_ok (settle_link (r, s) y)" and "srv_ok lib s" and "\<And>l. r = Ret l \<Longrightarrow> link_ok l"
  shows "sys_ok lib (settle_link (r, s) y)"
  using assms by (cases r) (auto simp: sys_ok_def settle_link_def)

lemma recv_ok:
  assumes "sys_ok lib y" and "recv env c y = Some y'" and "Lib env = lib" and "clean_event lib y (Recv c)"
  shows "srv_ok lib (Srv y') \<and> (\<forall>d. phase_ok lib (phase_of y' d)) \<and> Link y' = Link y"
proof -
  have s: "srv_ok lib (Srv y)" and ph: "\<And>d. phase_ok lib (phase_of y d)" using assms(1) by (simp_all add: sys_ok_def)
  obtain r where r: "map_of (Inbox y) c = Some r" using assms(2) by (cases "map_of (Inbox y) c") (auto simp: recv_def)
  obtain x r' where x: "ParseRequest lib r = (x, r')" by fastforce
  note q = on_parse_error_DB on_parse_error_ok [OF _ s] answer_DB answer_ok [OF _ s] exec_check_DB exec_check_ok [OF _ s]
  show ?thesis
  proof (cases x)
    case (Err e)
    obtain p s' where p: "on_parse_error env e c (Srv y) = (p, s')" by fastforce
    with assms(2,3) r x Err have "y' = set_phase c p s' (y\<lparr>Inbox := gm_set c r' (Inbox y)\<rparr>)" by (simp add: recv_def)
    with on_parse_error_DB [OF p] on_parse_error_ok [OF p s] ph show ?thesis by auto
  next
    case Panic
    with assms(1-3) r x s ph show ?thesis by (auto simp: recv_def)
  next
    case (Ret req)
    have cl: "clean_request lib req" using assms(4) r x Ret by (simp add: clean_event_def clean_reader_def)
    have pr: "ParseRequest (Lib env) r = (Ret req, r')" using x Ret assms(3) by simp
    note runs = run_command_ok [OF s cl assms(3)]
    from assms(2) r pr ph show ?thesis
      by (auto simp: recv_def Let_def dest: runs answer_DB exec_check_DB answer_ok [OF _ s] exec_check_ok [OF _ s]
          split: prod.splits if_splits go_result.splits)
  qed
qed

lemma clean_step_ok:
  assumes ok: "sys_ok lib y" and st: "sys_step env ev y = Some y'" and lib: "Lib env = lib" and clean: "clean_event lib y ev"
  shows "sys_ok lib y'"
proof -
  have s: "srv_ok lib (Srv y)" and d: "store_ok (DB (Srv y))" and l: "locks_ok y"
    and ph: "\<And>d. phase_ok lib (phase_of y d)" and lk: "link_ok (Link y)"
    using ok by (simp_all add: sys_ok_def srv_ok_def)
  have l': "locks_ok y'" by (rule locks_ok_step [OF l st])
  from st show ?thesis
  proof (cases rule: step_cases)
    case (accept conn r s')
    from accept(2) s have "srv_ok lib s'"
      by (auto simp: AddClient_def new_client_def nextClientID_def Let_def srv_ok_def client_def set_client_def split: if_splits)
    then show ?thesis using accept l' ok by (auto simp: sys_ok_def phase_of_def)
  next
    case (recv c)
    with recv_ok [OF ok recv(3) lib] clean l' lk show ?thesis by (simp add: sys_ok_def)
  next
    case (calls c req)
    with sys_ok_set_phase [OF ok _ s] l' show ?thesis by simp
  next
    case (granted c req)
    have "\<forall>r \<in> set (CommandQueue (client (Srv y) c)). clean_request lib r" using s by (simp add: srv_ok_def)
    with sys_ok_set_phase [OF ok _ srv_ok_Reset [OF s]] l' granted show ?thesis by simp
  next
    case (exec c req q rs aof r s')
    have "\<forall>r \<in> set q. clean_request lib r" using ph [of c] exec(2) by simp
    from exec_next_ok [OF s this lib exec(3)] sys_ok_settle [OF ok] l' exec(4) show ?thesis by blast
  next
    case (woken c wr req w t e db)
    note w = woken_ok [OF s woken_store [OF d woken(3)], of wr req e]
    show ?thesis using ok l' w unfolding woken(4)
      by (auto simp: sys_ok_def dest!: go_on_phase split: go_result.split)
  next
    case (exec_woken c xreq rest rs aof wr req w t e db)
    note w = woken_ok [OF s woken_store [OF d exec_woken(3)], of wr req e]
    have "\<forall>r \<in> set rest. clean_request lib r" using ph [of c] exec_woken(2) by simp
    then show ?thesis using ok l' w unfolding exec_woken(4)
      by (auto simp: sys_ok_def dest!: go_on_phase split: go_result.split)
  next
    case (finish c req b r s')
    have "srv_ok lib s'"
      using finish(3) s by (auto simp: finish_command_def intro: psync_ok answer_ok dest: srv_ok_propagate
          split: prod.splits go_result.splits if_splits)
    moreover have "phase_ok lib p" if "r = Ret p" for p using finish_command_DB [OF finish(3)] that by auto
    ultimately show ?thesis using sys_ok_settle [OF ok] l' finish(4) by blast
  next
    case (reply c b p s')
    with answer_DB [OF reply(3)] answer_ok [OF reply(3) s] sys_ok_set_phase [OF ok, of c p s'] l' show ?thesis by auto
  next
    case (sync dial conn r k s')
    have "srv_ok lib s'" using link_sync_pair [OF sync(3)] s by (intro srv_ok_same [OF s]) simp_all
    moreover have "link_ok k'" if "k = Ret k'" for k'
      using sync(3) that by (auto simp: link_sync_def split: prod.splits go_result.splits)
    ultimately show ?thesis using sys_ok_settle_link [OF ok] l' sync(4) by blast
  next
    case (loaded conn r k s')
    have "srv_ok lib s'"
      using loaded(4) s by (auto simp: link_ready_def new_client_def nextClientID_def Let_def srv_ok_def client_def set_client_def split: if_splits)
    then show ?thesis using loaded l' ok link_ready_pair [OF loaded(4)] by (auto simp: sys_ok_def)
  next
    case (link conn c r k s')
    have "clean_reader lib r" using clean link(1,2) by (simp add: clean_event_def)
    from link_next_ok [OF s this lib link(3)] sys_ok_settle_link [OF ok] l' link(4) show ?thesis by blast
  next
    case (link_woken conn c r wr req w t e db)
    note w = woken_ok [OF s woken_store [OF d link_woken(3)], of wr req e]
    obtain k s' where k: "follow env conn c r req (woken wr req e db (Srv y)) = (k, s')" by fastforce
    with follow_ok [OF k w] sys_ok_settle_link [OF ok, of k s'] l' link_woken(4) show ?thesis by simp
  qed
qed

interpretation system: preserved "clean_step lib" "sys_ok lib" for lib
  by unfold_locales (auto elim!: clean_stepE intro: clean_step_ok)

subsection \<open>A transaction step by step\<close>

text \<open>When nobody else acts, the steps of a transaction come to what \<open>exec_body\<close> computes at one go: its queue is run, in order, and
  its replies are collected.\<close>

lemma run_append: "run (evs @ evs') y = Option.bind (run evs y) (run evs')"
  by (induction evs y rule: run.induct) (auto split: Option.bind_split)

definition exec_events :: "env \<Rightarrow> int \<Rightarrow> (env \<times> event) list \<Rightarrow> bool" where
  "exec_events env c evs \<longleftrightarrow> set evs \<subseteq> {(env, ExecNext c), (env, Expire c)}"

lemma set_phase_twice [simp]: "set_phase c p s (set_phase c p' s' y) = set_phase c p s y"
  by (simp add: set_phase_def)

lemma gm_set_same: "map_of m k = Some v \<Longrightarrow> gm_set k v m = m"
  by (rule update_triv)

lemma exec_one:
  assumes "phase_of y c = Executing x (req # q) rs aof" and "\<not> Crashed y" and "ExecuteInTransaction env req c (Srv y) = (Ret b, s)"
  shows "\<exists>evs. exec_events env c evs \<and> run evs y = Some (set_phase c (exec_collect x q rs aof req b s) s y)"
proof -
  obtain w r s1 where start: "Execute_start env req c (Srv y) = (w, r, s1)" by (metis prod_cases3)
  have next': "sys_step env (ExecNext c) y = Some (settle c (exec_next env x (req # q) rs aof c (Srv y)) y)"
    using assms(1,2) by (simp add: sys_step_def)
  consider (bytes) b' where "r = Ret (Bytes b')" | (wait) u t where "r = Ret (Wait u t)" | (err) e where "r = Err e" | (panic) "r = Panic"
    by (cases r; simp) (metis reply.exhaust)
  then show ?thesis
  proof cases
    case bytes
    then have "Execute_finish w req b' s1 = (Ret b, s)"
      using assms(3) start by (auto simp: ExecuteInTransaction_def Execute_def Execute_finish_def split: prod.splits go_result.splits list.splits if_splits)
    then have "sys_step env (ExecNext c) y = Some (set_phase c (exec_collect x q rs aof req b s) s y)"
      unfolding next' using start bytes by (simp add: exec_next_def go_on_def settle_def)
    then show ?thesis by (intro exI [of _ "[(env, ExecNext c)]"]) (simp add: exec_events_def)
  next
    case (wait u t)
    then obtain d db where d: "resolve_timeout t (DB s1) u = Some (d, db)" "Execute_finish w req (blpop_reply d) (set_DB db s1) = (Ret b, s)"
      using assms(3) start by (auto simp: ExecuteInTransaction_def Execute_def Execute_finish_def split: prod.splits go_result.splits option.splits list.splits if_splits)
    let ?y = "set_phase c (ExecBlocked x q rs aof w req u t) s1 y"
    have "sys_step env (ExecNext c) y = Some ?y"
      unfolding next' using start wait by (simp add: exec_next_def settle_def)
    moreover have "sys_step env (Expire c) ?y = Some (set_phase c (exec_collect x q rs aof req b s) s y)"
      using d assms(2) by (simp add: sys_step_def wake_def woken_def go_on_def settle_def)
    ultimately show ?thesis by (intro exI [of _ "[(env, ExecNext c), (env, Expire c)]"]) (simp add: exec_events_def)
  next
    case (err e)
    then have "s1 = s" "b = error_bytes e" using assms(3) start by (simp_all add: ExecuteInTransaction_def Execute_def)
    then have "sys_step env (ExecNext c) y = Some (set_phase c (exec_collect x q rs aof req b s) s y)"
      unfolding next' using start err by (simp add: exec_next_def settle_def)
    then show ?thesis by (intro exI [of _ "[(env, ExecNext c)]"]) (simp add: exec_events_def)
  next
    case panic
    then show ?thesis using assms(3) start by (simp add: ExecuteInTransaction_def Execute_def)
  qed
qed

lemma exec_all:
  assumes "phase_of y c = Executing x q rs aof" and "\<not> Crashed y" and "exec_queue env c q rs aof (Srv y) = (Ret (rs', aof'), s)"
  shows "\<exists>evs. exec_events env c evs \<and> run evs y = Some (set_phase c (Executing x [] rs' aof') s y)"
  using assms
proof (induction q arbitrary: rs aof y)
  case Nil
  then have "map_of (Phase y) c = Some (Executing x [] rs' aof')" "s = Srv y" by (auto simp: phase_of_def split: option.splits)
  then have "set_phase c (Executing x [] rs' aof') s y = y" by (simp add: set_phase_def gm_set_same)
  then show ?case by (intro exI [of _ "[]"]) (simp add: exec_events_def)
next
  case (Cons req q)
  then obtain b s1 where b: "ExecuteInTransaction env req c (Srv y) = (Ret b, s1)" by (auto split: prod.splits go_result.splits)
  obtain evs where evs: "exec_events env c evs" "run evs y = Some (set_phase c (exec_collect x q rs aof req b s1) s1 y)"
    using exec_one [OF Cons.prems(1,2) b] by blast
  let ?y = "set_phase c (exec_collect x q rs aof req b s1) s1 y"
  obtain aof1 where aof1: "phase_of ?y c = Executing x q (rs @ [b]) aof1" "exec_queue env c q (rs @ [b]) aof1 (Srv ?y) = (Ret (rs', aof'), s)"
    using Cons.prems(3) b by (auto simp: exec_collect_def)
  from Cons.IH [OF aof1(1) _ aof1(2)] Cons.prems(2)
  obtain evs' where "exec_events env c evs'" "run evs' ?y = Some (set_phase c (Executing x [] rs' aof') s y)" by auto
  with evs show ?case by (intro exI [of _ "evs @ evs'"]) (auto simp: run_append exec_events_def)
qed

subsection \<open>Scenarios\<close>

text \<open>A client that sends the given commands and then closes its side.\<close>

definition sends :: "string list list \<Rightarrow> reader" where
  "sends cmds = \<lparr>Pending = log_of cmds, AtEnd = EOF\<rparr>"

definition ev_at :: "event \<Rightarrow> env \<times> event" where
  "ev_at ev = (sample_env 1, ev)"

text \<open>Client 1 blocks for ever on an empty list; client 2 opens a transaction and wants to execute it.\<close>

definition deadlock_run :: "(env \<times> event) list" where
  "deadlock_run = map ev_at [Accept 1 (sends [[''BLPOP'', ''k'', ''0'']]), Accept 2 (sends [[''MULTI''], [''EXEC'']]),
     Recv 1, Recv 2, Finish 2, Recv 2, LockCall 2]"

text \<open>Client 1 sends an unknown command, and the error reply cannot be written; client 2 has opened a transaction and then wants
  to execute it.\<close>

definition leak_start :: "(env \<times> event) list" where
  "leak_start = map ev_at [Accept 1 (sends [[''FLUSHALL'']]), Accept 2 (sends [[''MULTI''], [''EXEC'']]), Recv 2, Finish 2]"

definition leak_rest :: "(env \<times> event) list" where
  "leak_rest = map ev_at [Recv 2, LockCall 2]"

definition broken_env :: env where
  "broken_env = (sample_env 1)\<lparr>ConnOk := (\<lambda>_. False)\<rparr>"

text \<open>Client 1 waits with a timeout of one second while client 2 wants to execute its transaction; then the timeout runs out, and
  client 2 gets the lock and executes its empty queue.\<close>

definition timed_run :: "(env \<times> event) list" where
  "timed_run = map ev_at [Accept 1 (sends [[''BLPOP'', ''k'', ''1'']]), Accept 2 (sends [[''MULTI''], [''EXEC'']]),
     Recv 1, Recv 2, Finish 2, Recv 2, LockCall 2]"

definition timed_rest :: "(env \<times> event) list" where
  "timed_rest = map ev_at [Expire 1, LockGranted 2, ExecNext 2]"

text \<open>Client 1 has watched the key and passed the check of its flag; client 2 is about to write the key.\<close>

definition race_run :: "(env \<times> event) list" where
  "race_run = map ev_at [Accept 1 (sends [[''WATCH'', ''k''], [''MULTI''], [''SET'', ''k'', ''mine''], [''EXEC'']]),
     Accept 2 (sends [[''SET'', ''k'', ''theirs'']]), Recv 1, Finish 1, Recv 1, Finish 1, Recv 1, Finish 1, Recv 1]"

definition holds_after :: "(env \<times> event) list \<Rightarrow> (Sys \<Rightarrow> bool) \<Rightarrow> bool" where
  "holds_after evs P = (case run evs (idle_system sample_server) of Some y \<Rightarrow> P y | None \<Rightarrow> False)"

lemma holds_afterE:
  assumes "holds_after evs P"
  obtains y where "run evs (idle_system sample_server) = Some y" and "P y"
  using assms by (auto simp: holds_after_def split: option.splits)

abbreviation exec_request :: Request where
  "exec_request \<equiv> \<lparr>Command = EXEC, Arguments = []\<rparr>"

abbreviation set_request :: "string \<Rightarrow> Request" where
  "set_request v \<equiv> \<lparr>Command = SET, Arguments = [''k'', v]\<rparr>"

lemma deadlock_scenario: "holds_after deadlock_run (\<lambda>y. deadlocked 1 2 y \<and> Link y = NoLink \<and> \<not> Crashed y)"
  by code_simp

lemma leak_scenario:
  "holds_after leak_start (\<lambda>y. phase_of y 1 = Ready \<and> \<not> Crashed y \<and> Mode (client (Srv y) 1) = ClientModeNormal \<and>
     \<not> writer_waiting y \<and> map_of (Inbox y) 1 = Some (sends [[''FLUSHALL'']]) \<and>
     (case snd (Execute_start broken_env \<lparr>Command = ''flushall'', Arguments = []\<rparr> 1 (Srv y)) of (Err e, s) \<Rightarrow> True | _ \<Rightarrow> False))"
  "holds_after (leak_start @ (broken_env, Recv 1) # leak_rest) (\<lambda>y. phase_of y 2 = WantsLock exec_request)"
  "fst (ParseRequest sample_lib (sends [[''FLUSHALL'']])) = Ret \<lparr>Command = ''flushall'', Arguments = []\<rparr>"
  by code_simp+

definition all_phases :: "(phase \<Rightarrow> bool) \<Rightarrow> Sys \<Rightarrow> bool" where
  "all_phases P y \<longleftrightarrow> list_all P (map snd (Phase y))"

lemma all_phases: "all_phases P y \<Longrightarrow> P Closed \<Longrightarrow> P (phase_of y d)"
  by (auto simp: all_phases_def list_all_iff phase_of_def split: option.split dest!: map_of_SomeD)

definition is_timed :: "phase \<Rightarrow> bool" where
  "is_timed p \<longleftrightarrow> (case p of Blocked wr r w t \<Rightarrow> \<not> f64_eq t f64_zero | ExecBlocked x q rs aof wr r w t \<Rightarrow> \<not> f64_eq t f64_zero | _ \<Rightarrow> True)"

definition at_rest :: "phase \<Rightarrow> bool" where
  "at_rest p \<longleftrightarrow> \<not> is_blocked p \<and> \<not> wants_write p"

lemma timed_scenario:
  "holds_after timed_run (\<lambda>y. Leaked y = 0 \<and> phase_of y 2 = WantsLock exec_request \<and> is_blocked (phase_of y 1) \<and> all_phases is_timed y)"
  "holds_after (timed_run @ take 1 timed_rest) (all_phases is_timed)"
  "holds_after (timed_run @ take 2 timed_rest) (all_phases is_timed)"
  "holds_after (timed_run @ timed_rest) (\<lambda>y. all_phases at_rest y \<and> \<not> Crashed y)"
  by code_simp+

lemma race_scenario:
  "holds_after race_run (\<lambda>y. phase_of y 1 = Checked exec_request \<and> \<not> Crashed y \<and> lock_free y \<and> \<not> writer_waiting y \<and>
     1 \<in> set (watchers_of (Srv y) ''k'') \<and> CommandQueue (client (Srv y) 1) = [set_request ''mine''] \<and>
     phase_of y 2 = Ready \<and> Mode (client (Srv y) 2) = ClientModeNormal \<and> map_of (Inbox y) 2 = Some (sends [[''SET'', ''k'', ''theirs'']]) \<and>
     fst (Execute (sample_env 1) (set_request ''theirs'') 2 (Srv y)) = Ret OK \<and>
     fst (exec_queue (sample_env 1) 1 [set_request ''mine''] [] []
       (ResetTransactionState (sample_env 1) 1 (snd (Execute (sample_env 1) (set_request ''theirs'') 2 (Srv y))))) = Ret ([OK], []))"
  "fst (ParseRequest sample_lib (sends [[''SET'', ''k'', ''theirs'']])) = Ret (set_request ''theirs'')"
  by code_simp+

lemma locks_ok_idle: "locks_ok (idle_system s)"
  by (simp add: locks_ok_def idle_system_def phase_of_def)

lemma locks_ok_run: "run evs (idle_system s) = Some y \<Longrightarrow> locks_ok y"
  by (rule locks.inv_steps [OF run_steps locks_ok_idle])

subsection \<open>Watched keys\<close>

lemma watch_registers:
  assumes "k \<in> set ks \<or> (\<exists>ws. map_of (watcherClients s) k = Some ws \<and> c \<in> set ws)"
  shows "\<exists>ws. map_of (watcherClients (fold (watch_key c) ks s)) k = Some ws \<and> c \<in> set ws"
  using assms
proof (induction ks arbitrary: s)
  case (Cons a ks)
  have "k \<in> set ks \<or> (\<exists>ws. map_of (watcherClients (watch_key c a s)) k = Some ws \<and> c \<in> set ws)"
    using Cons.prems by (auto simp: watch_key_def Let_def split: option.splits)
  from Cons.IH [OF this] show ?case by simp
qed simp

lemma clients_watch [simp]: "clients (fold (watch_key c) ks s) = clients s"
proof (induction ks arbitrary: s)
  case (Cons k ks)
  have "clients (watch_key c k s) = clients s" by (simp add: watch_key_def Let_def set_client_def)
  with Cons.IH [of "watch_key c k s"] show ?case by simp
qed simp

lemma watch_makes_watcher:
  assumes "HandleWatch env req c s = (Ret b, s1)" and "k \<in> set (Arguments req)" and "c \<in> set (clients s)"
  shows "c \<in> set (watchers_of s1 k)"
proof -
  have s1: "s1 = fold (watch_key c) (Arguments req) s" using assms(1) by (auto simp: HandleWatch_def split: if_splits)
  then obtain ws where "map_of (watcherClients s1) k = Some ws" "c \<in> set ws"
    using watch_registers [of k "Arguments req" s c] assms(2) by blast
  then show ?thesis using assms(3) s1 by (simp add: watchers_of_def)
qed

lemma enqueue_all_dirty:
  "DirtyCompareAndSet (client (fold (enqueue c) q s) c) = DirtyCompareAndSet (client s c) \<and>
   Mode (client (fold (enqueue c) q s) c) = Mode (client s c) \<and> DB (fold (enqueue c) q s) = DB s"
  by (induction q arbitrary: s) (simp_all add: enqueue_def)

lemma EXEC_no_entry: "CommandHandlers EXEC = None"
  by (simp add: CommandHandlers_def command_table_def command_names)

text \<open>A transaction that is granted its lock when nobody else acts.\<close>

lemma transaction_runs:
  assumes "phase_of y c = WantsLock req" and "Command req = EXEC" and "\<not> Crashed y" and "lock_free y"
    and "exec_queue env c (CommandQueue (client (Srv y) c)) [] [] (ResetTransactionState env c (Srv y)) = (Ret (rs, aof), s)"
  shows "\<exists>evs. exec_events env c evs \<and>
    run ((env, LockGranted c) # evs) y = Some (set_phase c (Replying (Array_Marshal rs)) s y)"
proof -
  let ?q = "CommandQueue (client (Srv y) c)"
  let ?y = "set_phase c (Executing req ?q [] []) (ResetTransactionState env c (Srv y)) y"
  have grant: "sys_step env (LockGranted c) y = Some ?y" using assms(1,3,4) by (simp add: sys_step_def exec_start_def)
  obtain evs where evs: "exec_events env c evs" "run evs ?y = Some (set_phase c (Executing req [] rs aof) s ?y)"
    using exec_all [of ?y c req ?q "[]" "[]" env rs aof s] assms(3,5) by auto
  let ?z = "set_phase c (Executing req [] rs aof) s y"
  have "sys_step env (ExecNext c) ?z = Some (set_phase c (Replying (Array_Marshal rs)) s y)"
    using assms(2,3) by (simp add: sys_step_def exec_next_def exec_end_def EXEC_no_entry settle_def)
  then have "run ((env, LockGranted c) # evs @ [(env, ExecNext c)]) y = Some (set_phase c (Replying (Array_Marshal rs)) s y)"
    using grant evs(2) by (simp add: run_append)
  moreover have "exec_events env c (evs @ [(env, ExecNext c)])" using evs(1) by (simp add: exec_events_def)
  ultimately show ?thesis by blast
qed

text \<open>A write command that a connection reads and runs at once.\<close>

lemma write_received:
  assumes "phase_of y d = Ready" and "\<not> Crashed y" and "\<not> writer_waiting y" and "map_of (Inbox y) d = Some r"
    and "ParseRequest (Lib env) r = (Ret req, r')" and "Mode (client (Srv y) d) = ClientModeNormal"
    and "CommandHandlers (Command req) = Some cmd" and "IsWrite cmd" and "Command req \<noteq> cmd_BLPOP" and "Arguments req = k # rest"
    and "Execute env req d (Srv y) = (Ret b, s)"
  shows "dispatched req d (Srv y) \<and>
    sys_step env (Recv d) y = Some (set_phase d (Finishing req b) s (y\<lparr>Inbox := gm_set d r' (Inbox y)\<rparr>))"
proof -
  obtain w x s0 where start: "Execute_start env req d (Srv y) = (w, x, s0)" by (metis prod_cases3)
  have mode: "ClientModeNormal \<noteq> ClientModeTransaction" "ClientModeNormal \<noteq> ClientModeSubscribed"
    by (simp_all add: ClientModeNormal_def ClientModeTransaction_def ClientModeSubscribed_def)
  have "Command req \<noteq> EXEC" using assms(7) EXEC_no_entry by auto
  have disp: "dispatched req d (Srv y)"
    using assms(11) start mode assms(6) by (cases rule: Execute_start_cases [of req d "Srv y" env])
      (auto simp: Execute_def queues_def)
  have nowait: "x \<noteq> Ret (Wait u t)" for u t
    using only_BLPop_waits [of req _ env d "Srv y" u t s0] start assms(9)
    by (cases rule: Execute_start_cases [of req d "Srv y" env]) fastforce+
  have "\<exists>b0. x = Ret (Bytes b0) \<and> Execute_finish w req b0 s0 = (Ret b, s)"
  proof (cases x)
    case (Ret v)
    then show ?thesis using nowait assms(11) start by (cases v) (auto simp: Execute_def)
  qed (use assms(11) start in \<open>simp_all add: Execute_def\<close>)
  then have "run_command env req d (Srv y) = (Ret (Finishing req b), 0, s)" using start by (auto simp: run_command_def)
  then have "sys_step env (Recv d) y = Some (set_phase d (Finishing req b) s (y\<lparr>Inbox := gm_set d r' (Inbox y), Leaked := Leaked y + 0\<rparr>))"
    using assms(1-6) mode \<open>Command req \<noteq> EXEC\<close> by (simp add: sys_step_def recv_def)
  then show ?thesis using disp by simp
qed

subsection \<open>Properties\<close>

text \<open>C1. From a new server on, in every state that the goroutines can reach in any interleaving, as long as no client
  and no master sends a \<^verbatim>\<open>ZADD\<close> that names a member twice or gives a NaN score (the steps of \<open>clean_step\<close>): the key space
  satisfies its invariant, queued requests included; at most one transaction holds \<^verbatim>\<open>executionMutex\<close>, and no reader beside it; and
  a blocked client, or a blocked link to the master, holds a request with a key. (A \<^verbatim>\<open>ZADD\<close> that names a member twice does break the
  invariant: \<open>zadd_fresh_key_duplicates_member\<close>.)\<close>

theorem reachable_states_are_consistent:
  assumes "store_ok st" and "(clean_step lib)\<^sup>*\<^sup>* (idle_system ((blank_server cfg fs st)\<lparr>Node := n\<rparr>)) y"
  shows "sys_ok lib y"
proof -
  have "sys_ok lib (idle_system ((blank_server cfg fs st)\<lparr>Node := n\<rparr>))"
    using assms(1) locks_ok_idle [of "(blank_server cfg fs st)\<lparr>Node := n\<rparr>"]
    by (simp add: sys_ok_def srv_ok_def idle_system_def blank_server_def client_def blank_client_def phase_of_def)
  with assms(2) show ?thesis by (rule system.inv_steps)
qed

theorem reachable_states_are_consistent_witness:
  "sys_ok sample_lib (the (sys_step (sample_env 1) (Accept 1 (sends [[''PING'']])) (idle_system sample_server)))"
proof -
  obtain y where y: "sys_step (sample_env 1) (Accept 1 (sends [[''PING'']])) (idle_system sample_server) = Some y"
    by (simp add: sys_step_def idle_system_def AddClient_def new_client_def nextClientID_def Let_def)
  then have "clean_step sample_lib (idle_system sample_server) y"
    by (rule clean_step.intros) (simp_all add: sample_env_def clean_event_def)
  moreover have "sample_server = (blank_server (GetDefaultConfig ''/d'') [] New)\<lparr>Node := Node sample_server\<rparr>"
    by (simp add: sample_server_def)
  ultimately have "(clean_step sample_lib)\<^sup>*\<^sup>*
      (idle_system ((blank_server (GetDefaultConfig ''/d'') [] New)\<lparr>Node := Node sample_server\<rparr>)) y"
    by (metis r_into_rtranclp)
  from reachable_states_are_consistent [OF store_ok_New this] y show ?thesis by simp
qed

text \<open>C18. A transaction that waits for the write lock gets it, whatever the other clients and the master do: in every endless
  behaviour, from a state with a sound lock of which no read lock has leaked and client \<open>c\<close> inside \<^verbatim>\<open>Lock\<close>, in which whoever
  waits in \<^verbatim>\<open>BLPOP\<close> gave a timeout, timers that have run out fire at last, transactions that hold the lock go on at last, and
  the mutex does not let \<open>c\<close> starve (it does not pass \<open>c\<close> over again and again when the lock is free), the lock is granted to \<open>c\<close> at
  some time, unless the process dies by a panic.\<close>

theorem exec_gets_lock:
  assumes "behaviour ys evs" and "locks_ok (ys 0)" and "Leaked (ys 0) = 0" and "phase_of (ys 0) c = WantsLock req"
    and "\<And>i. timed (ys i)" and "\<And>d. weakly_fair ys evs (Expire d)" and "\<And>d. weakly_fair ys evs (ExecNext d)"
    and "strongly_fair ys evs (LockGranted c)"
  shows "\<exists>i. Crashed (ys i) \<or> taken evs (LockGranted c) i"
proof (rule ccontr)
  assume "\<not> ?thesis"
  with assms(1-7) have "waits_for_ever ys evs c req" by (simp add: waits_for_ever_def)
  from granted_again_and_again [OF this] assms(8) show False by blast
qed

lemma at_rest_disabled:
  assumes "all_phases at_rest y"
  shows "\<not> enabled (Expire d) y" "\<not> enabled (ExecNext d) y" "\<not> enabled (LockGranted d) y"
proof -
  have "at_rest (phase_of y d)" using all_phases [OF assms] by (simp add: at_rest_def)
  then show "\<not> enabled (Expire d) y" "\<not> enabled (ExecNext d) y" "\<not> enabled (LockGranted d) y"
    by (auto simp: enabled_def sys_step_def wake_def at_rest_def split: phase.splits if_splits)
qed

lemma all_timed: "all_phases is_timed y \<Longrightarrow> timed y"
  using all_phases [of is_timed y] by (simp add: timed_def is_timed_def)

lemma rest_timed:
  assumes "all_phases at_rest y"
  shows "timed y"
  unfolding timed_def
proof
  fix d
  have "at_rest (phase_of y d)" using all_phases [OF assms] by (simp add: at_rest_def)
  then show "case phase_of y d of Blocked wr r w t \<Rightarrow> \<not> f64_eq t f64_zero
     | ExecBlocked x q rs aof wr r w t \<Rightarrow> \<not> f64_eq t f64_zero | _ \<Rightarrow> True"
    by (auto simp: at_rest_def split: phase.split)
qed

theorem exec_gets_lock_witness:
  "\<exists>ys evs. behaviour ys evs \<and> run timed_run (idle_system sample_server) = Some (ys 0) \<and> readers_out (ys 0) \<and>
    (\<exists>i. Crashed (ys i) \<or> taken evs (LockGranted 2) i)"
proof -
  define ys where "ys i = the (run (timed_run @ take i timed_rest) (idle_system sample_server))" for i
  define evs where "evs i = (if i < 3 then Some (timed_rest ! i) else None)" for i
  have len: "length timed_rest = 3" by (simp add: timed_rest_def ev_at_def)
  have all: "run (timed_run @ take i timed_rest) (idle_system sample_server) = Some (ys i) \<and> timed (ys i)" for i
  proof -
    consider "i = 0" | "i = 1" | "i = 2" | "3 \<le> i" by linarith
    then have "holds_after (timed_run @ take i timed_rest) (\<lambda>y. all_phases is_timed y \<or> all_phases at_rest y)"
      using timed_scenario len by cases (auto simp: holds_after_def split: option.splits)
    moreover note rest_timed
    ultimately show ?thesis using all_timed by (auto simp: ys_def elim: holds_afterE)
  qed
  have start: "Leaked (ys 0) = 0" "phase_of (ys 0) 2 = WantsLock exec_request" "is_blocked (phase_of (ys 0) 1)"
    using timed_scenario(1) all [of 0] by (auto elim: holds_afterE)
  have rest: "all_phases at_rest (ys i)" if "3 \<le> i" for i
    using timed_scenario(4) all [of i] that len by (auto elim: holds_afterE)
  have beh: "behaviour ys evs"
    unfolding behaviour_def
  proof
    fix i
    show "case evs i of None \<Rightarrow> ys (Suc i) = ys i | Some (env, ev) \<Rightarrow> sys_step env ev (ys i) = Some (ys (Suc i))"
    proof (cases "i < 3")
      case True
      obtain env ev where e: "timed_rest ! i = (env, ev)" by fastforce
      have "run (timed_run @ take (Suc i) timed_rest) (idle_system sample_server) =
          Option.bind (run (timed_run @ take i timed_rest) (idle_system sample_server)) (\<lambda>y. run [timed_rest ! i] y)"
        using True len by (simp add: take_Suc_conv_app_nth run_append flip: append_assoc)
      with all [of i] all [of "Suc i"] e True show ?thesis
        by (cases "sys_step env ev (ys i)") (simp_all add: evs_def)
    next
      case False
      then show ?thesis using len by (simp add: evs_def ys_def)
    qed
  qed
  have fair: "weakly_fair ys evs (Expire d)" "weakly_fair ys evs (ExecNext d)" "strongly_fair ys evs (LockGranted d)" for d
    using at_rest_disabled rest unfolding weakly_fair_def strongly_fair_def by (meson max.cobounded1 max.cobounded2 order_trans)+
  have "locks_ok (ys 0)" using all [of 0] locks_ok_run by blast
  from exec_gets_lock [OF beh this start(1,2) conjunct2 [OF all] fair] beh all [of 0] blocked_reader [OF start(3)]
  show ?thesis by auto
qed

text \<open>C19. The deadlock: on a node without a goroutine that follows a master (a master, or a replica that has lost its master), when one
  client waits in \<^verbatim>\<open>BLPOP\<close> without a timeout and another has called \<^verbatim>\<open>Lock\<close> for its \<^verbatim>\<open>EXEC\<close>, then in every later state, whatever
  any client sends, both are still waiting and no key has ever changed. (On a replica that follows its master, the master's next
  push to that key ends the wait, because the commands of a master are executed without the lock.)\<close>

theorem blpop_exec_deadlock_is_permanent:
  assumes "deadlocked b x y" and "locks_ok y" and "Link y = NoLink" and "step\<^sup>*\<^sup>* y y'"
  shows "data (DB (Srv y')) = data (DB (Srv y)) \<and> phase_of y' b = phase_of y b \<and> phase_of y' x = phase_of y x"
  using deadlock.part_steps [OF assms(4)] assms(1-3) by (simp add: stuck_part_def)

theorem blpop_exec_deadlock_is_permanent_witness:
  "\<exists>y y'. run deadlock_run (idle_system sample_server) = Some y \<and>
    sys_step (sample_env 9) (Accept 3 (sends [[''RPUSH'', ''k'', ''v'']])) y = Some y' \<and>
    phase_of y' 1 = phase_of y 1 \<and> phase_of y' 2 = phase_of y 2 \<and> data (DB (Srv y')) = data (DB (Srv y))"
proof -
  obtain y where y: "run deadlock_run (idle_system sample_server) = Some y" "deadlocked 1 2 y" "Link y = NoLink" "\<not> Crashed y"
    using deadlock_scenario by (elim holds_afterE) auto
  then obtain y' where y': "sys_step (sample_env 9) (Accept 3 (sends [[''RPUSH'', ''k'', ''v'']])) y = Some y'"
    by (cases "AddClient 3 (Srv y)") (simp add: sys_step_def)
  then have "step\<^sup>*\<^sup>* y y'" using step by blast
  from blpop_exec_deadlock_is_permanent [OF y(2) locks_ok_run [OF y(1)] y(3) this] y(1) y' show ?thesis by blast
qed

text \<open>C20. When a request of a connection that is neither subscribed nor sends \<^verbatim>\<open>EXEC\<close> is refused with an error, and that error
  cannot be written to the connection, the connection is closed and its read lock is never released: from then on, whatever happens,
  no transaction of any client is granted the lock, and no replica gets to the commands of its master.\<close>

theorem leaked_lock_blocks_every_exec:
  assumes "phase_of y c = Ready" and "\<not> Crashed y" and "map_of (Inbox y) c = Some r" and "ParseRequest (Lib env) r = (Ret req, r')"
    and "Mode (client (Srv y) c) \<noteq> ClientModeSubscribed" and "Command req \<noteq> EXEC" and "\<not> writer_waiting y"
    and "Execute_start env req c (Srv y) = (w, Err e, s)" and "\<not> ConnOk env (Conn (client s c))"
  shows "\<exists>y1. sys_step env (Recv c) y = Some y1 \<and> phase_of y1 c = Closed \<and>
    (\<forall>y2 env' d. step\<^sup>*\<^sup>* y1 y2 \<longrightarrow> sys_step env' (LockGranted d) y2 = None \<and> sys_step env' LinkGranted y2 = None)"
proof -
  obtain y1 where y1: "sys_step env (Recv c) y = Some y1" "phase_of y1 c = Closed" "Leaked y1 = Leaked y + 1"
    using refused_leaks [OF assms] by blast
  then have "0 < Leaked y2" if "step\<^sup>*\<^sup>* y1 y2" for y2 using leak.inv_steps [OF that] by simp
  with y1 leaked_no_grant show ?thesis by blast
qed

theorem leaked_lock_blocks_every_exec_witness:
  "\<exists>y. run (leak_start @ (broken_env, Recv 1) # leak_rest) (idle_system sample_server) = Some y \<and>
    phase_of y 2 = WantsLock exec_request \<and> (\<forall>env'. sys_step env' (LockGranted 2) y = None)"
proof -
  let ?req = "\<lparr>Command = ''flushall'', Arguments = []\<rparr>"
  obtain y where y: "run leak_start (idle_system sample_server) = Some y" "phase_of y 1 = Ready" "\<not> Crashed y"
      "Mode (client (Srv y) 1) = ClientModeNormal" "\<not> writer_waiting y" "map_of (Inbox y) 1 = Some (sends [[''FLUSHALL'']])"
      "case snd (Execute_start broken_env ?req 1 (Srv y)) of (Err e, s) \<Rightarrow> True | _ \<Rightarrow> False"
    using leak_scenario(1) by (elim holds_afterE) auto
  obtain w e s where x: "Execute_start broken_env ?req 1 (Srv y) = (w, Err e, s)"
    using y(7) by (cases "Execute_start broken_env ?req 1 (Srv y)") (auto split: prod.splits go_result.splits)
  have lib: "Lib broken_env = sample_lib" by (simp add: broken_env_def sample_env_def)
  obtain r' where p: "ParseRequest (Lib broken_env) (sends [[''FLUSHALL'']]) = (Ret ?req, r')"
    using leak_scenario(3) lib by (metis prod.collapse)
  have m: "Mode (client (Srv y) 1) \<noteq> ClientModeSubscribed" using y(4) by (simp add: ClientModeNormal_def ClientModeSubscribed_def)
  have n: "Command ?req \<noteq> EXEC" by (simp add: EXEC_def)
  have c: "\<not> ConnOk broken_env (Conn (client s 1))" by (simp add: broken_env_def)
  obtain y1 where y1: "sys_step broken_env (Recv 1) y = Some y1"
      "\<And>y2 env' d. step\<^sup>*\<^sup>* y1 y2 \<Longrightarrow> sys_step env' (LockGranted d) y2 = None"
    using leaked_lock_blocks_every_exec [OF y(2,3,6) p m n y(5) x c] by blast
  obtain y2 where y2: "run (leak_start @ (broken_env, Recv 1) # leak_rest) (idle_system sample_server) = Some y2"
      "phase_of y2 2 = WantsLock exec_request"
    using leak_scenario(2) by (elim holds_afterE)
  then have "run leak_rest y1 = Some y2" using y(1) y1(1) by (simp add: run_append)
  with y2 y1(2) [OF run_steps] show ?thesis by blast
qed

text \<open>C14. Optimistic locking works when nothing happens between the check and the lock: if a client watches a key, and a write
  command on that key succeeds before its transaction is opened and filled, its \<^verbatim>\<open>EXEC\<close> is answered with the null array and
  runs none of the queued commands.\<close>

theorem watched_write_aborts_exec:
  assumes "HandleWatch env1 wreq c s = (Ret b1, s1)" and "k \<in> set (Arguments wreq)" and "c \<in> set (clients s)"
    and "dispatched req c' s1" and "CommandHandlers (Command req) = Some cmd" and "IsWrite cmd"
    and "Execute env2 req c' s1 = (Ret b2, s2)" and "Arguments req = k # rest"
    and "HandleMulti env3 mreq c s2 = (Ret b3, s3)" and "s4 = fold (enqueue c) queue s3"
  shows "exec_check env4 xreq c s4 = answer env4 c NullArray_Marshal (ResetTransactionState env4 c s4) \<and>
    DB (snd (exec_check env4 xreq c s4)) = DB s2"
proof -
  have "c \<in> set (watchers_of s1 k)" by (rule watch_makes_watcher [OF assms(1-3)])
  moreover have "s2 = touch k (set_DB (DB s2) s1)" by (rule Execute_write [OF assms(4-8)])
  ultimately have "client s2 c = (client s1 c)\<lparr>DirtyCompareAndSet := True\<rparr>"
    by (metis client_touch client_set_DB watchers_of_set_DB)
  then have "DirtyCompareAndSet (client s2 c)" by simp
  moreover have "s3 = set_client c ((client s2 c)\<lparr>Mode := ClientModeTransaction\<rparr>) s2"
    using assms(9) by (auto simp: HandleMulti_def split: if_splits)
  ultimately have "DirtyCompareAndSet (client s4 c)" "Mode (client s4 c) = ClientModeTransaction" "DB s4 = DB s2"
    using enqueue_all_dirty [of c queue s3] assms(10) by simp_all
  then show ?thesis by (simp add: exec_check_def)
qed

theorem watched_write_aborts_exec_witness:
  "DB (snd (exec_check (sample_env 1) \<lparr>Command = EXEC, Arguments = []\<rparr> 1 (snd (HandleMulti (sample_env 1)
     \<lparr>Command = MULTI, Arguments = []\<rparr> 1 (snd (Execute (sample_env 1) \<lparr>Command = SET, Arguments = [''k'', ''v'']\<rparr> 2
       (snd (HandleWatch (sample_env 1) \<lparr>Command = WATCH, Arguments = [''k'']\<rparr> 1 (sample_server\<lparr>clients := [1]\<rparr>))))))))) =
   DB (snd (Execute (sample_env 1) \<lparr>Command = SET, Arguments = [''k'', ''v'']\<rparr> 2
       (snd (HandleWatch (sample_env 1) \<lparr>Command = WATCH, Arguments = [''k'']\<rparr> 1 (sample_server\<lparr>clients := [1]\<rparr>)))))"
proof -
  let ?s = "sample_server\<lparr>clients := [1]\<rparr>" and ?w = "\<lparr>Command = WATCH, Arguments = [''k'']\<rparr>"
    and ?r = "\<lparr>Command = SET, Arguments = [''k'', ''v'']\<rparr>" and ?m = "\<lparr>Command = MULTI, Arguments = []\<rparr>"
    and ?e = "\<lparr>Handler = HandleSet, MinArgs = 2, MaxArgs = -1, IsWrite = True\<rparr>"
  define s1 where "s1 = snd (HandleWatch (sample_env 1) ?w 1 ?s)"
  define s2 where "s2 = snd (Execute (sample_env 1) ?r 2 s1)"
  define s3 where "s3 = snd (HandleMulti (sample_env 1) ?m 1 s2)"
  have "fst (HandleWatch (sample_env 1) ?w 1 ?s) = Ret (Bytes OK)" by code_simp
  then have 1: "HandleWatch (sample_env 1) ?w 1 ?s = (Ret (Bytes OK), s1)" by (simp add: s1_def prod_eq_iff)
  have d: "dispatched ?r 2 s1" unfolding s1_def by code_simp
  have "fst (Execute (sample_env 1) ?r 2 s1) = Ret OK" unfolding s1_def by code_simp
  then have 2: "Execute (sample_env 1) ?r 2 s1 = (Ret OK, s2)" by (simp add: s2_def prod_eq_iff)
  have "fst (HandleMulti (sample_env 1) ?m 1 s2) = Ret (Bytes OK)" unfolding s2_def s1_def by code_simp
  then have 3: "HandleMulti (sample_env 1) ?m 1 s2 = (Ret (Bytes OK), s3)" by (simp add: s3_def prod_eq_iff)
  have e: "CommandHandlers (Command ?r) = Some ?e" by (simp add: CommandHandlers_def command_table_def command_names)
  have "DB (snd (exec_check (sample_env 1) \<lparr>Command = EXEC, Arguments = []\<rparr> 1 s3)) = DB s2"
    by (rule watched_write_aborts_exec [OF 1 _ _ d e _ 2 _ 3, where queue = "[]" and k = "''k''" and rest = "[''v'']"
      and ?s4.0 = s3 and ?env4.0 = "sample_env 1" and xreq = "\<lparr>Command = EXEC, Arguments = []\<rparr>", THEN conjunct2]) simp_all
  then show ?thesis by (simp only: s1_def s2_def s3_def)
qed

text \<open>C21. The gap between that check and the lock: client \<open>c\<close> watches a key and has passed the check of its flag, which is not set,
  but has not called \<^verbatim>\<open>Lock\<close> yet. If now another client's write command on that key succeeds, the flag of \<open>c\<close> is set; and yet, when
  \<open>c\<close> then calls \<^verbatim>\<open>Lock\<close> and gets it, its queue is executed on the changed key space, to the end, and the reply is
  the array of the replies, not the null array.\<close>

theorem watch_race_executes_stale_transaction:
  assumes "phase_of y c = Checked xreq" and "Command xreq = EXEC" and "c \<in> set (watchers_of (Srv y) k)"
    and "\<not> Crashed y" and "locks_ok y" and "lock_free y" and "\<not> writer_waiting y"
    and "phase_of y d = Ready" and "map_of (Inbox y) d = Some r" and "ParseRequest (Lib env1) r = (Ret req, r')"
    and "Mode (client (Srv y) d) = ClientModeNormal" and "CommandHandlers (Command req) = Some cmd" and "IsWrite cmd"
    and "Command req \<noteq> cmd_BLPOP" and "Arguments req = k # rest" and "Execute env1 req d (Srv y) = (Ret b, s1)"
    and "exec_queue env2 c (CommandQueue (client (Srv y) c)) [] [] (ResetTransactionState env2 c s1) = (Ret (rs, aof), s2)"
  shows "\<exists>y1 evs y2. sys_step env1 (Recv d) y = Some y1 \<and> DB (Srv y1) = DB s1 \<and> DirtyCompareAndSet (client (Srv y1) c) \<and>
    exec_events env2 c evs \<and> run ((env2, LockCall c) # (env2, LockGranted c) # evs) y1 = Some y2 \<and>
    phase_of y2 c = Replying (Array_Marshal rs) \<and> DB (Srv y2) = DB s2"
proof -
  let ?y1 = "set_phase d (Finishing req b) s1 (y\<lparr>Inbox := gm_set d r' (Inbox y)\<rparr>)"
  note w = write_received [OF assms(8,4,7,9-16)]
  have touched: "s1 = touch k (set_DB (DB s1) (Srv y))"
    by (rule Execute_write [OF conjunct1 [OF w] assms(12,13,16,15)])
  have cl: "client s1 c = (client (Srv y) c)\<lparr>DirtyCompareAndSet := True\<rparr>"
    using assms(3) by (subst touched) (simp add: client_touch)
  have "c \<noteq> d" using assms(1,8) by auto
  let ?y2 = "set_phase c (WantsLock xreq) s1 ?y1"
  have call: "sys_step env2 (LockCall c) ?y1 = Some ?y2" using assms(1,4) \<open>c \<noteq> d\<close> by (simp add: sys_step_def)
  have gm: "gm_ok (Phase ?y2)" using locks_okD(1) [OF assms(5)] by simp
  have "lock_free ?y2"
    using assms(6) unfolding lock_free_iff [OF gm] lock_free_iff [OF locks_okD(1) [OF assms(5)]] by simp
  moreover have "exec_queue env2 c (CommandQueue (client (Srv ?y2) c)) [] [] (ResetTransactionState env2 c (Srv ?y2)) = (Ret (rs, aof), s2)"
    using assms(17) cl by simp
  ultimately obtain evs where evs: "exec_events env2 c evs"
      "run ((env2, LockGranted c) # evs) ?y2 = Some (set_phase c (Replying (Array_Marshal rs)) s2 ?y2)"
    using transaction_runs [of ?y2 c xreq env2 rs aof s2] assms(2,4) by auto
  with conjunct2 [OF w] call cl show ?thesis
    by (intro exI [of _ ?y1] exI [of _ evs] exI [of _ "set_phase c (Replying (Array_Marshal rs)) s2 ?y2"]) simp
qed

theorem watch_race_executes_stale_transaction_witness:
  "\<exists>y y1 evs y2. run race_run (idle_system sample_server) = Some y \<and> sys_step (sample_env 1) (Recv 2) y = Some y1 \<and>
    DirtyCompareAndSet (client (Srv y1) 1) \<and> run ((sample_env 1, LockCall 1) # (sample_env 1, LockGranted 1) # evs) y1 = Some y2 \<and>
    phase_of y2 1 = Replying (Array_Marshal [OK])"
proof -
  let ?w = "set_request ''theirs''" and ?m = "set_request ''mine''"
  obtain y where y: "run race_run (idle_system sample_server) = Some y" "phase_of y 1 = Checked exec_request" "\<not> Crashed y"
      "lock_free y" "\<not> writer_waiting y" "1 \<in> set (watchers_of (Srv y) ''k'')" "CommandQueue (client (Srv y) 1) = [?m]"
      "phase_of y 2 = Ready" "Mode (client (Srv y) 2) = ClientModeNormal" "map_of (Inbox y) 2 = Some (sends [[''SET'', ''k'', ''theirs'']])"
      "fst (Execute (sample_env 1) ?w 2 (Srv y)) = Ret OK"
      "fst (exec_queue (sample_env 1) 1 [?m] [] [] (ResetTransactionState (sample_env 1) 1 (snd (Execute (sample_env 1) ?w 2 (Srv y))))) = Ret ([OK], [])"
    using race_scenario(1) by (elim holds_afterE) auto
  obtain s1 where s1: "Execute (sample_env 1) ?w 2 (Srv y) = (Ret OK, s1)" using y(11) by (metis prod.collapse)
  obtain s2 where s2: "exec_queue (sample_env 1) 1 (CommandQueue (client (Srv y) 1)) [] [] (ResetTransactionState (sample_env 1) 1 s1) = (Ret ([OK], []), s2)"
    using y(7,12) s1 by (metis prod.collapse snd_conv)
  have lib: "Lib (sample_env 1) = sample_lib" by (simp add: sample_env_def)
  obtain r' where p: "ParseRequest (Lib (sample_env 1)) (sends [[''SET'', ''k'', ''theirs'']]) = (Ret ?w, r')"
    using race_scenario(2) lib by (metis prod.collapse)
  obtain cmd where cmd: "CommandHandlers (Command ?w) = Some cmd" "IsWrite cmd"
    by (simp add: CommandHandlers_def command_table_def command_names)
  have names: "Command exec_request = EXEC" "Command ?w \<noteq> cmd_BLPOP" "Arguments ?w = ''k'' # [''theirs'']"
    by (simp_all add: SET_def cmd_BLPOP_def)
  from watch_race_executes_stale_transaction [OF y(2) names(1) y(6,3) locks_ok_run [OF y(1)] y(4,5,8,10) p y(9) cmd names(2,3) s1 s2] y(1)
  show ?thesis by blast
qed

end
