(* ===== verification/WriteSpec.thy ===== *)
theory WriteSpec
  imports ExecuteCorrect
begin

text \<open>
  An abstract specification of the write commands: the key space as a finite map from keys to values and deadlines, a
  sorted set as a map from members to scores, without skip lists, type tags, channels or coin flips. Every write
  command that is run by \<open>Execute\<close> refines its abstract counterpart; so what it replies and stores depends on the
  abstract key space and the request alone (and for \<open>SET\<close> with an expiry on the clock).
\<close>

subsection \<open>The abstract key space\<close>

datatype aval = AStr string | ALst "string list" | ASet "string \<rightharpoonup> f64"

type_synonym keyspace = "string \<rightharpoonup> aval \<times> int"

fun abs_val :: "val \<Rightarrow> aval" where
  "abs_val (VString v) = AStr v"
| "abs_val (VList xs) = ALst xs"
| "abs_val (VZSet z) = ASet (map_of (HashMap z))"

definition abs_entry :: "Entry \<Rightarrow> aval \<times> int" where
  "abs_entry e = (abs_val (EValue e), ExpireAt e)"

definition keys_of :: "Store \<Rightarrow> keyspace" where
  "keys_of d = map_option abs_entry \<circ> map_of (data d)"

lemma keys_of_put [simp]:
  "keys_of (d\<lparr>data := gm_set k e (data d)\<rparr>) = (keys_of d)(k \<mapsto> abs_entry e)"
  by (simp add: keys_of_def fun_eq_iff)

lemma keys_of_waiters [simp]:
  "keys_of (d\<lparr>waiterStore := w\<rparr>) = keys_of d" "keys_of (d\<lparr>chans := ch\<rparr>) = keys_of d" "keys_of (d\<lparr>nextChan := n\<rparr>) = keys_of d"
  by (simp_all add: keys_of_def)

lemma keys_of_same [simp]: "keys_of d k = Some x \<Longrightarrow> abs_entry e = x \<Longrightarrow> (keys_of d)(k \<mapsto> abs_entry e) = keys_of d"
  by (simp add: fun_upd_idem)

text \<open>A store of which no client waits.\<close>

definition idle :: "Store \<Rightarrow> bool" where
  "idle d \<longleftrightarrow> store_ok d \<and> map_of (waiterStore d) = Map.empty"

lemma keys_of_cases:
  assumes "idle d"
  obtains (absent) "map_of (data d) k = None" "keys_of d k = None"
  | (str) e v where "map_of (data d) k = Some e" "EType e = EntryTypeString" "EValue e = VString v"
      "keys_of d k = Some (AStr v, ExpireAt e)"
  | (lst) e xs where "map_of (data d) k = Some e" "EType e = EntryTypeList" "EValue e = VList xs"
      "keys_of d k = Some (ALst xs, ExpireAt e)"
  | (zset) e z where "map_of (data d) k = Some e" "EType e = EntryTypeSortedSet" "EValue e = VZSet z" "zset_ok z"
      "keys_of d k = Some (ASet (map_of (HashMap z)), ExpireAt e)"
proof (cases "map_of (data d) k")
  case None
  then show thesis by (intro absent) (simp_all add: keys_of_def)
next
  case (Some e)
  then have "entry_ok e" using assms by (auto simp: idle_def intro: store_ok_entry)
  then show thesis
  proof (cases rule: entry_okE)
    case (Str v)
    then show thesis using Some by (intro str) (simp_all add: keys_of_def abs_entry_def)
  next
    case (Lst xs)
    then show thesis using Some by (intro lst) (simp_all add: keys_of_def abs_entry_def)
  next
    case (Zst z)
    then show thesis using Some by (intro zset) (simp_all add: keys_of_def abs_entry_def)
  qed
qed

subsection \<open>The specification\<close>

type_synonym aresult = "string go_result \<times> keyspace"

text \<open>The options of \<^verbatim>\<open>SET\<close> come in pairs. The first one that is not a unit with a number decides the error; if there is none,
  the last one decides the deadline.\<close>

fun option_pairs :: "string list \<Rightarrow> (string \<times> string option) list" where
  "option_pairs [] = []"
| "option_pairs [a] = [(a, None)]"
| "option_pairs (a # b # opts) = (a, Some b) # option_pairs opts"

definition nanoseconds :: "golib \<Rightarrow> string \<Rightarrow> int option" where
  "nanoseconds lib name =
     (if ToLower lib name = ''ex'' then Some 1000000000 else if ToLower lib name = ''px'' then Some 1000000 else None)"

definition option_deadline :: "env \<Rightarrow> string \<times> string option \<Rightarrow> int go_result" where
  "option_deadline env x =
     (case (nanoseconds (Lib env) (fst x), snd x) of
        (None, _) \<Rightarrow> Err (ESimple ERR (''unknown Optional parameter  '' @ apostrophe @ fst x @ apostrophe))
      | (Some u, None) \<Rightarrow> Panic
      | (Some u, Some v) \<Rightarrow>
          (case Atoi v of
             None \<Rightarrow> Err (ESimple ERR (''Expecting a integer for expire got '' @ v))
           | Some n \<Rightarrow> Ret (Now env + wrap64 (u * n))))"

definition is_ret :: "'a go_result \<Rightarrow> bool" where
  "is_ret r \<longleftrightarrow> (case r of Ret _ \<Rightarrow> True | _ \<Rightarrow> False)"

definition spec_deadline :: "env \<Rightarrow> string list \<Rightarrow> int go_result" where
  "spec_deadline env opts =
     (let ds = map (option_deadline env) (option_pairs opts)
      in case find (\<lambda>d. \<not> is_ret d) ds of
           Some d \<Rightarrow> d
         | None \<Rightarrow> (if ds = [] then Ret zero_time else last ds))"

text \<open>The arguments of \<^verbatim>\<open>ZADD\<close> behind the key: scores at the even positions, members at the odd ones.\<close>

definition spec_pairs :: "golib \<Rightarrow> string list \<Rightarrow> elem list go_result" where
  "spec_pairs lib args =
     (let ps = map (\<lambda>i. (args ! (2 * i + 1), ParseFloat64 lib (args ! (2 * i)))) [0..<length args div 2]
      in if None \<in> snd ` set ps then Err (ESimple ERR ErrorMessageNotFloat)
         else Ret (map (\<lambda>(m, x). (m, the x)) ps))"

fun spec_set :: "int go_result \<Rightarrow> string list \<Rightarrow> keyspace \<Rightarrow> aresult" where
  "spec_set deadline (k # v # opts) K =
     (case deadline of
        Ret t \<Rightarrow> (Ret OK, K(k \<mapsto> (AStr v, t)))
      | Err e \<Rightarrow> (Err e, K)
      | Panic \<Rightarrow> (Panic, K))"
| "spec_set deadline args K = (Panic, K)"

fun spec_incr :: "string list \<Rightarrow> keyspace \<Rightarrow> aresult" where
  "spec_incr (k # _) K =
     (case K k of
        None \<Rightarrow> (Ret (Integer_Marshal 1), K(k \<mapsto> (AStr ''1'', zero_time)))
      | Some (AStr v, t) \<Rightarrow>
          (case Atoi v of
             None \<Rightarrow> (Err (ESimple ERR ErrorMessageNotInteger), K)
           | Some n \<Rightarrow> (Ret (Integer_Marshal (wrap64 (n + 1))), K(k \<mapsto> (AStr (Itoa (wrap64 (n + 1))), t))))
      | Some _ \<Rightarrow> (Err (ESimple ERR ErrorMessageNotInteger), K))"
| "spec_incr args K = (Panic, K)"

fun spec_push :: "bool \<Rightarrow> string list \<Rightarrow> keyspace \<Rightarrow> aresult" where
  "spec_push right (k # vs) K =
     (let vs = (if right then vs else rev vs)
      in case K k of
           None \<Rightarrow> (Ret (Integer_Marshal (int (length vs))), K(k \<mapsto> (ALst vs, zero_time)))
         | Some (ALst xs, t) \<Rightarrow>
             (Ret (Integer_Marshal (int (length xs + length vs))), K(k \<mapsto> (ALst (if right then xs @ vs else vs @ xs), t)))
         | Some _ \<Rightarrow> (Err (EText ErrorMessageStringTypeCaste), K))"
| "spec_push right args K = (Panic, K)"

definition pop_reply :: "bool \<Rightarrow> string list \<Rightarrow> string" where
  "pop_reply single vs =
     (case vs of
        [] \<Rightarrow> NullBulkString_Marshal
      | v # _ \<Rightarrow> if single then BulkString_Marshal v else Array_Marshal (map BulkString_Marshal vs))"

fun spec_lpop :: "string list \<Rightarrow> keyspace \<Rightarrow> aresult" where
  "spec_lpop (k # rest) K =
     (case (case rest of [] \<Rightarrow> Some 1 | n # _ \<Rightarrow> Atoi n) of
        None \<Rightarrow> (Err (ESimple [] []), K)
      | Some n \<Rightarrow>
          (case K k of
             None \<Rightarrow> (Ret NullBulkString_Marshal, K)
           | Some (ALst xs, t) \<Rightarrow>
               (if xs = [] then (Ret NullBulkString_Marshal, K)
                else if n < 0 then (Panic, K)
                else (Ret (pop_reply (rest = []) (take (nat n) xs)), K(k \<mapsto> (ALst (drop (nat n) xs), t))))
           | Some _ \<Rightarrow> (Err (EText ErrorMessageStringTypeCaste), K)))"
| "spec_lpop args K = (Panic, K)"

text \<open>A pop that would have to wait, with nobody there who could push, ends with its timeout or never.\<close>

fun spec_blpop :: "golib \<Rightarrow> string list \<Rightarrow> keyspace \<Rightarrow> aresult" where
  "spec_blpop lib (k # timeout # _) K =
     (case ParseFloat32 lib timeout of
        None \<Rightarrow> (Err (ESimple WRONGTYPE ErrorMessageNotNumber), K)
      | Some t \<Rightarrow>
          (case K k of
             Some (ALst (x # xs), d) \<Rightarrow> (Ret (blpop_reply \<lparr>BKey = k, BValue = x\<rparr>), K(k \<mapsto> (ALst xs, d)))
           | Some (ALst [], d) \<Rightarrow> (if f64_eq t f64_zero then (Panic, K) else (Ret NullArray_Marshal, K))
           | None \<Rightarrow> (if f64_eq t f64_zero then (Panic, K) else (Ret NullArray_Marshal, K))
           | Some _ \<Rightarrow> (Err (EText ErrorMessageStringTypeCaste), K)))"
| "spec_blpop lib args K = (Panic, K)"

definition spec_add :: "string \<Rightarrow> elem list \<Rightarrow> keyspace \<Rightarrow> aresult" where
  "spec_add k ps K =
     (case K k of
        None \<Rightarrow> (Ret (Integer_Marshal (int (card (fst ` set ps)))), K(k \<mapsto> (ASet (map_of (rev ps)), zero_time)))
      | Some (ASet m, t) \<Rightarrow>
          (Ret (Integer_Marshal (int (card (fst ` set ps - dom m)))), K(k \<mapsto> (ASet (m ++ map_of (rev ps)), t)))
      | Some _ \<Rightarrow> (Err (ESimple ERR ErrorMessageWrongType), K))"

fun spec_zadd :: "golib \<Rightarrow> string \<Rightarrow> string list \<Rightarrow> keyspace \<Rightarrow> aresult" where
  "spec_zadd lib cmd (k # args) K =
     (if length args mod 2 \<noteq> 0 then (Err (ESimple ERR (ErrWrongArgCount cmd)), K)
      else (case spec_pairs lib args of Ret ps \<Rightarrow> spec_add k ps K | Err e \<Rightarrow> (Err e, K) | Panic \<Rightarrow> (Panic, K)))"
| "spec_zadd lib cmd args K = (Panic, K)"

fun spec_zrem :: "string list \<Rightarrow> keyspace \<Rightarrow> aresult" where
  "spec_zrem (k # m # _) K =
     (case K k of
        None \<Rightarrow> (Ret (Integer_Marshal 0), K)
      | Some (ASet h, t) \<Rightarrow>
          (if h m = None then (Ret (Integer_Marshal 0), K)
           else (Ret (Integer_Marshal 1), K(k \<mapsto> (ASet (h(m := None)), t))))
      | Some _ \<Rightarrow> (Err (ESimple ERR ErrorMessageWrongType), K))"
| "spec_zrem args K = (Panic, K)"

fun spec_geoadd :: "golib \<Rightarrow> string list \<Rightarrow> keyspace \<Rightarrow> aresult" where
  "spec_geoadd lib (k # lon # lat # m # _) K =
     (case (ParseFloat64 lib lon, ParseFloat64 lib lat) of
        (Some x, Some y) \<Rightarrow>
          (if \<not> ValidateCoordinates x y then
             (Err (ESimple ERR (''invalid longitude,latitude pair '' @ FormatFixed lib x @ '' '' @ FormatFixed lib y)), K)
           else spec_add k [(m, f64_of_uint (uint (Encode lib \<lparr>Latitude = y, Longitude = x\<rparr>)))] K)
      | _ \<Rightarrow> (Err (ESimple ERR ErrorMessageNotFloat), K))"
| "spec_geoadd lib args K = (Panic, K)"

definition spec_write :: "env \<Rightarrow> Request \<Rightarrow> keyspace \<Rightarrow> aresult" where
  "spec_write env req =
     (let args = Arguments req; lib = Lib env; name = Command req
      in if name = SET then spec_set (spec_deadline env (drop 2 args)) args
         else if name = INCR then spec_incr args
         else if name = RPUSH then spec_push True args
         else if name = LPUSH then spec_push False args
         else if name = LPOP then spec_lpop args
         else if name = cmd_BLPOP then spec_blpop lib args
         else if name = ZADD then spec_zadd lib name args
         else if name = ZREM then spec_zrem args
         else spec_geoadd lib args)"

subsection \<open>Handlers meet the specification\<close>

text \<open>What a handler comes to when nobody else can act: its reply or error and the store it leaves. A wait ends with its
  timeout; without one it never ends, which counts as \<open>Panic\<close>.\<close>

definition outcome :: "reply go_result \<times> Server \<Rightarrow> string go_result \<times> Store" where
  "outcome x =
     (case x of
        (Ret (Bytes b), s) \<Rightarrow> (Ret b, DB s)
      | (Ret (Wait w t), s) \<Rightarrow>
          (case resolve_timeout t (DB s) w of None \<Rightarrow> (Panic, DB s) | Some (d, db) \<Rightarrow> (Ret (blpop_reply d), db))
      | (Err e, s) \<Rightarrow> (Err e, DB s)
      | (Panic, s) \<Rightarrow> (Panic, DB s))"

lemma outcome_simps [simp]:
  "outcome (Ret (Bytes b), s) = (Ret b, DB s)" "outcome (Err e, s) = (Err e, DB s)" "outcome (Panic, s) = (Panic, DB s)"
  by (simp_all add: outcome_def)

definition meets :: "reply go_result \<times> Server \<Rightarrow> aresult \<Rightarrow> bool" where
  "meets x y \<longleftrightarrow> fst (outcome x) = fst y \<and> keys_of (snd (outcome x)) = snd y \<and> (fst y \<noteq> Panic \<longrightarrow> idle (snd (outcome x)))"

lemma meets_unchanged [simp]:
  "idle (DB s) \<Longrightarrow> meets (r, s) (r', K) \<longleftrightarrow> (case r of
      Ret (Bytes b) \<Rightarrow> r' = Ret b \<and> K = keys_of (DB s)
    | Ret (Wait w t) \<Rightarrow> meets (r, s) (r', K)
    | Err e \<Rightarrow> r' = Err e \<and> K = keys_of (DB s)
    | Panic \<Rightarrow> r' = Panic \<and> K = keys_of (DB s))"
  by (auto simp: meets_def split: go_result.split reply.split)

text \<open>Storing an entry in an idle store.\<close>

lemma entry_ok_new_value [simp]:
  "entry_ok (e\<lparr>EValue := VString v\<rparr>) \<longleftrightarrow> EType e = EntryTypeString"
  "entry_ok (e\<lparr>EValue := VList xs\<rparr>) \<longleftrightarrow> EType e = EntryTypeList"
  "entry_ok (e\<lparr>EValue := VZSet z\<rparr>) \<longleftrightarrow> EType e = EntryTypeSortedSet \<and> zset_ok z"
  by (simp_all add: entry_ok_def)

lemma idle_put:
  "idle d \<Longrightarrow> entry_ok e \<Longrightarrow> idle (d\<lparr>data := gm_set k e (data d)\<rparr>)"
  by (simp add: idle_def store_ok_put)

lemma meets_put:
  assumes "idle d" and "entry_ok e"
  shows "meets (reply_bytes b (set_DB (d\<lparr>data := gm_set k e (data d)\<rparr>) s)) (Ret b, (keys_of d)(k \<mapsto> abs_entry e))"
  using idle_put [OF assms] by (simp add: meets_def set_DB_def)

lemma set_opts_spec:
  "set_opts env t opts =
     (let ds = map (option_deadline env) (option_pairs opts)
      in case find (\<lambda>d. \<not> is_ret d) ds of Some d \<Rightarrow> d | None \<Rightarrow> (if ds = [] then Ret t else last ds))"
proof (induction opts arbitrary: t rule: option_pairs.induct)
  case (2 a)
  then show ?case by (simp add: option_deadline_def nanoseconds_def is_ret_def Let_def)
next
  case (3 a b opts)
  show ?case
  proof (cases "nanoseconds (Lib env) a")
    case None
    then show ?thesis by (simp add: option_deadline_def nanoseconds_def is_ret_def Let_def split: if_splits)
  next
    case (Some u)
    then have step: "set_opts env t (a # b # opts) = (case Atoi b of
        None \<Rightarrow> Err (ESimple ERR (''Expecting a integer for expire got '' @ b))
      | Some n \<Rightarrow> set_opts env (Now env + wrap64 (u * n)) opts)"
      by (auto simp: nanoseconds_def Let_def split: if_splits option.split)
    show ?thesis
    proof (cases "Atoi b")
      case None
      then show ?thesis unfolding step using Some by (simp add: option_deadline_def is_ret_def Let_def)
    next
      case (Some n)
      with \<open>nanoseconds (Lib env) a = Some u\<close> have "option_deadline env (a, Some b) = Ret (Now env + wrap64 (u * n))"
        by (simp add: option_deadline_def)
      with Some show ?thesis
        unfolding step by (simp add: "3.IH" is_ret_def Let_def del: set_opts.simps split: option.split)
    qed
  qed
qed simp

lemma spec_deadline_set_opts: "set_opts env zero_time opts = spec_deadline env opts"
  by (simp add: set_opts_spec spec_deadline_def)

lemma spec_pairs_Cons2:
  "spec_pairs lib (a # m # args) =
     (case ParseFloat64 lib a of
        None \<Rightarrow> Err (ESimple ERR ErrorMessageNotFloat)
      | Some x \<Rightarrow> bind_go (spec_pairs lib args) (\<lambda>ps. Ret ((m, x) # ps)))"
proof -
  have "[0..<length (a # m # args) div 2] = 0 # map Suc [0..<length args div 2]"
    by (simp add: map_Suc_upt upt_conv_Cons del: upt_Suc)
  then show ?thesis by (auto simp: spec_pairs_def Let_def comp_def image_iff split: option.split)
qed

lemma spec_pairs_zadd: "length args mod 2 = 0 \<Longrightarrow> zadd_pairs lib args = spec_pairs lib args"
proof (induction lib args rule: zadd_pairs.induct)
  case (1 lib)
  then show ?case by (simp add: spec_pairs_def)
next
  case (3 lib a m rest)
  then have "zadd_pairs lib rest = spec_pairs lib rest" if "ParseFloat64 lib a = Some x" for x using that by simp
  then show ?case by (simp add: spec_pairs_Cons2 split: option.split)
qed simp

lemma HandleSet_meets:
  assumes "idle (DB s)"
  shows "meets (HandleSet env req c s) (spec_set (spec_deadline env (drop 2 (Arguments req))) (Arguments req) (keys_of (DB s)))"
proof (cases "\<exists>k v opts. Arguments req = k # v # opts")
  case True
  then obtain k v opts where args: "Arguments req = k # v # opts" by blast
  show ?thesis
  proof (cases "set_opts env zero_time opts")
    case (Ret t)
    then show ?thesis
      using meets_put [OF assms, of "\<lparr>EType = EntryTypeString, EValue = VString v, ExpireAt = t\<rparr>" OK k s]
      by (simp add: args HandleSet_def Set_def abs_entry_def spec_deadline_set_opts [symmetric])
  qed (use assms in \<open>simp_all add: args HandleSet_def spec_deadline_set_opts [symmetric]\<close>)
next
  case False
  then show ?thesis
    using assms by (cases "Arguments req" rule: remdups_adj.cases) (auto simp: HandleSet_def)
qed

lemma Update_put:
  "fn (map_of (data d) k) = Ret (Some e, x) \<Longrightarrow> Update d k fn = (Ret (Some e, x), d\<lparr>data := gm_set k e (data d)\<rparr>)"
  "fn (map_of (data d) k) = Ret (None, x) \<Longrightarrow> Update d k fn = (Ret (None, x), d)"
  "fn (map_of (data d) k) = Err er \<Longrightarrow> Update d k fn = (Err er, d)"
  "fn (map_of (data d) k) = Panic \<Longrightarrow> Update d k fn = (Panic, d)"
  by (simp_all add: Update_def)

lemma HandleINCR_meets:
  assumes "idle (DB s)"
  shows "meets (HandleINCR env req c s) (spec_incr (Arguments req) (keys_of (DB s)))"
proof (cases "Arguments req")
  case Nil
  then show ?thesis using assms by (simp add: HandleINCR_def)
next
  case (Cons k rest)
  have n: "Atoi (Itoa (wrap64 m)) = Some (wrap64 m)" for m using wrap64_range [of m] by (simp add: Atoi_Itoa)
  have one: "Atoi ''1'' = Some 1" by code_simp
  from assms show ?thesis
  proof (cases rule: keys_of_cases [where k = k])
    case absent
    then have u: "incr_fn (map_of (data (DB s)) k) = Ret (Some \<lparr>EType = EntryTypeString, EValue = VString ''1'', ExpireAt = zero_time\<rparr>, ())"
      by (simp add: incr_fn_def)
    show ?thesis
      using meets_put [OF assms, of "\<lparr>EType = EntryTypeString, EValue = VString ''1'', ExpireAt = zero_time\<rparr>" "Integer_Marshal 1" k s] absent
      by (simp add: Cons HandleINCR_def Update_put(1) [where fn = incr_fn, OF u] one abs_entry_def)
  next
    case (str e v)
    show ?thesis
    proof (cases "Atoi v")
      case None
      then have u: "incr_fn (map_of (data (DB s)) k) = Err (ESimple ERR ErrorMessageNotInteger)" using str by (simp add: incr_fn_def)
      show ?thesis using assms str None by (simp add: Cons HandleINCR_def Update_put(3) [where fn = incr_fn, OF u])
    next
      case (Some m)
      then have u: "incr_fn (map_of (data (DB s)) k) = Ret (Some (e\<lparr>EValue := VString (Itoa (wrap64 (m + 1)))\<rparr>), ())"
        using str by (simp add: incr_fn_def)
      show ?thesis
        using meets_put [OF assms, of "e\<lparr>EValue := VString (Itoa (wrap64 (m + 1)))\<rparr>" "Integer_Marshal (wrap64 (m + 1))" k s] str Some
        by (simp add: Cons HandleINCR_def Update_put(1) [where fn = incr_fn, OF u] n abs_entry_def)
    qed
  next
    case (lst e xs)
    then have u: "incr_fn (map_of (data (DB s)) k) = Err (ESimple ERR ErrorMessageNotInteger)" by (simp add: incr_fn_def)
    show ?thesis using assms lst by (simp add: Cons HandleINCR_def Update_put(3) [where fn = incr_fn, OF u])
  next
    case (zset e z)
    then have u: "incr_fn (map_of (data (DB s)) k) = Err (ESimple ERR ErrorMessageNotInteger)" by (simp add: incr_fn_def)
    show ?thesis using assms zset by (simp add: Cons HandleINCR_def Update_put(3) [where fn = incr_fn, OF u])
  qed
qed

lemma push_meets:
  assumes "idle (DB s)" and "dir = right" and "vs = (if right then xs else rev xs)"
  shows "meets (push_reply (ListPush (DB s) k xs dir) s) (spec_push right (k # xs) (keys_of (DB s)))"
proof -
  have "map_of (waiterStore (DB s)) k = None" using assms(1) by (simp add: idle_def)
  then have push: "ListPush (DB s) k xs dir = push_rest (DB s) k vs dir"
    using assms(2,3) by (auto simp: ListPush_no_waiter Left_def)
  have spec: "spec_push right (k # xs) K = (case K k of
           None \<Rightarrow> (Ret (Integer_Marshal (int (length vs))), K(k \<mapsto> (ALst vs, zero_time)))
         | Some (ALst ys, t) \<Rightarrow>
             (Ret (Integer_Marshal (int (length ys + length vs))), K(k \<mapsto> (ALst (if right then ys @ vs else vs @ ys), t)))
         | Some _ \<Rightarrow> (Err (EText ErrorMessageStringTypeCaste), K))" for K
    unfolding assms(3) by (simp only: spec_push.simps Let_def)
  from assms(1) show ?thesis
  proof (cases rule: keys_of_cases [where k = k])
    case absent
    then show ?thesis
      using meets_put [OF assms(1), of "\<lparr>EType = EntryTypeList, EValue = VList vs, ExpireAt = zero_time\<rparr>" "Integer_Marshal (int (length vs))" k s]
      unfolding push spec by (simp add: push_rest_def push_reply_def abs_entry_def Let_def)
  next
    case (lst e ys)
    then show ?thesis
      using meets_put [OF assms(1), of "e\<lparr>EValue := VList (if right then ys @ vs else vs @ ys)\<rparr>"
          "Integer_Marshal (int (length ys + length vs))" k s]
      unfolding push spec unfolding assms(2)
      by (cases right) (simp_all add: push_rest_def push_reply_def abs_entry_def Let_def Right_def add.commute)
  qed (use assms(1) in \<open>simp_all add: push spec push_rest_def push_reply_def del: spec_push.simps(1)\<close>)
qed

lemma HandleRPush_meets: "idle (DB s) \<Longrightarrow> meets (HandleRPush env req c s) (spec_push True (Arguments req) (keys_of (DB s)))"
  using push_meets [of s Right True] by (cases "Arguments req") (simp_all add: HandleRPush_def Right_def del: spec_push.simps(1))

lemma HandleLPush_meets: "idle (DB s) \<Longrightarrow> meets (HandleLPush env req c s) (spec_push False (Arguments req) (keys_of (DB s)))"
  using push_meets [of s Left False] by (cases "Arguments req") (simp_all add: HandleLPush_def Left_def del: spec_push.simps(1))

lemma lpop_pieces:
  "0 \<le> n \<Longrightarrow> m = (if int (length xs) < n then int (length xs) else n) \<Longrightarrow>
   go_slice 0 m xs = Some (take (nat n) xs) \<and> go_slice m (int (length xs)) xs = Some (drop (nat n) xs)"
  by (auto simp: go_slice_def)

lemma HandleLPop_meets:
  assumes "idle (DB s)"
  shows "meets (HandleLPop env req c s) (spec_lpop (Arguments req) (keys_of (DB s)))"
proof (cases "Arguments req")
  case Nil
  then show ?thesis using assms by (simp add: HandleLPop_def)
next
  case (Cons k rest)
  show ?thesis
  proof (cases "case rest of [] \<Rightarrow> Some 1 | n # _ \<Rightarrow> Atoi n")
    case None
    then show ?thesis using assms by (simp add: Cons HandleLPop_def)
  next
    case (Some n)
    note count = this
    let ?fn = "lpop_fn n"
    from assms show ?thesis
    proof (cases rule: keys_of_cases [where k = k])
      case absent
      then have u: "?fn (map_of (data (DB s)) k) = Ret (None, [])" by (simp add: lpop_fn_def)
      show ?thesis using assms absent count by (simp add: Cons HandleLPop_def Update_put(2) [where fn = ?fn, OF u])
    next
      case (lst e xs)
      consider "xs = []" | "xs \<noteq> []" "n < 0" | "xs \<noteq> []" "0 \<le> n" by linarith
      then show ?thesis
      proof cases
        case 1
        then have u: "?fn (map_of (data (DB s)) k) = Ret (Some e, [])" using lst by (simp add: lpop_fn_def)
        have "entry_ok e" using lst by (simp add: entry_ok_def)
        from meets_put [OF assms this, of NullBulkString_Marshal k s] lst 1 count show ?thesis
          by (simp add: Cons HandleLPop_def Update_put(1) [where fn = ?fn, OF u] abs_entry_def fun_upd_idem)
      next
        case 2
        then have u: "?fn (map_of (data (DB s)) k) = Panic" using lst by (simp add: lpop_fn_def go_slice_def)
        show ?thesis using assms lst 2 count by (simp add: Cons HandleLPop_def Update_put(4) [where fn = ?fn, OF u])
      next
        case 3
        then have u: "?fn (map_of (data (DB s)) k) = Ret (Some (e\<lparr>EValue := VList (drop (nat n) xs)\<rparr>), take (nat n) xs)"
          using lst lpop_pieces [OF 3(2) refl, of xs] by (simp add: lpop_fn_def Let_def)
        have "HandleLPop env req c s = reply_bytes (pop_reply (rest = []) (take (nat n) xs))
            (set_DB ((DB s)\<lparr>data := gm_set k (e\<lparr>EValue := VList (drop (nat n) xs)\<rparr>) (data (DB s))\<rparr>) s)"
          using count by (simp add: Cons HandleLPop_def Update_put(1) [where fn = ?fn, OF u] pop_reply_def split: list.split)
        then show ?thesis
          using meets_put [OF assms, of "e\<lparr>EValue := VList (drop (nat n) xs)\<rparr>" "pop_reply (rest = []) (take (nat n) xs)" k s] lst 3 count
          by (simp add: Cons abs_entry_def)
      qed
    next
      case (str e v)
      then have u: "?fn (map_of (data (DB s)) k) = Err (EText ErrorMessageStringTypeCaste)" by (simp add: lpop_fn_def)
      show ?thesis using assms str count by (simp add: Cons HandleLPop_def Update_put(3) [where fn = ?fn, OF u])
    next
      case (zset e z)
      then have u: "?fn (map_of (data (DB s)) k) = Err (EText ErrorMessageStringTypeCaste)" by (simp add: lpop_fn_def)
      show ?thesis using assms zset count by (simp add: Cons HandleLPop_def Update_put(3) [where fn = ?fn, OF u])
    qed
  qed
qed

lemma removeWaiter_added:
  assumes "map_of (waiterStore d) = Map.empty" and "addWaiter d k = (w, d')"
  shows "map_of (waiterStore (removeWaiter d' w)) = Map.empty \<and> keys_of (removeWaiter d' w) = keys_of d"
proof -
  have "waiters_of d k = []" using assms(1) by (simp add: waiters_of_def)
  then have d': "d' = d\<lparr>nextChan := Suc (nextChan d), waiterStore := gm_set k [w] (waiterStore d)\<rparr>"
    and w: "w = \<lparr>WChan = nextChan d, WKey = k\<rparr>"
    using assms(2) by (auto simp: addWaiter_def Let_def)
  have "waiters_of d' k = [w]" by (simp add: d' waiters_of_def)
  then have "removeWaiter d' w = d'\<lparr>waiterStore := gm_del k (waiterStore d')\<rparr>"
    by (simp add: removeWaiter_def w delete_at_def)
  then show ?thesis using assms(1) by (simp add: d')
qed

lemma meets_wait:
  assumes "idle (DB s)" and "addWaiter (DB s) k = (w, d)" and "\<And>e. map_of (data (DB s)) k = Some e \<Longrightarrow> \<not> has_elements e"
  shows "meets (Ret (Wait w t), set_DB d s)
    (if f64_eq t f64_zero then (Panic, keys_of (DB s)) else (Ret NullArray_Marshal, keys_of (DB s)))"
proof -
  note r = removeWaiter_added [OF _ assms(2)]
  have "keys_of d = keys_of (DB s)" using assms(2) by (auto simp: addWaiter_def Let_def)
  moreover have "store_ok d" using store_ok_addWaiter [of "DB s" k] assms by (simp add: idle_def)
  then have "store_ok (removeWaiter d w)" by (rule store_ok_removeWaiter)
  ultimately show ?thesis
    using r assms(1) by (simp add: meets_def outcome_def resolve_timeout_def idle_def blpop_reply_def)
qed

lemma HandleBLPop_meets:
  assumes "idle (DB s)"
  shows "meets (HandleBLPop env req c s) (spec_blpop (Lib env) (Arguments req) (keys_of (DB s)))"
proof (cases "\<exists>k t rest. Arguments req = k # t # rest")
  case True
  then obtain k a rest where args: "Arguments req = k # a # rest" by blast
  show ?thesis
  proof (cases "ParseFloat32 (Lib env) a")
    case None
    then show ?thesis using assms by (simp add: args HandleBLPop_def)
  next
    case (Some t)
    obtain w d where w: "addWaiter (DB s) k = (w, d)" by fastforce
    from assms show ?thesis
    proof (cases rule: keys_of_cases [where k = k])
      case absent
      then show ?thesis using meets_wait [OF assms w, of t] Some by (simp add: args HandleBLPop_def BLPOP_def w)
    next
      case (lst e xs)
      show ?thesis
      proof (cases xs)
        case Nil
        then show ?thesis using meets_wait [OF assms w, of t] Some lst
          by (simp add: args HandleBLPop_def BLPOP_def w has_elements_def)
      next
        case (Cons y ys)
        then show ?thesis
          using meets_put [OF assms, of "e\<lparr>EValue := VList ys\<rparr>" "blpop_reply \<lparr>BKey = k, BValue = y\<rparr>" k s] Some lst
          by (simp add: args HandleBLPop_def BLPOP_def abs_entry_def)
      qed
    qed (use assms Some in \<open>simp_all add: args HandleBLPop_def BLPOP_def\<close>)
  qed
next
  case False
  then show ?thesis
    using assms by (cases "Arguments req" rule: remdups_adj.cases) (auto simp: HandleBLPop_def)
qed

lemma ZAdd_meets:
  assumes "idle (DB s)" and "clean_pairs ps"
  shows "meets (case ZAdd coins (DB s) k ps of
      (Ret n, d) \<Rightarrow> reply_bytes (Integer_Marshal n) (set_DB d s) | (Err e, d) \<Rightarrow> (Err e, set_DB d s) | (Panic, d) \<Rightarrow> (Panic, set_DB d s))
    (spec_add k ps (keys_of (DB s)))"
proof -
  have nan: "\<And>m sc. (m, sc) \<in> set ps \<Longrightarrow> \<not> f64_nan sc" and dist: "distinct (map fst ps)"
    using assms(2) by (auto simp: clean_pairs_def)
  from assms(1) show ?thesis
  proof (cases rule: keys_of_cases [where k = k])
    case absent
    obtain z where z: "zadd_new coins 0 empty_zset ps = Some z" "zset_ok z" "map_of (HashMap z) = map_of (rev ps)"
      using zadd_new_spec [OF zset_ok_empty, where ps = ps and coins = coins and j = 0] nan dist
      by (auto simp: empty_zset_def)
    have card: "card (fst ` set ps) = length ps" using distinct_card [OF dist] by simp
    show ?thesis
      using meets_put [OF assms(1), of "\<lparr>EType = EntryTypeSortedSet, EValue = VZSet z, ExpireAt = zero_time\<rparr>"
          "Integer_Marshal (int (length ps))" k s] absent z card
      by (simp add: ZAdd_def Update_def zadd_fn_def spec_add_def empty_zset_def abs_entry_def)
  next
    case (zset e z)
    obtain z' where z': "zadd_existing coins 0 z 0 ps = Some (z', int (card (new_members (map_of (HashMap z)) ps)))"
        "zset_ok z'" "map_of (HashMap z') = map_of (HashMap z) ++ map_of (rev ps)"
      using zadd_existing_spec [OF zset(4), where ps = ps and coins = coins and j = 0 and added = 0] nan by auto
    show ?thesis
      using meets_put [OF assms(1), of "e\<lparr>EValue := VZSet z'\<rparr>" "Integer_Marshal (int (card (new_members (map_of (HashMap z)) ps)))" k s]
        zset z'
      by (simp add: ZAdd_def Update_def zadd_fn_def spec_add_def abs_entry_def new_members_def)
  next
    case (str e v)
    then show ?thesis using assms(1) by (simp add: ZAdd_wrong_type [of _ _ e] spec_add_def)
  next
    case (lst e xs)
    then show ?thesis using assms(1) by (simp add: ZAdd_wrong_type [of _ _ e] spec_add_def)
  qed
qed

lemma HandleZAdd_meets:
  assumes "idle (DB s)" and "\<forall>ps. zadd_pairs (Lib env) (tl (Arguments req)) = Ret ps \<longrightarrow> clean_pairs ps"
    and "name = Command req"
  shows "meets (HandleZAdd env req c s) (spec_zadd (Lib env) name (Arguments req) (keys_of (DB s)))"
proof (cases "Arguments req")
  case Nil
  then show ?thesis using assms(1) by (simp add: HandleZAdd_def)
next
  case (Cons k args)
  have pairs: "length args mod 2 = 0 \<Longrightarrow> spec_pairs (Lib env) args = zadd_pairs (Lib env) args"
    using spec_pairs_zadd by simp
  show ?thesis
  proof (cases "zadd_pairs (Lib env) args")
    case (Ret ps)
    then have "clean_pairs ps" using assms(2) Cons by simp
    from ZAdd_meets [OF assms(1) this, of "Coins env" k] Ret assms(1,3) show ?thesis
      by (simp add: Cons HandleZAdd_def pairs)
  qed (use assms(1,3) in \<open>simp_all add: Cons HandleZAdd_def pairs\<close>)
qed

lemma HandleZRem_meets:
  assumes "idle (DB s)"
  shows "meets (HandleZRem env req c s) (spec_zrem (Arguments req) (keys_of (DB s)))"
proof (cases "\<exists>k m rest. Arguments req = k # m # rest")
  case True
  then obtain k m rest where args: "Arguments req = k # m # rest" by blast
  let ?fn = "zrem_fn m"
  from assms show ?thesis
  proof (cases rule: keys_of_cases [where k = k])
    case absent
    then have u: "?fn (map_of (data (DB s)) k) = Ret (None, 0)" by (simp add: zrem_fn_def)
    show ?thesis using assms absent by (simp add: args HandleZRem_def Update_put(2) [where fn = ?fn, OF u])
  next
    case (zset e z)
    show ?thesis
    proof (cases "map_of (HashMap z) m")
      case None
      then have u: "?fn (map_of (data (DB s)) k) = Ret (Some e, 0)" using zset by (simp add: zrem_fn_def)
      have "entry_ok e" using zset by (simp add: entry_ok_def)
      from meets_put [OF assms this, of "Integer_Marshal 0" k s] zset None show ?thesis
        by (simp add: args HandleZRem_def Update_put(1) [where fn = ?fn, OF u] abs_entry_def fun_upd_idem)
    next
      case (Some sc)
      obtain sl where sl: "Delete (ZSkipList z) m sc = Some (True, sl)"
          "zset_ok (z\<lparr>HashMap := gm_del m (HashMap z), ZSkipList := sl\<rparr>)" (is "zset_ok ?z")
        using zset_ok_delete [OF zset(4) Some] by blast
      have u: "?fn (map_of (data (DB s)) k) = Ret (Some (e\<lparr>EValue := VZSet ?z\<rparr>), 1)" using zset Some sl(1) by (simp add: zrem_fn_def)
      show ?thesis
        using meets_put [OF assms, of "e\<lparr>EValue := VZSet ?z\<rparr>" "Integer_Marshal 1" k s] zset Some sl(2)
        by (simp add: args HandleZRem_def Update_put(1) [where fn = ?fn, OF u] abs_entry_def)
    qed
  next
    case (str e v)
    then have u: "?fn (map_of (data (DB s)) k) = Err (ESimple ERR ErrorMessageWrongType)" by (simp add: zrem_fn_def)
    show ?thesis using assms str by (simp add: args HandleZRem_def Update_put(3) [where fn = ?fn, OF u])
  next
    case (lst e xs)
    then have u: "?fn (map_of (data (DB s)) k) = Err (ESimple ERR ErrorMessageWrongType)" by (simp add: zrem_fn_def)
    show ?thesis using assms lst by (simp add: args HandleZRem_def Update_put(3) [where fn = ?fn, OF u])
  qed
next
  case False
  then show ?thesis
    using assms by (cases "Arguments req" rule: remdups_adj.cases) (auto simp: HandleZRem_def)
qed

lemma HandleGeoAdd_meets:
  assumes "idle (DB s)" and "4 \<le> length (Arguments req)"
  shows "meets (HandleGeoAdd env req c s) (spec_geoadd (Lib env) (Arguments req) (keys_of (DB s)))"
proof -
  obtain k lon lat m rest where args: "Arguments req = k # lon # lat # m # rest"
    using length_ge_cases(4) [OF assms(2)] by blast
  have "clean_pairs [(m, f64_of_uint n)]" for n by (simp add: clean_pairs_def f64_of_uint_no_nan)
  from ZAdd_meets [OF assms(1) this, of "Coins env" k] show ?thesis
    using assms(1) by (auto simp: args HandleGeoAdd_def Let_def split: option.split)
qed

subsection \<open>Execute meets the specification\<close>

lemmas write_handlers_meet = HandleSet_meets HandleINCR_meets HandleRPush_meets HandleLPush_meets HandleLPop_meets
  HandleBLPop_meets HandleZAdd_meets HandleZRem_meets HandleGeoAdd_meets

lemma handler_meets:
  assumes "CommandHandlers (Command req) = Some cmd" and "IsWrite cmd" and "arity_ok cmd (Arguments req)"
    and "idle (DB s)" and "clean_request (Lib env) req"
  shows "meets (Handler cmd env req c s) (spec_write env req (keys_of (DB s)))"
proof -
  have "(Command req, cmd) \<in> set command_table" using map_of_SomeD assms(1) by (fastforce simp: CommandHandlers_def)
  moreover have "4 \<le> length (Arguments req)" if "MinArgs cmd = 4" using arity_min [OF assms(3)] that by simp
  moreover have "\<forall>ps. zadd_pairs (Lib env) (tl (Arguments req)) = Ret ps \<longrightarrow> clean_pairs ps" if "Command req = ZADD"
    using assms(5) that by (simp add: clean_request_def)
  ultimately show ?thesis
    using assms(2,4) unfolding command_table_def set_simps insert_iff empty_iff
    by (elim disjE) (simp_all add: spec_write_def Let_def write_handlers_meet, simp_all add: command_names write_handlers_meet)
qed

lemma Execute_meets:
  assumes "CommandHandlers (Command req) = Some cmd" and "IsWrite cmd" and "arity_ok cmd (Arguments req)"
    and "dispatched req c s" and "idle (DB s)" and "clean_request (Lib env) req"
    and "Execute env req c s = (r, s1)"
  shows "spec_write env req (keys_of (DB s)) = (r, keys_of (DB s1)) \<and> (r \<noteq> Panic \<longrightarrow> idle (DB s1))"
proof -
  obtain key rest where args: "Arguments req = key # rest" using write_commands_have_key [OF assms(1-3)] by (cases "Arguments req") auto
  have start: "Execute_start env req c s = (True, Handler cmd env req c s)"
    using assms(1,2,4) by (cases rule: Execute_start_cases [of req c s env]) (simp_all add: dispatched_def)
  note m = handler_meets [OF assms(1-3,5,6), of c]
  show ?thesis
    using m assms(7) start args
    by (auto simp: meets_def outcome_def Execute_def Execute_finish_def prod_eq_iff
        split: prod.splits go_result.splits reply.splits option.splits)
qed

text \<open>The environment enters only through the library functions and, for \<open>SET\<close>, through the deadline that the clock gives.\<close>

definition same_effect :: "env \<Rightarrow> env \<Rightarrow> Request \<Rightarrow> bool" where
  "same_effect env env' req \<longleftrightarrow> Lib env' = Lib env \<and>
     (Command req = SET \<longrightarrow> set_opts env' zero_time (drop 2 (Arguments req)) = set_opts env zero_time (drop 2 (Arguments req)))"

lemma spec_write_env: "same_effect env env' req \<Longrightarrow> spec_write env' req = spec_write env req"
  by (auto simp: same_effect_def spec_write_def Let_def spec_deadline_set_opts)

lemma same_effect_clock: "Lib env' = Lib env \<Longrightarrow> Now env' = Now env \<Longrightarrow> same_effect env env' req"
proof -
  assume env: "Lib env' = Lib env" "Now env' = Now env"
  have "set_opts env' t opts = set_opts env t opts" for t opts
    by (induction opts arbitrary: t rule: induct_list012) (simp_all add: env Let_def split: option.split)
  with env show ?thesis by (simp add: same_effect_def)
qed

lemma same_effect_plain: "Lib env' = Lib env \<Longrightarrow> Command req \<noteq> SET \<or> length (Arguments req) \<le> 2 \<Longrightarrow> same_effect env env' req"
  by (auto simp: same_effect_def)

text \<open>Two runs of the same write command, on stores with the same abstract key space.\<close>

lemma Execute_agrees:
  assumes "CommandHandlers (Command req) = Some cmd" and "IsWrite cmd" and "arity_ok cmd (Arguments req)"
    and "clean_request (Lib env) req" and "same_effect env env' req"
    and "dispatched req c s" and "idle (DB s)" and "Execute env req c s = (r, s1)"
    and "dispatched req c' s'" and "idle (DB s')" and "keys_of (DB s') = keys_of (DB s)" and "Execute env' req c' s' = (r', s1')"
  shows "r' = r \<and> keys_of (DB s1') = keys_of (DB s1) \<and> (r \<noteq> Panic \<longrightarrow> idle (DB s1) \<and> idle (DB s1'))"
proof -
  have "clean_request (Lib env') req" using assms(4,5) by (simp add: same_effect_def)
  from Execute_meets [OF assms(1-3,9,10) this assms(12)] Execute_meets [OF assms(1-3,6,7,4,8)]
  show ?thesis using assms(11) spec_write_env [OF assms(5)] by simp
qed

subsection \<open>Properties\<close>

text \<open>C5. A write command of the table that passes the checks in front of its handler, on a store with its invariant on which no
  client waits in \<^verbatim>\<open>BLPOP\<close>, refines its abstract specification, on every branch of its handler; only a \<^verbatim>\<open>ZADD\<close> that names a
  member twice or gives a NaN score is excluded. The reply, error or panic and the new key space are those that
  \<open>spec_write\<close> computes from the old key space, in which a list is a list and a sorted set a finite map; and unless the command panics, the store
  is consistent afterwards and again nobody waits. (Pushes that serve waiting clients are the subject of
  \<open>push_serves_waiters_in_order\<close>.)\<close>

theorem write_commands_refine_specification:
  assumes "CommandHandlers (Command req) = Some cmd" and "IsWrite cmd" and "dispatched req c s"
    and "idle (DB s)" and "clean_request (Lib env) req" and "Execute env req c s = (r, s1)"
  shows "spec_write env req (keys_of (DB s)) = (r, keys_of (DB s1)) \<and> (r \<noteq> Panic \<longrightarrow> idle (DB s1))"
proof -
  have "arity_ok cmd (Arguments req)" using assms(1,3) by (simp add: dispatched_def well_formed_def)
  from Execute_meets [OF assms(1,2) this assms(3-6)] show ?thesis .
qed

theorem write_commands_refine_specification_witness:
  "spec_write (sample_env 1) \<lparr>Command = LPUSH, Arguments = [''l'', ''a'', ''b'']\<rparr> (keys_of New) =
     (Ret (Integer_Marshal 2), keys_of (DB (snd (Execute (sample_env 1) \<lparr>Command = LPUSH, Arguments = [''l'', ''a'', ''b'']\<rparr> 1 sample_server))))"
proof -
  let ?r = "\<lparr>Command = LPUSH, Arguments = [''l'', ''a'', ''b'']\<rparr>"
  have h: "CommandHandlers (Command ?r) = Some \<lparr>Handler = HandleLPush, MinArgs = 2, MaxArgs = -1, IsWrite = True\<rparr>"
    by (simp add: CommandHandlers_def command_table_def command_names)
  have d: "dispatched ?r 1 sample_server" by code_simp
  have s: "DB sample_server = New" by (simp add: sample_server_def blank_server_def)
  have i: "idle (DB sample_server)" using store_ok_New by (simp add: s idle_def New_def)
  have c: "clean_request (Lib (sample_env 1)) ?r" by (simp add: clean_request_def command_names)
  have "fst (Execute (sample_env 1) ?r 1 sample_server) = Ret (Integer_Marshal 2)" by code_simp
  then have e: "Execute (sample_env 1) ?r 1 sample_server = (Ret (Integer_Marshal 2), snd (Execute (sample_env 1) ?r 1 sample_server))"
    by (simp add: prod_eq_iff)
  show ?thesis using write_commands_refine_specification [OF h _ d i c e] by (simp add: s)
qed

end
