(* ===== verification/StartupCorrect.thy ===== *)
theory StartupCorrect
  imports Startup ConnectionCorrect WriteSpec
begin

text \<open>
  Components together: what a master that writes its log finds again when it starts, what a replica computes from
  the bytes its master sends, and the cases in which a start fails.
\<close>

subsection \<open>The names of the commands\<close>

definition is_lower :: "char \<Rightarrow> bool" where
  "is_lower c \<longleftrightarrow> 97 \<le> (of_char c :: nat) \<and> (of_char c :: nat) \<le> 122"

lemma lower_upper:
  assumes "is_lower c"
  shows "lower_char (upper_char c) = c" and "is_ascii c" and "is_ascii (upper_char c)"
proof -
  have c: "97 \<le> (of_char c :: nat)" "(of_char c :: nat) \<le> 122" using assms by (simp_all add: is_lower_def)
  then have u: "upper_char c = char_of (of_char c - 32 :: nat)" by (simp add: upper_char_def)
  then have n: "(of_char (upper_char c) :: nat) = of_char c - 32" using c by simp
  have "65 \<le> (of_char c :: nat) - 32 \<and> of_char c - 32 \<le> (90 :: nat)" using c by linarith
  then have "lower_char (upper_char c) = char_of ((of_char c - 32) + 32 :: nat)" unfolding lower_char_def n by simp
  also have "\<dots> = c" using c by simp
  finally show "lower_char (upper_char c) = c" .
  show "is_ascii c" "is_ascii (upper_char c)" using c n by (simp_all add: is_ascii_def)
qed

lemma command_names_lower: "list_all (\<lambda>n. list_all is_lower n \<and> length n < 12 \<and> n \<noteq> []) (map fst command_table)"
  by (simp add: command_table_def command_names is_lower_def)

lemma command_name_case:
  assumes "CommandHandlers name = Some cmd"
  shows "ToLower lib (ToUpper lib name) = name \<and> length (ToUpper lib name) < 2 ^ 31 \<and> name \<noteq> []"
proof (rule table_rows [OF assms])
  fix row assume "row \<in> set command_table"
  then have n: "\<forall>c \<in> set (fst row). is_lower c" "length (fst row) < 12" "fst row \<noteq> []"
    using command_names_lower by (auto simp: list_all_iff)
  then have "map (lower_char \<circ> upper_char) (fst row) = fst row" by (intro map_idI) (simp add: lower_upper)
  moreover have "list_all is_ascii (fst row)" "list_all is_ascii (map upper_char (fst row))"
    using n(1) lower_upper by (auto simp: list_all_iff)
  ultimately show "ToLower lib (ToUpper lib (fst row)) = fst row \<and> length (ToUpper lib (fst row)) < 2 ^ 31 \<and> fst row \<noteq> []"
    using n(2,3) by (simp add: ToLower_def ToUpper_def)
qed

text \<open>A request as it is logged and replicated, and the condition that it is a write command that fits the wire format.\<close>

definition wire_cmd :: "golib \<Rightarrow> Request \<Rightarrow> string list" where
  "wire_cmd lib req = ToUpper lib (Command req) # Arguments req"

definition write_request :: "Request \<Rightarrow> bool" where
  "write_request req \<longleftrightarrow>
     (case CommandHandlers (Command req) of
        None \<Rightarrow> False
      | Some cmd \<Rightarrow> IsWrite cmd \<and> arity_ok cmd (Arguments req) \<and> (\<forall>a \<in> set (Arguments req). length a < 2 ^ 31) \<and>
          length (Arguments req) < 2 ^ 62)"

lemma write_requestD:
  assumes "write_request req"
  obtains cmd where "CommandHandlers (Command req) = Some cmd" "IsWrite cmd" "arity_ok cmd (Arguments req)"
    "valid_cmd (wire_cmd lib req)" "ToLower lib (ToUpper lib (Command req)) = Command req" "Arguments req \<noteq> []"
proof -
  obtain cmd where cmd: "CommandHandlers (Command req) = Some cmd" "IsWrite cmd" "arity_ok cmd (Arguments req)"
      "\<forall>a \<in> set (Arguments req). length a < 2 ^ 31" "length (Arguments req) < 2 ^ 62"
    using assms by (auto simp: write_request_def split: option.splits)
  from command_name_case [OF cmd(1), of lib] cmd(4,5) have "valid_cmd (wire_cmd lib req)"
    by (simp add: valid_cmd_def valid_args_def wire_cmd_def)
  with that cmd(1-3) command_name_case [OF cmd(1), of lib] write_commands_have_key [OF cmd(1-3)] show thesis by blast
qed

lemma write_request_name:
  assumes "write_request req"
  shows "\<lparr>Command = ToLower lib (ToUpper lib (Command req)), Arguments = Arguments req\<rparr> = req"
  using assms by (rule write_requestD [where lib = lib]) simp

text \<open>The role of a node, its configuration, its log and its files; clients may come and go.\<close>

definition settings :: "Server \<Rightarrow> NodeConfig \<times> Config \<times> AOFLocal option \<times> fs" where
  "settings s = (Node s, Cfg s, AOF s, FS s)"

lemma settings_of_frame: "frame s' = frame s \<Longrightarrow> settings s' = settings s"
  by (simp add: frame_def settings_def)

subsection \<open>A session of write commands\<close>

text \<open>One command after the other, each with the environment and the client it comes with: what a connection does for a request
  once it has been read, less the reply, which is to execute it, log it and send it to the replicas. \<open>None\<close> if a command fails.\<close>

type_synonym session = "(env \<times> int \<times> Request) list"

fun write_session :: "session \<Rightarrow> Server \<Rightarrow> Server option" where
  "write_session [] s = Some s"
| "write_session ((env, c, req) # ses) s =
     (case Execute env req c s of
        (Ret b, s1) \<Rightarrow> (case propagate env req s1 of (Ret u, s2) \<Rightarrow> write_session ses s2 | _ \<Rightarrow> None)
      | _ \<Rightarrow> None)"

definition serving :: "int \<Rightarrow> Server \<Rightarrow> bool" where
  "serving c s \<longleftrightarrow> Mode (client s c) \<noteq> ClientModeTransaction \<and> (Role (Node s) = NodeRoleReplica \<longrightarrow> ReplicaReady (Node s))"

text \<open>A session that a server can run: write commands that name no member twice and come from clients outside a transaction.\<close>

definition good_session :: "golib \<Rightarrow> session \<Rightarrow> Server \<Rightarrow> bool" where
  "good_session lib ses s \<longleftrightarrow> idle (DB s) \<and>
     (\<forall>(env, c, req) \<in> set ses. write_request req \<and> clean_request lib req \<and> Lib env = lib \<and> serving c s)"

text \<open>The session has the same meaning in another environment: without expiry options, whatever its clock.\<close>

definition repeatable :: "session \<Rightarrow> env \<Rightarrow> bool" where
  "repeatable ses env' \<longleftrightarrow> (\<forall>(env, c, req) \<in> set ses. same_effect env env' req)"

abbreviation requests :: "session \<Rightarrow> Request list" where
  "requests \<equiv> map (\<lambda>(env, c, req). req)"

lemma serving_cong: "Node s' = Node s \<Longrightarrow> client s' = client s \<Longrightarrow> serving d s' \<longleftrightarrow> serving d s"
  by (simp add: serving_def)

lemma serving_dispatched: "write_request req \<Longrightarrow> serving c s \<Longrightarrow> dispatched req c s"
  by (auto simp: write_request_def serving_def dispatched_def well_formed_def loading_def queues_def split: option.splits)

lemma Execute_serving:
  assumes "write_request req" and "serving c s" and "Execute env req c s = (Ret b, s1)"
  shows "(\<forall>d. serving d s \<longrightarrow> serving d s1) \<and> frame s1 = frame s \<and> wire s1 = wire s"
proof -
  obtain cmd key rest where cmd: "CommandHandlers (Command req) = Some cmd" "IsWrite cmd" "Arguments req = key # rest"
    using assms(1) write_requestD [of req undefined] by (metis neq_Nil_conv)
  have s1: "s1 = touch key (set_DB (DB s1) s)"
    using Execute_write [OF serving_dispatched [OF assms(1,2)] cmd(1,2) assms(3) cmd(3)] .
  have "Mode (client s1 d) = Mode (client s d)" for d
    by (subst s1) (simp add: client_touch)
  moreover have f: "frame s1 = frame s" by (subst s1) simp
  moreover have "wire (fold mark_dirty ws t) = wire t" for ws t
    by (induction ws arbitrary: t) (simp_all add: mark_dirty_def set_client_def)
  then have "wire s1 = wire s" by (subst s1) (simp add: touch_def set_DB_def)
  ultimately show ?thesis using assms(2) by (simp add: serving_def frame_def)
qed

lemma write_meets:
  assumes "write_request req" and "clean_request (Lib env) req" and "serving c s" and "idle (DB s)" and "Execute env req c s = (r, s1)"
  shows "spec_write env req (keys_of (DB s)) = (r, keys_of (DB s1)) \<and> (r \<noteq> Panic \<longrightarrow> idle (DB s1))"
proof -
  obtain cmd where "CommandHandlers (Command req) = Some cmd" "IsWrite cmd" "arity_ok cmd (Arguments req)"
    using assms(1) write_requestD [of req undefined] by metis
  from Execute_meets [OF this serving_dispatched [OF assms(1,3)] assms(4,2,5)] show ?thesis .
qed

text \<open>The same command on another server with the same abstract key space.\<close>

lemma Execute_again:
  assumes "write_request req" and "clean_request (Lib env) req" and "same_effect env env' req"
    and "serving c s" and "idle (DB s)" and "Execute env req c s = (r, s1)" and "r \<noteq> Panic"
    and "serving c' t" and "idle (DB t)" and "keys_of (DB t) = keys_of (DB s)"
  obtains t1 where "Execute env' req c' t = (r, t1)" "keys_of (DB t1) = keys_of (DB s1)" "idle (DB s1)" "idle (DB t1)"
proof -
  obtain cmd where cmd: "CommandHandlers (Command req) = Some cmd" "IsWrite cmd" "arity_ok cmd (Arguments req)"
    using assms(1) write_requestD [of req undefined] by metis
  obtain r' t1 where t1: "Execute env' req c' t = (r', t1)" by fastforce
  from Execute_agrees [OF cmd assms(2,3) serving_dispatched [OF assms(1,4)] assms(5,6) serving_dispatched [OF assms(1,8)] assms(9,10) t1]
  show thesis using that t1 assms(7) by simp
qed

subsection \<open>The log of a session\<close>

definition logging :: "AOFLocal \<Rightarrow> Server \<Rightarrow> bool" where
  "logging a s \<longleftrightarrow> Appendonly (Cfg s) = TypeAppendOnlyYes \<and> AOF s = Some a \<and> aof_file a"

lemma write_all_frame [simp]:
  "Node (write_all env cs b s) = Node s" "Cfg (write_all env cs b s) = Cfg s" "AOF (write_all env cs b s) = AOF s"
  "FS (write_all env cs b s) = FS s" "DB (write_all env cs b s) = DB s"
proof -
  have "frame (write_all env cs b s) = frame s" by (induction cs arbitrary: s) simp_all
  then show "Node (write_all env cs b s) = Node s" "Cfg (write_all env cs b s) = Cfg s" "AOF (write_all env cs b s) = AOF s"
    "FS (write_all env cs b s) = FS s" by (simp_all add: frame_def)
qed (simp add: write_all_DB)

lemma client_write_all [simp]: "client (write_all env cs b s) = client s"
  by (induction cs arbitrary: s) simp_all

lemma client_FS [simp]: "client (s\<lparr>FS := fs\<rparr>) = client s"
  by (simp add: client_def fun_eq_iff)

text \<open>A write command either finds no log where it needs one, or is appended and sent to the replicas.\<close>

lemma propagate_write:
  assumes "write_request req" and "propagate env req s = (r, s')"
  obtains (no_log) "Appendonly (Cfg s) = TypeAppendOnlyYes" "AOF s = None" "r = Panic" "s' = s"
  | (logged) a where "Appendonly (Cfg s) = TypeAppendOnlyYes" "AOF s = Some a" "r = Ret ()"
      "s' = replicate_request env req (s\<lparr>FS := snd (Append (Faults env) a (bulk_array (wire_cmd (Lib env) req)) (FS s))\<rparr>)"
  | (unlogged) "Appendonly (Cfg s) \<noteq> TypeAppendOnlyYes" "r = Ret ()" "s' = replicate_request env req s"
proof -
  obtain cmd where "CommandHandlers (Command req) = Some cmd" "IsWrite cmd"
    using assms(1) write_requestD [of req undefined] by blast
  with assms(2) that show thesis
    by (cases "AOF s") (auto simp: propagate_def aof_append_def wire_cmd_def split: if_splits)
qed

lemma replicate_request_frame [simp]:
  "Node (replicate_request env req s) = Node s" "Cfg (replicate_request env req s) = Cfg s"
  "AOF (replicate_request env req s) = AOF s" "FS (replicate_request env req s) = FS s"
  "DB (replicate_request env req s) = DB s" "client (replicate_request env req s) = client s"
  by (simp_all add: replicate_request_def)

lemma log_path_other:
  "p \<noteq> aof_filePath a \<Longrightarrow> map_of (snd (Append flt a payload fs)) p = map_of fs p"
  by (auto simp: Append_def Let_def split: option.splits prod.splits)

text \<open>The session appends its commands to the log, in order, and touches no other file.\<close>

lemma write_session_Cons:
  assumes "write_session ((env, c, req) # ses) s = Some s'" and "good_session lib ((env, c, req) # ses) s"
  obtains b s1 s2 where "write_request req" "clean_request (Lib env) req" "serving c s" "idle (DB s)" "Lib env = lib"
    "Execute env req c s = (Ret b, s1)" "propagate env req s1 = (Ret (), s2)"
    "write_session ses s2 = Some s'" "good_session lib ses s2" "frame s1 = frame s" "wire s1 = wire s" "DB s2 = DB s1"
    "Node s2 = Node s"
proof -
  from assms(2) have g: "write_request req" "clean_request (Lib env) req" "serving c s" "idle (DB s)" "Lib env = lib"
    by (auto simp: good_session_def)
  from assms(1) obtain b s1 s2 where x: "Execute env req c s = (Ret b, s1)" "propagate env req s1 = (Ret (), s2)"
      "write_session ses s2 = Some s'" by (auto split: prod.splits go_result.splits)
  note e = Execute_serving [OF g(1,3) x(1)]
  from propagate_write [OF g(1) x(2)] have p: "Node s2 = Node s1 \<and> client s2 = client s1 \<and> DB s2 = DB s1"
    by cases simp_all
  have "same_effect env env req" by (simp add: same_effect_def)
  from Execute_again [OF g(1,2) this g(3,4) x(1) _ g(3,4) refl] have "idle (DB s1)" by blast
  moreover have "serving d s2" if "serving d s" for d using that e p serving_cong [of s2 s1 d] by blast
  ultimately have "good_session lib ses s2" using assms(2) p by (auto simp: good_session_def)
  then show thesis using that [OF g x] e p by (simp add: frame_def)
qed

lemma write_session_log:
  assumes "good_session lib ses s" and "write_session ses s = Some s'" and "logging a s"
    and "\<forall>item \<in> set ses. Faults (fst item) = no_faults"
  shows "logging a s' \<and> log_content (FS s') a = log_content (FS s) a @ log_of (map (wire_cmd lib) (requests ses)) \<and>
    (\<forall>p. p \<noteq> aof_filePath a \<longrightarrow> map_of (FS s') p = map_of (FS s) p)"
  using assms
proof (induction ses arbitrary: s)
  case (Cons item ses)
  obtain env c req where item: "item = (env, c, req)" by (metis prod_cases3)
  from Cons.prems(1,2) obtain s1 s2 where x: "write_request req" "Lib env = lib" "propagate env req s1 = (Ret (), s2)"
      "write_session ses s2 = Some s'" "good_session lib ses s2" "frame s1 = frame s"
    unfolding item by (metis write_session_Cons)
  have flt: "Faults env = no_faults" using Cons.prems(4) item by simp
  have s1: "Cfg s1 = Cfg s" "AOF s1 = AOF s" "FS s1 = FS s" using x(6) by (simp_all add: frame_def)
  from propagate_write [OF x(1,3)]
  have s2: "logging a s2 \<and> log_content (FS s2) a = log_content (FS s) a @ bulk_array (wire_cmd lib req) \<and>
      (\<forall>p. p \<noteq> aof_filePath a \<longrightarrow> map_of (FS s2) p = map_of (FS s) p)"
    using Cons.prems(3) flt s1 x(2)
    by cases (simp_all add: logging_def log_content_Append log_path_other)
  with Cons.IH [of s2] Cons.prems(4) x(4,5) show ?case by (simp add: item)
qed simp

lemma write_session_idle:
  assumes "good_session lib ses s" and "write_session ses s = Some s'"
  shows "idle (DB s') \<and> (\<forall>d. serving d s \<longrightarrow> serving d s')"
  using assms
proof (induction ses arbitrary: s)
  case Nil
  then show ?case by (simp add: good_session_def)
next
  case (Cons item ses)
  obtain env c req where item: "item = (env, c, req)" by (metis prod_cases3)
  from Cons.prems obtain b s1 s2 where x: "write_request req" "serving c s" "Execute env req c s = (Ret b, s1)"
      "propagate env req s1 = (Ret (), s2)" "write_session ses s2 = Some s'" "good_session lib ses s2"
    unfolding item by (metis write_session_Cons)
  from propagate_write [OF x(1,4)] have "Node s2 = Node s1 \<and> client s2 = client s1" by cases simp_all
  then have "serving d s2" if "serving d s" for d
    using that Execute_serving [OF x(1-3)] serving_cong [of s2 s1 d] by blast
  with Cons.IH [OF x(6,5)] show ?case by blast
qed

subsection \<open>Replaying a session\<close>

lemma replay_command_fresh:
  obtains i t0 where "new_client TypeClientInternal 0 t = (i, t0)" "settings t0 = settings t" "DB t0 = DB t"
    "Role (Node t) = NodeRoleReplica \<longrightarrow> ReplicaReady (Node t) \<Longrightarrow> serving i t0"
proof -
  obtain i t0 where t0: "new_client TypeClientInternal 0 t = (i, t0)" by fastforce
  then have "settings t0 = settings t" "DB t0 = DB t" "Mode (client t0 i) = ClientModeNormal"
    by (auto simp: new_client_def nextClientID_def Let_def settings_def client_def set_client_def)
  with t0 that show thesis by (simp add: serving_def settings_def ClientModeNormal_def ClientModeTransaction_def)
qed

lemma replay_session:
  assumes "good_session lib ses s" and "write_session ses s = Some s'" and "repeatable ses env'"
    and "idle (DB t)" and "keys_of (DB t) = keys_of (DB s)" and "Role (Node t) = NodeRoleReplica \<longrightarrow> ReplicaReady (Node t)"
  shows "\<exists>t'. replay_all (replay_command env') (map (wire_cmd lib) (requests ses)) t = (Ret (), t') \<and>
    keys_of (DB t') = keys_of (DB s') \<and> idle (DB t') \<and> settings t' = settings t"
  using assms
proof (induction ses arbitrary: s t)
  case (Cons item ses)
  obtain env c req where item: "item = (env, c, req)" by (metis prod_cases3)
  have same: "same_effect env env' req" using Cons.prems(3) item by (simp add: repeatable_def)
  from Cons.prems(1,2) obtain b s1 s2 where x: "write_request req" "clean_request (Lib env) req" "serving c s" "idle (DB s)"
      "Lib env = lib" "Execute env req c s = (Ret b, s1)" "write_session ses s2 = Some s'" "good_session lib ses s2" "DB s2 = DB s1"
    unfolding item by (metis write_session_Cons)
  obtain i t0 where t0: "new_client TypeClientInternal 0 t = (i, t0)" and t0': "settings t0 = settings t" "DB t0 = DB t" "serving i t0"
    using replay_command_fresh [of t] Cons.prems(6) by metis
  from Execute_again [OF x(1,2) same x(3,4,6) _ t0'(3)] Cons.prems(4,5) t0'(2)
  obtain t1 where t1: "Execute env' req i t0 = (Ret b, t1)" "keys_of (DB t1) = keys_of (DB s1)" "idle (DB t1)" by auto
  have "settings t1 = settings t" using settings_of_frame [OF frame_Execute [of env' req i t0]] t0'(1) t1(1) by simp
  moreover have "Lib env' = lib" using same x(5) by (simp add: same_effect_def)
  then have "replay_command env' (wire_cmd lib req) t = (Ret (), t1)"
    using t0 t1(1) write_request_name [OF x(1), of lib] by (simp add: replay_command_def wire_cmd_def)
  moreover have "repeatable ses env'" using Cons.prems(3) by (simp add: repeatable_def)
  ultimately show ?case
    using Cons.IH [OF x(8,7), of t1] Cons.prems(6) x(9) t1(2,3) by (simp add: item settings_def)
qed simp

subsection \<open>Starting again\<close>

text \<open>A dump that gives the same store for two clocks: one that is not there, for instance.\<close>

definition dump_agrees :: "(nat \<Rightarrow> int) \<Rightarrow> (nat \<Rightarrow> int) \<Rightarrow> string option \<Rightarrow> Store \<Rightarrow> bool" where
  "dump_agrees clock clock' file st \<longleftrightarrow> Load clock' file st = Load clock file st"

lemma load_dump_depends:
  assumes "Cfg t = Cfg s" and "DB t = DB s"
    and "map_of (FS t) (path_Join (Dir (Cfg s)) (Dbfilename (Cfg s))) = map_of (FS s) (path_Join (Dir (Cfg s)) (Dbfilename (Cfg s)))"
    and "dump_agrees clock clock' (map_of (FS s) (path_Join (Dir (Cfg s)) (Dbfilename (Cfg s)))) (DB s)"
  shows "\<exists>r d. load_dump clock s = (r, set_DB d s) \<and> load_dump clock' t = (r, set_DB d t)"
proof (cases "Dir (Cfg s) \<noteq> [] \<and> Dbfilename (Cfg s) \<noteq> []")
  case True
  obtain r d where "Load clock (map_of (FS s) (path_Join (Dir (Cfg s)) (Dbfilename (Cfg s)))) (DB s) = (r, d)" by fastforce
  with True assms have "load_dump clock s = (r, set_DB d s)" "load_dump clock' t = (r, set_DB d t)"
    by (simp_all add: load_dump_def dump_agrees_def)
  then show ?thesis by blast
next
  case False
  then have "load_dump clock s = (Ret (), set_DB (DB s) s)" "load_dump clock' t = (Ret (), set_DB (DB t) t)"
    using assms(1) set_DB_same(1) [of s] set_DB_same(1) [of t] by (auto simp: load_dump_def)
  with assms(2) show ?thesis by metis
qed

lemma aof_Load_log:
  assumes "aof_file a" and "log_content fs a = log_of cmds" and "\<forall>c \<in> set cmds. valid_cmd c"
    and "replay_all replay cmds st = (r, st')"
  shows "aof_Load replay no_faults fs a st = (r, st')"
  using replay_loop_log_exact [OF assms(3), of replay st] assms(1,2,4)
  by (cases r) (simp_all add: aof_Load_def no_faults_def)

text \<open>The paths of a configuration: the manifest, the log and the dump.\<close>

definition manifest_path :: "Config \<Rightarrow> string" where
  "manifest_path cfg = path_Join (path_Join (Dir cfg) (Appenddirname cfg)) (Appendfilename cfg @ ''.manifest'')"

definition log_path :: "Config \<Rightarrow> string" where
  "log_path cfg = path_Join (path_Join (Dir cfg) (Appenddirname cfg)) (Appendfilename cfg @ ''.1.incr.aof'')"

definition dump_path :: "Config \<Rightarrow> string" where
  "dump_path cfg = path_Join (Dir cfg) (Dbfilename cfg)"

definition aof_cfg :: "Config \<Rightarrow> aof_Config" where
  "aof_cfg cfg = \<lparr>cDir = Dir cfg, cAppenddirname = Appenddirname cfg, cAppendfilename = Appendfilename cfg,
     cAppendfsync = Appendfsync cfg\<rparr>"

text \<open>A configuration under which the three files are different, and a log is kept.\<close>

definition keeps_log :: "Config \<Rightarrow> bool" where
  "keeps_log cfg \<longleftrightarrow> Appendonly cfg = TypeAppendOnlyYes \<and> plain_word (Appendfilename cfg) \<and>
     distinct [manifest_path cfg, log_path cfg, dump_path cfg]"

lemma first_start:
  assumes "keeps_log cfg" and "Faults env = no_faults" and "map_of fs (manifest_path cfg) = None" and "map_of fs (log_path cfg) = None"
    and "StartMaster env clock (blank_server cfg fs st) = (Ret (), s0)"
  obtains a d fs1 where "aof_New (Lib env) no_faults fs (aof_cfg cfg) = (Ret a, fs1)" "aof_file a" "aof_filePath a = log_path cfg"
    "log_content fs1 a = []" "map_of fs1 (dump_path cfg) = map_of fs (dump_path cfg)"
    "load_dump clock (blank_server cfg fs st) = (Ret (), set_DB d (blank_server cfg fs st))"
    "s0 = (set_DB d (blank_server cfg fs1 st))\<lparr>AOF := Some a, Node := Node s0\<rparr>" "Role (Node s0) = NodeRoleMaster"
proof -
  let ?b = "blank_server cfg fs st"
  obtain a fs1 where a: "aof_New (Lib env) no_faults fs (aof_cfg cfg) = (Ret a, fs1)" "aof_file a" "aof_filePath a = log_path cfg"
      "log_content fs1 a = []" "map_of fs1 (dump_path cfg) = map_of fs (dump_path cfg)"
    using aof_New_first_files [OF refl refl refl, where cfg = "aof_cfg cfg" and fs = fs and lib = "Lib env"] assms(1,3,4)
    by (auto simp: keeps_log_def aof_cfg_def manifest_path_def log_path_def)
  obtain r d where d: "load_dump clock ?b = (r, set_DB d ?b)"
    using load_dump_depends [OF refl refl refl, where s = ?b and clock = clock and clock' = clock] by (auto simp: dump_agrees_def)
  let ?s1 = "(set_DB d ?b)\<lparr>FS := fs1, AOF := Some a\<rparr>"
  have r: "r = Ret ()" using assms(5) d by (auto simp: StartMaster_def split: prod.splits go_result.splits)
  have "aof_Load (replay_command env) no_faults fs1 a ?s1 = (Ret (), ?s1)"
    using a(2,4) by (intro aof_Load_log [where cmds = "[]"]) simp_all
  then have "load_log env (set_DB d ?b) = (Ret (), ?s1)"
    using a(1) assms(1,2) by (simp add: load_log_def set_DB_def blank_server_def keeps_log_def aof_cfg_def)
  then have "s0 = ?s1\<lparr>Node := (Node ?s1)\<lparr>ReplicationId := NewId env, ReplicationOffset := 0\<rparr>\<rparr>"
    using assms(5) d r by (simp add: StartMaster_def)
  then show thesis using that [OF a(1-5), of d] d r by (simp add: set_DB_def blank_server_def)
qed

lemma second_start:
  assumes "keeps_log cfg" and "Faults env = no_faults" and "fst (aof_New (Lib env) no_faults fs (aof_cfg cfg)) = Ret a"
    and "map_of fs (manifest_path cfg) \<noteq> None" and "aof_file a" and "log_content fs a = log_of cmds" and "\<forall>c \<in> set cmds. valid_cmd c"
    and "load_dump clock (blank_server cfg fs st) = (Ret (), set_DB d (blank_server cfg fs st))"
    and "\<And>t. DB t = d \<Longrightarrow> Role (Node t) = NodeRoleMaster \<Longrightarrow> \<exists>t'. replay_all (replay_command env) cmds t = (r, t') \<and> (r = Ret () \<longrightarrow> P (DB t'))"
  shows "\<exists>s. StartMaster env clock (blank_server cfg fs st) = (r, s) \<and> (r = Ret () \<longrightarrow> P (DB s))"
proof -
  let ?b = "blank_server cfg fs st"
  obtain fs1 where fs1: "aof_New (Lib env) no_faults fs (aof_cfg cfg) = (Ret a, fs1)"
    using assms(3) by (cases "aof_New (Lib env) no_faults fs (aof_cfg cfg)") simp
  then have log: "log_content fs1 a = log_of cmds"
    using aof_New_again_files [OF _ fs1] assms(4,6) by (simp add: aof_cfg_def manifest_path_def)
  let ?s1 = "(set_DB d ?b)\<lparr>FS := fs1, AOF := Some a\<rparr>"
  have "DB ?s1 = d" "Role (Node ?s1) = NodeRoleMaster" by (simp_all add: set_DB_def blank_server_def)
  from assms(9) [OF this] obtain t' where t': "replay_all (replay_command env) cmds ?s1 = (r, t')" "r = Ret () \<longrightarrow> P (DB t')" by blast
  from aof_Load_log [OF assms(5) log assms(7) t'(1)]
  have "load_log env (set_DB d ?b) = (r, t')"
    using fs1 assms(1,2) by (simp add: load_log_def set_DB_def blank_server_def keeps_log_def aof_cfg_def)
  with assms(8) t'(2) show ?thesis by (cases r) (simp_all add: StartMaster_def)
qed

text \<open>Clients that connect one after the other.\<close>

definition accept :: "nat list \<Rightarrow> Server \<Rightarrow> Server" where
  "accept conns s = fold (\<lambda>conn s. snd (AddClient conn s)) conns s"

lemma accept_keeps: "DB (accept conns s) = DB s \<and> settings (accept conns s) = settings s"
proof -
  have "DB (snd (AddClient conn s)) = DB s \<and> settings (snd (AddClient conn s)) = settings s" for conn s
    by (simp add: AddClient_def new_client_def nextClientID_def set_client_def settings_def Let_def)
  then show ?thesis unfolding accept_def by (induction conns arbitrary: s) simp_all
qed

text \<open>A node that has been started for the first time, with its clients, and what a later start of the same
  configuration makes of the log.\<close>

definition first_run :: "Config \<Rightarrow> env \<Rightarrow> (nat \<Rightarrow> int) \<Rightarrow> fs \<Rightarrow> Store \<Rightarrow> nat list \<Rightarrow> Server \<Rightarrow> bool" where
  "first_run cfg env clock fs st conns s \<longleftrightarrow> keeps_log cfg \<and> Faults env = no_faults \<and>
     map_of fs (manifest_path cfg) = None \<and> map_of fs (log_path cfg) = None \<and>
     (\<exists>s0. StartMaster env clock (blank_server cfg fs st) = (Ret (), s0) \<and> s = accept conns s0)"

lemma start_again:
  assumes "first_run cfg env clock fs st conns s" and "Faults env' = no_faults" and "Lib env' = Lib env"
    and "dump_agrees clock clock' (map_of fs (dump_path cfg)) st"
  obtains a where "logging a s" "log_content (FS s) a = []"
    "\<And>fs2 cmds r P. log_content fs2 a = log_of cmds \<Longrightarrow> \<forall>x \<in> set cmds. valid_cmd x \<Longrightarrow>
       \<forall>p. p \<noteq> aof_filePath a \<longrightarrow> map_of fs2 p = map_of (FS s) p \<Longrightarrow>
       (\<And>t. DB t = DB s \<Longrightarrow> Role (Node t) = NodeRoleMaster \<Longrightarrow>
          \<exists>t'. replay_all (replay_command env') cmds t = (r, t') \<and> (r = Ret () \<longrightarrow> P (DB t'))) \<Longrightarrow>
       \<exists>s2. StartMaster env' clock' (blank_server cfg fs2 st) = (r, s2) \<and> (r = Ret () \<longrightarrow> P (DB s2))"
proof -
  obtain s0 where cfg: "keeps_log cfg" and flt: "Faults env = no_faults"
    and fs: "map_of fs (manifest_path cfg) = None" "map_of fs (log_path cfg) = None"
    and start: "StartMaster env clock (blank_server cfg fs st) = (Ret (), s0)" and acc: "s = accept conns s0"
    using assms(1) by (auto simp: first_run_def)
  from first_start [OF cfg flt fs start] obtain a d fs1 where a: "aof_New (Lib env) no_faults fs (aof_cfg cfg) = (Ret a, fs1)"
      "aof_file a" "aof_filePath a = log_path cfg" "log_content fs1 a = []" "map_of fs1 (dump_path cfg) = map_of fs (dump_path cfg)"
      "load_dump clock (blank_server cfg fs st) = (Ret (), set_DB d (blank_server cfg fs st))"
      "s0 = (set_DB d (blank_server cfg fs1 st))\<lparr>AOF := Some a, Node := Node s0\<rparr>" "Role (Node s0) = NodeRoleMaster" .
  have s0: "Cfg s0 = cfg" "FS s0 = fs1" "AOF s0 = Some a" "DB s0 = d"
    by (subst a(7), simp add: set_DB_def blank_server_def)+
  have s: "Cfg s = cfg" "FS s = fs1" "AOF s = Some a" "DB s = d"
    using accept_keeps [of conns s0] s0 acc by (simp_all add: settings_def)
  have logging: "logging a s" using s cfg a(2) by (simp add: logging_def keeps_log_def)
  have mp: "map_of fs1 (manifest_path cfg) \<noteq> None"
    using aof_New_fresh [of fs "aof_cfg cfg" "Lib env"] a(1,3) cfg fs(1)
    by (auto simp: aof_cfg_def manifest_path_def log_path_def keeps_log_def)
  have ne: "manifest_path cfg \<noteq> log_path cfg" "dump_path cfg \<noteq> log_path cfg" using cfg by (auto simp: keeps_log_def)
  have again: "\<exists>s2. StartMaster env' clock' (blank_server cfg fs2 st) = (r, s2) \<and> (r = Ret () \<longrightarrow> P (DB s2))"
    if log: "log_content fs2 a = log_of cmds" "\<forall>x \<in> set cmds. valid_cmd x"
      and other: "\<forall>p. p \<noteq> aof_filePath a \<longrightarrow> map_of fs2 p = map_of (FS s) p"
      and replay: "\<And>t. DB t = DB s \<Longrightarrow> Role (Node t) = NodeRoleMaster \<Longrightarrow>
          \<exists>t'. replay_all (replay_command env') cmds t = (r, t') \<and> (r = Ret () \<longrightarrow> P (DB t'))" for fs2 cmds r P
  proof -
    have same: "map_of fs2 (manifest_path cfg) = map_of fs1 (manifest_path cfg)" "map_of fs2 (dump_path cfg) = map_of fs (dump_path cfg)"
      using other ne a(3,5) s(2) by simp_all
    have new: "fst (aof_New (Lib env') no_faults fs2 (aof_cfg cfg)) = Ret a"
      using aof_reopen [of "aof_cfg cfg" "manifest_path cfg" fs "Lib env" a fs1 fs2] cfg fs(1) a(1,3) ne same(1) assms(3)
      by (simp add: aof_cfg_def manifest_path_def keeps_log_def)
    have dump: "load_dump clock' (blank_server cfg fs2 st) = (Ret (), set_DB d (blank_server cfg fs2 st))"
    proof -
      have "\<exists>r d'. load_dump clock (blank_server cfg fs st) = (r, set_DB d' (blank_server cfg fs st)) \<and>
          load_dump clock' (blank_server cfg fs2 st) = (r, set_DB d' (blank_server cfg fs2 st))"
        using same(2) assms(4) by (intro load_dump_depends) (simp_all add: blank_server_def dump_path_def)
      then obtain r d' where r: "load_dump clock (blank_server cfg fs st) = (r, set_DB d' (blank_server cfg fs st))"
          "load_dump clock' (blank_server cfg fs2 st) = (r, set_DB d' (blank_server cfg fs2 st))" by blast
      with a(6) have "r = Ret ()" "set_DB d' (blank_server cfg fs st) = set_DB d (blank_server cfg fs st)" by simp_all
      then have "d' = d" by (simp add: set_DB_def blank_server_def)
      with r(2) \<open>r = Ret ()\<close> show ?thesis by simp
    qed
    have old: "map_of fs2 (manifest_path cfg) \<noteq> None" using same(1) mp by simp
    show ?thesis
    proof (rule second_start [OF cfg assms(2) new old a(2) log dump])
      fix t :: Server assume "DB t = d" "Role (Node t) = NodeRoleMaster"
      then show "\<exists>t'. replay_all (replay_command env') cmds t = (r, t') \<and> (r = Ret () \<longrightarrow> P (DB t'))"
        using s(4) by (intro replay) simp_all
    qed
  qed
  show thesis
  proof (rule that [OF logging])
    show "log_content (FS s) a = []" using a(4) s(2) by simp
  qed (rule again)
qed

lemma wire_cmds_valid: "good_session lib' ses s \<Longrightarrow> \<forall>x \<in> set (map (wire_cmd lib) (requests ses)). valid_cmd x"
  by (auto simp: good_session_def elim!: write_requestD [where lib = lib])

lemma replay_all_append:
  "replay_all f (cs @ ds) st = (case replay_all f cs st of (Ret u, st') \<Rightarrow> replay_all f ds st' | x \<Rightarrow> x)"
  by (induction cs arbitrary: st) (auto split: prod.split go_result.split)

text \<open>A command that fails, fails again when it is replayed from the same key space.\<close>

lemma replay_command_fails:
  assumes "write_request req" and "clean_request (Lib env) req" and "same_effect env env' req"
    and "serving c s" and "idle (DB s)" and "fst (Execute env req c s) = Err e"
    and "idle (DB t)" and "keys_of (DB t) = keys_of (DB s)" and "Role (Node t) = NodeRoleReplica \<longrightarrow> ReplicaReady (Node t)"
  shows "\<exists>t'. replay_command env' (wire_cmd (Lib env) req) t = (Err e, t')"
proof -
  obtain s1 where s1: "Execute env req c s = (Err e, s1)" using assms(6) by (cases "Execute env req c s") simp
  obtain i t0 where t0: "new_client TypeClientInternal 0 t = (i, t0)" "DB t0 = DB t" "serving i t0"
    using replay_command_fresh [of t] assms(9) by metis
  with Execute_again [OF assms(1-5) s1 _ t0(3)] assms(7,8)
  obtain t1 where "Execute env' req i t0 = (Err e, t1)" by auto
  moreover have "Lib env' = Lib env" using assms(3) by (simp add: same_effect_def)
  ultimately show ?thesis
    using t0(1) write_request_name [OF assms(1), of "Lib env"] by (simp add: replay_command_def wire_cmd_def)
qed

subsection \<open>A replica\<close>

lemma wrap64_add: "wrap64 (wrap64 a + b) = wrap64 (a + b)"
proof -
  have "wrap64 (wrap64 a + b) = ((a + 2 ^ 63) mod 2 ^ 64 + b) mod 2 ^ 64 - 2 ^ 63" by (simp add: wrap64_def)
  also have "\<dots> = (a + 2 ^ 63 + b) mod 2 ^ 64 - 2 ^ 63" by (simp only: mod_add_left_eq)
  also have "\<dots> = wrap64 (a + b)" by (simp add: wrap64_def algebra_simps)
  finally show ?thesis .
qed

lemma ParseRequest_write:
  assumes "write_request req"
  shows "ParseRequest lib \<lparr>Pending = getRequestinResp lib req @ rest, AtEnd = e\<rparr> = (Ret req, \<lparr>Pending = rest, AtEnd = e\<rparr>)"
proof -
  let ?r = "\<lparr>Pending = [], AtEnd = e\<rparr>"
  have g: "getRequestinResp lib req = bulk_array (wire_cmd lib req)" by (simp add: getRequestinResp_def wire_cmd_def)
  have "valid_args (wire_cmd lib req)" using assms by (rule write_requestD [where lib = lib]) (simp add: valid_cmd_def)
  from command.dec_enc [OF this, where r = ?r and rest = rest]
  have "Array_Unmarshal \<lparr>Pending = getRequestinResp lib req @ rest, AtEnd = e\<rparr> = (Ret (wire_cmd lib req), \<lparr>Pending = rest, AtEnd = e\<rparr>)"
    by (simp add: g)
  moreover have "Peek1 \<lparr>Pending = getRequestinResp lib req @ rest, AtEnd = e\<rparr> = Inr (CHR ''*'')"
    by (simp add: g Array_Marshal_def Peek1_def)
  ultimately show ?thesis using write_request_name [OF assms, of lib] by (simp add: ParseRequest_def wire_cmd_def)
qed

lemma write_not_replication: "write_request req \<Longrightarrow> Command req \<noteq> REPLCONF \<and> Command req \<noteq> PSYNC"
proof -
  assume w: "write_request req"
  have "\<exists>cmd. CommandHandlers name = Some cmd \<and> \<not> IsWrite cmd" if "name = REPLCONF \<or> name = PSYNC" for name
    using that by (auto simp: CommandHandlers_def command_table_def command_names)
  with w show ?thesis by (fastforce simp: write_request_def)
qed

lemma write_not_getack: "write_request req \<Longrightarrow> \<not> is_getack lib req"
  using write_not_replication [of req] by (simp add: is_getack_def)

text \<open>What a connection does after a write command was executed, or refused: it is logged, sent to the replicas and answered.\<close>

lemma settings_answer: "settings (snd (answer env c b s)) = settings s"
proof -
  obtain ok w where w: "conn_write env (Conn (client s c)) b s = (ok, w)" by fastforce
  then have "frame w = frame s" using frame_simps(8) [of env "Conn (client s c)" b s] by simp
  then have "frame (snd (answer env c b s)) = frame s" using w by (cases ok) (simp_all add: answer_def)
  then show ?thesis by (rule settings_of_frame)
qed

lemma finish_write:
  assumes "write_request req" and "finish_command env req b c s = (Ret p, s')" and "logging a s" and "Faults env = no_faults"
  shows "log_content (FS s') a = log_content (FS s) a @ bulk_array (wire_cmd (Lib env) req) \<and>
    (\<forall>q. q \<noteq> aof_filePath a \<longrightarrow> map_of (FS s') q = map_of (FS s) q) \<and> DB s' = DB s \<and> logging a s' \<and> Node s' = Node s \<and> client s' = client s"
proof -
  obtain v where v: "propagate env req s = (Ret (), v)" "s' = snd (answer env c b v)"
    using assms(2) write_not_replication [OF assms(1)]
    by (auto simp: finish_command_def split: prod.splits go_result.splits)
  have s': "FS s' = FS v" "Cfg s' = Cfg v" "AOF s' = AOF v" "Node s' = Node v" "DB s' = DB v"
    using settings_answer [of env c b v] v(2) by (simp_all add: settings_def)
  have "client s' = client v" using v(2) by (simp add: answer_def split: prod.splits bool.splits) (auto dest: conn_write_pair)
  with propagate_write [OF assms(1) v(1)] show ?thesis
    using assms(3,4) by cases (simp_all add: s' logging_def log_content_Append log_path_other)
qed

text \<open>A write command that fails on its connection: only the log and the wire change.\<close>

lemma failed_write_effect:
  assumes "write_request req" and "serving c s" and "fst (Execute env req c s) = Err e"
    and "run_command env req c s = (Ret (Finishing req b), k, s2)" and "finish_command env req b c s2 = (Ret p, s3)"
    and "logging a s" and "Faults env = no_faults"
  shows "log_content (FS s3) a = log_content (FS s) a @ bulk_array (wire_cmd (Lib env) req)"
    and "q \<noteq> aof_filePath a \<Longrightarrow> map_of (FS s3) q = map_of (FS s) q"
proof -
  obtain cmd key rest where cmd: "CommandHandlers (Command req) = Some cmd" "IsWrite cmd" "Arguments req = key # rest"
    using assms(1) write_requestD [of req undefined] by (metis neq_Nil_conv)
  have start: "Execute_start env req c s = (True, Handler cmd env req c s)"
    using cmd serving_dispatched [OF assms(1,2)]
    by (cases rule: Execute_start_cases [of req c s env]) (simp_all add: dispatched_def)
  obtain r u where r: "Handler cmd env req c s = (r, u)" by fastforce
  have "r = Err e" using assms(3) start r cmd(3)
    by (auto simp: Execute_def Execute_finish_def split: go_result.splits reply.splits option.splits prod.splits)
  then have "s2 = snd (conn_write env (Conn (client u c)) (error_bytes e) u)"
    using assms(4) start r by (auto simp: run_command_def split: prod.splits bool.splits)
  moreover have "frame u = frame s" using handler_frame [of "Command req" cmd env req c s] cmd(1,3) r by simp
  ultimately have "frame s2 = frame s" by simp
  then have s2: "FS s2 = FS s" "logging a s2" using assms(6) by (simp_all add: frame_def logging_def)
  from finish_write [OF assms(1,5) s2(2) assms(7)] s2(1)
  show "log_content (FS s3) a = log_content (FS s) a @ bulk_array (wire_cmd (Lib env) req)"
    and "q \<noteq> aof_filePath a \<Longrightarrow> map_of (FS s3) q = map_of (FS s) q" by simp_all
qed

text \<open>A step of the link in the system of Connection is one iteration of \<open>master_loop\<close>, unless it has to wait in \<^verbatim>\<open>BLPOP\<close>.\<close>

lemma link_next_command:
  assumes "ParseRequest (Lib env) r = (Ret req, r1)" and "\<And>wr w t s1. Execute_start env req c s \<noteq> (wr, Ret (Wait w t), s1)"
  shows "link_next env conn c r s = (case master_command env conn c req s of
     (Ret u, s1) \<Rightarrow> (Ret (Following conn c r1), s1) | (Err e, s1) \<Rightarrow> (Ret NoLink, s1) | (Panic, s1) \<Rightarrow> (Panic, s1))"
proof (cases "is_getack (Lib env) req")
  case True
  then show ?thesis using assms(1)
    by (simp add: link_next_def master_command_def request_offset_def split: prod.split bool.split)
next
  case False
  obtain wr x s1 where x: "Execute_start env req c s = (wr, x, s1)" by (rule prod_cases3)
  show ?thesis
  proof (cases x)
    case (Ret v)
    then obtain b where "v = Bytes b" using assms(2) x by (cases v) auto
    moreover obtain y s2 where "Execute_finish wr req b s1 = (y, s2)" by fastforce
    moreover from this have "\<not> (\<exists>e. y = Err e)" by (auto simp: Execute_finish_def split: if_splits list.splits)
    ultimately show ?thesis using assms(1) False x Ret
      by (cases y) (simp_all add: link_next_def master_command_def Execute_def follow_def request_offset_def)
  qed (use assms(1) False x in \<open>simp_all add: link_next_def master_command_def Execute_def\<close>)
qed

text \<open>The loop of a replica over the bytes of a session of its master. Each command may meet another environment than on the
  master.\<close>

definition session_bytes :: "golib \<Rightarrow> session \<Rightarrow> string" where
  "session_bytes lib ses = concat (map (getRequestinResp lib) (requests ses))"

lemma session_bytes_simps [simp]:
  "session_bytes lib [] = []" "session_bytes lib ((env, c, req) # ses) = getRequestinResp lib req @ session_bytes lib ses"
  by (simp_all add: session_bytes_def)

lemma master_loop_session:
  assumes "good_session lib ses s" and "write_session ses s = Some s'" and "\<forall>k. repeatable ses (envs k)" and "\<forall>k. Lib (envs k) = lib"
    and "idle (DB t)" and "keys_of (DB t) = keys_of (DB s)" and "serving i t"
  shows "\<exists>t'. master_loop envs k conn i \<lparr>Pending = session_bytes lib ses, AtEnd = e\<rparr> t = (Some (EIo e), t') \<and>
    keys_of (DB t') = keys_of (DB s') \<and> idle (DB t') \<and>
    wrap64 (ReplicationOffset (Node t')) = wrap64 (ReplicationOffset (Node t) + int (length (session_bytes lib ses)))"
  using assms(1-3,5-7)
proof (induction ses arbitrary: s t k)
  case Nil
  then show ?case by (subst master_loop.simps) (simp add: ParseRequest_def Peek1_def)
next
  case (Cons item ses)
  obtain env c req where item: "item = (env, c, req)" by (metis prod_cases3)
  let ?bytes = "session_bytes lib ses" and ?n = "int (length (getRequestinResp lib req))"
  from Cons.prems(1,2) obtain b s1 s2 where x: "write_request req" "clean_request (Lib env) req" "serving c s" "idle (DB s)"
      "Execute env req c s = (Ret b, s1)" "write_session ses s2 = Some s'" "good_session lib ses s2" "DB s2 = DB s1"
    unfolding item by (metis write_session_Cons)
  have same: "same_effect env (envs k) req" using Cons.prems(3) item by (simp add: repeatable_def)
  from Execute_again [OF x(1,2) same x(3,4,5) _ Cons.prems(6,4,5)]
  obtain t1 where t1: "Execute (envs k) req i t = (Ret b, t1)" "keys_of (DB t1) = keys_of (DB s1)" "idle (DB t1)" by blast
  have keep: "serving i t1" "frame t1 = frame t" using Execute_serving [OF x(1) Cons.prems(6) t1(1)] Cons.prems(6) by simp_all
  let ?t2 = "add_offset ?n t1"
  have "master_command (envs k) conn i req t = (Ret (), ?t2)"
    using t1(1) write_not_getack [OF x(1)] assms(4) by (simp add: master_command_def)
  then have loop: "master_loop envs k conn i \<lparr>Pending = getRequestinResp lib req @ ?bytes, AtEnd = e\<rparr> t =
      master_loop envs (Suc k) conn i \<lparr>Pending = ?bytes, AtEnd = e\<rparr> ?t2"
    using ParseRequest_write [OF x(1), of lib] assms(4) by (subst master_loop.simps) simp
  have t2: "idle (DB ?t2)" "keys_of (DB ?t2) = keys_of (DB s2)" "serving i ?t2"
      "ReplicationOffset (Node ?t2) = wrap64 (ReplicationOffset (Node t) + ?n)"
    using t1(2,3) x(8) keep by (simp_all add: add_offset_def serving_def client_def frame_def)
  have "\<forall>k. repeatable ses (envs k)" using Cons.prems(3) by (simp add: repeatable_def)
  from Cons.IH [OF x(7,6) this t2(1-3), of "Suc k"] obtain t' where t':
      "master_loop envs (Suc k) conn i \<lparr>Pending = ?bytes, AtEnd = e\<rparr> ?t2 = (Some (EIo e), t')"
      "keys_of (DB t') = keys_of (DB s')" "idle (DB t')"
      "wrap64 (ReplicationOffset (Node t')) = wrap64 (wrap64 (ReplicationOffset (Node t) + ?n) + int (length ?bytes))"
    unfolding t2(4) by auto
  have "wrap64 (ReplicationOffset (Node t')) = wrap64 (ReplicationOffset (Node t) + (?n + int (length ?bytes)))"
    using t'(4) by (simp only: wrap64_add add.assoc)
  then show ?case using loop t'(1-3) by (simp add: item)
qed

lemma written_write_all:
  assumes "distinct cs"
  shows "written (write_all env cs b s) conn = written s conn @ (if conn \<in> set cs \<and> ConnOk env conn then b else [])"
  using assms
proof (induction cs arbitrary: s)
  case (Cons d cs)
  have "written (snd (conn_write env d b s)) conn = written s conn @ (if conn = d \<and> ConnOk env conn then b else [])"
    by (auto simp: conn_write_def written_def)
  with Cons show ?case by auto
qed simp

lemma write_session_sends:
  assumes "good_session lib ses s" and "write_session ses s = Some s'"
    and "distinct (map RConn (replicaNodes (Node s)))" and "r \<in> set (replicaNodes (Node s))"
    and "\<forall>item \<in> set ses. ConnOk (fst item) (RConn r)"
  shows "written s' (RConn r) = written s (RConn r) @ session_bytes lib ses"
  using assms
proof (induction ses arbitrary: s)
  case (Cons item ses)
  obtain env c req where item: "item = (env, c, req)" by (metis prod_cases3)
  from Cons.prems(1,2) obtain s1 s2 where x: "write_request req" "Lib env = lib" "propagate env req s1 = (Ret (), s2)"
      "write_session ses s2 = Some s'" "good_session lib ses s2" "frame s1 = frame s" "wire s1 = wire s" "Node s2 = Node s"
    unfolding item by (metis write_session_Cons)
  have n: "Node s1 = Node s" using x(6) by (simp add: frame_def)
  have ok: "ConnOk env (RConn r)" "\<forall>item \<in> set ses. ConnOk (fst item) (RConn r)" using Cons.prems(5) by (simp_all add: item)
  have w: "written (u\<lparr>FS := fs\<rparr>) = written u" "wire u = wire v \<Longrightarrow> written u = written v" for u v fs
    by (simp_all add: written_def fun_eq_iff)
  from propagate_write [OF x(1,3)]
  have "written s2 (RConn r) = written s (RConn r) @ getRequestinResp lib req"
    using Cons.prems(3,4) ok(1) w(2) [OF x(7)] x(2)
    by cases (simp_all add: replicate_request_def written_write_all n w(1))
  with Cons.IH [OF x(5,4)] Cons.prems(3,4) ok(2) x(8) show ?case by (simp add: item)
qed simp

subsection \<open>A log that is not what was executed\<close>

lemma first_run_master:
  assumes "first_run cfg env clock fs st conns s"
  shows "Role (Node s) = NodeRoleMaster"
proof -
  obtain s0 where s0: "keeps_log cfg" "Faults env = no_faults" "map_of fs (manifest_path cfg) = None" "map_of fs (log_path cfg) = None"
      "StartMaster env clock (blank_server cfg fs st) = (Ret (), s0)" "s = accept conns s0"
    using assms by (auto simp: first_run_def)
  from first_start [OF s0(1-5)] have "Role (Node s0) = NodeRoleMaster" by blast
  with s0(6) accept_keeps [of conns s0] show ?thesis by (simp add: settings_def)
qed

lemma write_session_Node:
  assumes "good_session lib ses s" and "write_session ses s = Some s'"
  shows "Node s' = Node s"
  using assms
proof (induction ses arbitrary: s)
  case (Cons item ses)
  obtain env c req where item: "item = (env, c, req)" by (metis prod_cases3)
  from Cons.prems obtain s2 where "write_session ses s2 = Some s'" "good_session lib ses s2" "Node s2 = Node s"
    unfolding item by (metis write_session_Cons)
  with Cons.IH show ?case by metis
qed simp

text \<open>A write command that the specification allows, replayed.\<close>

lemma replay_command_spec:
  assumes "write_request req" and "clean_request (Lib env) req" and "idle (DB t)" and "Role (Node t) = NodeRoleMaster"
    and "spec_write env req (keys_of (DB t)) = (Ret b, K)"
  shows "\<exists>t'. replay_command env (wire_cmd (Lib env) req) t = (Ret (), t') \<and> keys_of (DB t') = K \<and> idle (DB t') \<and>
    Role (Node t') = NodeRoleMaster"
proof -
  obtain cmd where cmd: "CommandHandlers (Command req) = Some cmd" "IsWrite cmd" "arity_ok cmd (Arguments req)"
    using assms(1) write_requestD [of req undefined] by metis
  have m: "Role (Node t) = NodeRoleReplica \<longrightarrow> ReplicaReady (Node t)" using assms(4) by (simp add: NodeRoleMaster_def NodeRoleReplica_def)
  obtain i t0 where t0: "new_client TypeClientInternal 0 t = (i, t0)" "settings t0 = settings t" "DB t0 = DB t" "serving i t0"
    using replay_command_fresh [of t] m by metis
  obtain r t1 where t1: "Execute env req i t0 = (r, t1)" by fastforce
  have "idle (DB t0)" using assms(3) t0(3) by simp
  from Execute_meets [OF cmd serving_dispatched [OF assms(1) t0(4)] this assms(2) t1] assms(5) t0(3)
  have r: "r = Ret b" "keys_of (DB t1) = K" "idle (DB t1)" by auto
  have "Node t1 = Node t" using settings_of_frame [OF frame_Execute [of env req i t0]] t0(2) t1 by (simp add: settings_def)
  with r t0(1) t1 assms(4) write_request_name [OF assms(1), of "Lib env"] show ?thesis
    by (simp add: replay_command_def wire_cmd_def)
qed

text \<open>A start from the log of a session and of further commands, which need not be what was executed.\<close>

lemma start_with_more:
  assumes "first_run cfg env clock fs st conns s" and "good_session (Lib env) ses s" and "write_session ses s = Some s1"
    and "Faults env' = no_faults" and "Lib env' = Lib env" and "repeatable ses env'"
    and "dump_agrees clock clock' (map_of fs (dump_path cfg)) st"
    and "\<forall>item \<in> set ses. Faults (fst item) = no_faults"
  obtains a where "logging a s1"
    and "\<And>fs2 more K. log_content fs2 a = log_content (FS s1) a @ log_of more \<Longrightarrow> \<forall>x \<in> set more. valid_cmd x \<Longrightarrow>
       \<forall>p. p \<noteq> aof_filePath a \<longrightarrow> map_of fs2 p = map_of (FS s1) p \<Longrightarrow>
       (\<And>t. idle (DB t) \<Longrightarrow> keys_of (DB t) = keys_of (DB s1) \<Longrightarrow> Role (Node t) = NodeRoleMaster \<Longrightarrow>
          \<exists>t'. replay_all (replay_command env') more t = (Ret (), t') \<and> keys_of (DB t') = K) \<Longrightarrow>
       \<exists>s2. StartMaster env' clock' (blank_server cfg fs2 st) = (Ret (), s2) \<and> keys_of (DB s2) = K"
proof (rule start_again [OF assms(1,4,5,7)])
  fix a
  assume a: "logging a s" "log_content (FS s) a = []"
    and again: "\<And>fs2 cmds r P. log_content fs2 a = log_of cmds \<Longrightarrow> \<forall>x \<in> set cmds. valid_cmd x \<Longrightarrow>
       \<forall>p. p \<noteq> aof_filePath a \<longrightarrow> map_of fs2 p = map_of (FS s) p \<Longrightarrow>
       (\<And>t. DB t = DB s \<Longrightarrow> Role (Node t) = NodeRoleMaster \<Longrightarrow>
          \<exists>t'. replay_all (replay_command env') cmds t = (r, t') \<and> (r = Ret () \<longrightarrow> P (DB t'))) \<Longrightarrow>
       \<exists>s2. StartMaster env' clock' (blank_server cfg fs2 st) = (r, s2) \<and> (r = Ret () \<longrightarrow> P (DB s2))"
  note log = write_session_log [OF assms(2,3) a(1) assms(8)]
  let ?ses = "map (wire_cmd (Lib env)) (requests ses)"
  have "\<exists>s2. StartMaster env' clock' (blank_server cfg fs2 st) = (Ret (), s2) \<and> (Ret () = Ret () \<longrightarrow> keys_of (DB s2) = K)"
    if more: "log_content fs2 a = log_content (FS s1) a @ log_of more" "\<forall>x \<in> set more. valid_cmd x"
      "\<forall>p. p \<noteq> aof_filePath a \<longrightarrow> map_of fs2 p = map_of (FS s1) p"
      and replay: "\<And>t. idle (DB t) \<Longrightarrow> keys_of (DB t) = keys_of (DB s1) \<Longrightarrow> Role (Node t) = NodeRoleMaster \<Longrightarrow>
          \<exists>t'. replay_all (replay_command env') more t = (Ret (), t') \<and> keys_of (DB t') = K" for fs2 more K
  proof (rule again [where cmds = "?ses @ more"])
    show "\<forall>x \<in> set (?ses @ more). valid_cmd x" using wire_cmds_valid [OF assms(2), of "Lib env"] more(2) by auto
    fix t :: Server assume t: "DB t = DB s" "Role (Node t) = NodeRoleMaster"
    then obtain t1 where t1: "replay_all (replay_command env') ?ses t = (Ret (), t1)" "keys_of (DB t1) = keys_of (DB s1)" "idle (DB t1)"
        "settings t1 = settings t"
      using replay_session [OF assms(2,3,6), of t] assms(2)
      by (auto simp: good_session_def NodeRoleMaster_def NodeRoleReplica_def)
    from replay [OF t1(3,2)] t1(4) t(2) obtain t' where "replay_all (replay_command env') more t1 = (Ret (), t')" "keys_of (DB t') = K"
      by (auto simp: settings_def)
    with t1(1) show "\<exists>t'. replay_all (replay_command env') (?ses @ more) t = (Ret (), t') \<and> (Ret () = Ret () \<longrightarrow> keys_of (DB t') = K)"
      by (simp add: replay_all_append)
  qed (use log more a(2) in simp_all)
  with log show thesis by (intro that [of a]) blast+
qed

text \<open>A write command of a client inside a transaction: it is queued and answered, and nothing else happens, but it is logged.\<close>

lemma queued_write:
  assumes "write_request req" and "Mode (client s c) = ClientModeTransaction" and "Role (Node s) = NodeRoleMaster"
  shows "run_command env req c s = (Ret (Finishing req QUEUED), 0, enqueue c req s)"
proof -
  obtain cmd where cmd: "CommandHandlers (Command req) = Some cmd" "IsWrite cmd" "arity_ok cmd (Arguments req)"
    using assms(1) write_requestD [of req undefined] by metis
  have "\<not> IsWrite x" if "CommandHandlers n = Some x" "n \<in> set TransactionalCommands" for n x
    using that by (auto simp: TransactionalCommands_def CommandHandlers_def command_table_def command_names)
  with cmd have "Command req \<notin> set TransactionalCommands" by blast
  then have "Execute_start env req c s = (False, Ret (Bytes QUEUED), enqueue c req s)"
    using cmd(1,3) assms(2,3) by (simp add: Execute_start_def NodeRoleMaster_def NodeRoleReplica_def)
  then show ?thesis by (simp add: run_command_def Execute_finish_def)
qed

lemma session_commands:
  assumes "Role (Node s) = NodeRoleMaster"
  shows "serving c s \<Longrightarrow> Execute env \<lparr>Command = MULTI, Arguments = []\<rparr> c s =
      (Ret OK, set_client c ((client s c)\<lparr>Mode := ClientModeTransaction\<rparr>) s)"
    and "Mode (client s c) = ClientModeTransaction \<Longrightarrow> Execute env \<lparr>Command = DISCARD, Arguments = []\<rparr> c s =
      (Ret OK, ResetTransactionState env c s)"
  using assms
  by (simp_all add: Execute_def Execute_start_def Execute_finish_def CommandHandlers_def command_table_def command_names arity_ok_def
      TransactionalCommands_def HandleMulti_def HandleDiscard_def NodeRoleMaster_def NodeRoleReplica_def serving_def)

subsection \<open>Scenarios\<close>

text \<open>A node that keeps a log, started in an empty directory, and a second start from the files it leaves behind.\<close>

definition log_config :: Config where
  "log_config = (GetDefaultConfig ''/d'')\<lparr>Appendonly := TypeAppendOnlyYes\<rparr>"

definition start_at :: "int \<Rightarrow> fs \<Rightarrow> unit go_result \<times> Server" where
  "start_at now fs = StartMaster (sample_env now) (\<lambda>_. now) (blank_server log_config fs New)"

definition restarted :: "(env \<times> event) list \<Rightarrow> int \<Rightarrow> Server \<Rightarrow> Server \<Rightarrow> bool" where
  "restarted evs now s s' \<longleftrightarrow>
     (case run evs (idle_system (snd (start_at 1 []))) of
        Some y \<Rightarrow> s = Srv y \<and> start_at now (FS s) = (Ret (), s')
      | None \<Rightarrow> False)"

definition string_at :: "string \<Rightarrow> Server \<Rightarrow> string option" where
  "string_at k s = (case Get (DB s) k of None \<Rightarrow> None | Some e \<Rightarrow> (case EValue e of VString v \<Rightarrow> Some v | _ \<Rightarrow> None))"

definition expiry_at :: "string \<Rightarrow> Server \<Rightarrow> int option" where
  "expiry_at k s = map_option ExpireAt (Get (DB s) k)"

definition compare_restart :: "(env \<times> event) list \<Rightarrow> int \<Rightarrow> (Server \<Rightarrow> Server \<Rightarrow> bool) \<Rightarrow> bool" where
  "compare_restart evs now P =
     (case run evs (idle_system (snd (start_at 1 []))) of
        Some y \<Rightarrow> (case start_at now (FS (Srv y)) of (Ret u, s') \<Rightarrow> P (Srv y) s' | _ \<Rightarrow> False)
      | None \<Rightarrow> False)"

lemma compare_restartE:
  assumes "compare_restart evs now P"
  obtains s s' where "restarted evs now s s'" and "P s s'"
  using assms by (auto simp: compare_restart_def restarted_def split: option.splits prod.splits go_result.splits)

definition expiry_run :: "(env \<times> event) list" where
  "expiry_run = map ev_at [Accept 1 (sends [[''SET'', ''k'', ''v'', ''PX'', ''10'']]), Recv 1, Finish 1]"

lemma restart_scenarios:
  "compare_restart expiry_run 500 (\<lambda>s s'. expiry_at ''k'' s = Some 10000001 \<and> expiry_at ''k'' s' = Some 10000500)"
  by code_simp

subsection \<open>Properties\<close>

text \<open>C3. A master that keeps a log is durable. On the first run of such a master, let its clients run a session of write
  commands: one command at a time, from clients outside a transaction, each one successful and without an I/O fault, no client waiting
  in \<^verbatim>\<open>BLPOP\<close>, and no \<^verbatim>\<open>ZADD\<close> that names a member twice or gives a NaN. Then a later start from the files it leaves
  behind, with other coin flips, succeeds and rebuilds the same abstract key space: the dump is loaded first and the log
  replayed on top of it. The later start may have another clock as far as deadlines do not depend on it: a \<^verbatim>\<open>SET\<close> with \<^verbatim>\<open>EX\<close> or
  \<^verbatim>\<open>PX\<close> is in the session only if it gives the same deadline under the later clock (\<^term>\<open>repeatable\<close>), and the dump
  must load to the same store under both (\<^term>\<open>dump_agrees\<close>); the lemma on expiry below shows what happens otherwise.\<close>

theorem restart_restores_database:
  assumes "first_run cfg env clock fs st conns s" and "good_session (Lib env) ses s" and "write_session ses s = Some s1"
    and "\<forall>item \<in> set ses. Faults (fst item) = no_faults" and "Faults env' = no_faults" and "Lib env' = Lib env"
    and "repeatable ses env'" and "dump_agrees clock clock' (map_of fs (dump_path cfg)) st"
  shows "\<exists>s2. StartMaster env' clock' (blank_server cfg (FS s1) st) = (Ret (), s2) \<and> keys_of (DB s2) = keys_of (DB s1) \<and> idle (DB s2)"
proof (rule start_again [OF assms(1,5,6,8)])
  fix a
  assume a: "logging a s" "log_content (FS s) a = []"
    and again: "\<And>fs2 cmds r P. log_content fs2 a = log_of cmds \<Longrightarrow> \<forall>x \<in> set cmds. valid_cmd x \<Longrightarrow>
       \<forall>p. p \<noteq> aof_filePath a \<longrightarrow> map_of fs2 p = map_of (FS s) p \<Longrightarrow>
       (\<And>t. DB t = DB s \<Longrightarrow> Role (Node t) = NodeRoleMaster \<Longrightarrow>
          \<exists>t'. replay_all (replay_command env') cmds t = (r, t') \<and> (r = Ret () \<longrightarrow> P (DB t'))) \<Longrightarrow>
       \<exists>s2. StartMaster env' clock' (blank_server cfg fs2 st) = (r, s2) \<and> (r = Ret () \<longrightarrow> P (DB s2))"
  note log = write_session_log [OF assms(2,3) a(1) assms(4)]
  have "\<exists>s2. StartMaster env' clock' (blank_server cfg (FS s1) st) = (Ret (), s2) \<and>
      (Ret () = Ret () \<longrightarrow> keys_of (DB s2) = keys_of (DB s1) \<and> idle (DB s2))"
  proof (rule again [OF _ wire_cmds_valid [OF assms(2), of "Lib env"]])
    fix t :: Server assume "DB t = DB s" "Role (Node t) = NodeRoleMaster"
    then show "\<exists>t'. replay_all (replay_command env') (map (wire_cmd (Lib env)) (requests ses)) t = (Ret (), t') \<and>
        (Ret () = Ret () \<longrightarrow> keys_of (DB t') = keys_of (DB s1) \<and> idle (DB t'))"
      using replay_session [OF assms(2,3,7), of t] assms(2)
      by (auto simp: good_session_def NodeRoleMaster_def NodeRoleReplica_def)
  qed (use log a(2) in simp_all)
  then show ?thesis by simp
qed

text \<open>Two clients, at different times and with different coin flips; the restart happens at yet another time.\<close>

definition sample_session :: session where
  "sample_session =
    [(sample_env 1, 1, \<lparr>Command = SET, Arguments = [''k'', ''v'']\<rparr>),
     ((sample_env 2)\<lparr>Coins := (\<lambda>_ i. i = 0)\<rparr>, 2, \<lparr>Command = ZADD, Arguments = [''z'', ''1'', ''m'']\<rparr>),
     (sample_env 3, 1, \<lparr>Command = RPUSH, Arguments = [''l'', ''a'', ''b'']\<rparr>)]"

lemma sample_session_good:
  assumes "serving 1 s" and "serving 2 s" and "DB s = New"
  shows "good_session (Lib (sample_env 1)) sample_session s"
proof -
  have "idle New" using store_ok_New by (simp add: idle_def New_def)
  moreover have "clean_pairs [(''m'', f64_one)]" by (simp add: clean_pairs_def f64_examples)
  ultimately show ?thesis
    using assms by (simp add: good_session_def sample_session_def write_request_def CommandHandlers_def command_table_def
      command_names arity_ok_def clean_request_def sample_env_def sample_lib_def)
qed

lemma sample_session_repeatable: "repeatable sample_session (sample_env now)"
  by (simp add: repeatable_def sample_session_def same_effect_def sample_env_def command_names)

lemma sample_serving:
  "serving 1 (accept [1, 2] (snd (start_at 1 []))) \<and> serving 2 (accept [1, 2] (snd (start_at 1 [])))"
  by code_simp

lemma sample_first_run: "first_run log_config (sample_env 1) (\<lambda>_. 1) [] New [1, 2] (accept [1, 2] (snd (start_at 1 [])))"
proof -
  have "fst (start_at 1 []) = Ret ()" "keeps_log log_config" by code_simp+
  then show ?thesis by (auto simp: first_run_def start_at_def sample_env_def prod_eq_iff)
qed

lemma sample_DB: "DB (accept [1, 2] (snd (start_at 1 []))) = New"
proof -
  let ?d = "DB (snd (start_at 1 []))"
  have "(case data ?d of [] \<Rightarrow> True | _ \<Rightarrow> False) \<and> waiterStore ?d = [] \<and> (case chans ?d of [] \<Rightarrow> True | _ \<Rightarrow> False) \<and> nextChan ?d = 0"
    by code_simp
  then have "?d = New" by (auto simp: New_def split: list.splits)
  then show ?thesis using accept_keeps by metis
qed

theorem restart_restores_database_witness:
  "\<exists>s1 s2. write_session sample_session (accept [1, 2] (snd (start_at 1 []))) = Some s1 \<and>
    start_at 500 (FS s1) = (Ret (), s2) \<and> keys_of (DB s2) = keys_of (DB s1) \<and> string_at ''k'' s1 = Some ''v''"
proof -
  let ?s = "accept [1, 2] (snd (start_at 1 []))"
  have "case write_session sample_session ?s of Some s1 \<Rightarrow> string_at ''k'' s1 = Some ''v'' | None \<Rightarrow> False"
    by code_simp
  then obtain s1 where s1: "write_session sample_session ?s = Some s1" "string_at ''k'' s1 = Some ''v''"
    by (auto split: option.splits)
  have "\<exists>s2. StartMaster (sample_env 500) (\<lambda>_. 500) (blank_server log_config (FS s1) New) = (Ret (), s2) \<and>
      keys_of (DB s2) = keys_of (DB s1) \<and> idle (DB s2)"
    using sample_serving sample_DB
    by (intro restart_restores_database [OF sample_first_run sample_session_good s1(1) _ _ _ sample_session_repeatable])
      (simp_all add: sample_session_def sample_env_def dump_agrees_def Load_def)
  with s1 show ?thesis by (auto simp: start_at_def)
qed

text \<open>C4. A replica follows its master. Take a session of write commands as in the theorem on restarts: one at a time, from clients
  outside a transaction, each one successful, no client waiting in \<^verbatim>\<open>BLPOP\<close>, no \<^verbatim>\<open>ZADD\<close> that names a member twice or
  gives a NaN. The bytes that the session puts on the connection of a replica, while that connection works, read by the replica's
  command loop at other times and with other coin flips, starting from the same abstract key space with nobody waiting on it, leave
  it with the abstract key space of the master, at its old offset plus the number of these bytes (as a 64-bit
  integer); the loop then ends because the master closed the connection. As on a restart, a \<^verbatim>\<open>SET\<close> with \<^verbatim>\<open>EX\<close> or
  \<^verbatim>\<open>PX\<close> is in the session only if the clock of the replica gives it the same deadline (\<^term>\<open>repeatable\<close>).\<close>

theorem replica_follows_master:
  assumes "good_session lib ses s" and "write_session ses s = Some s'"
    and "distinct (map RConn (replicaNodes (Node s)))" and "r \<in> set (replicaNodes (Node s))"
    and "\<forall>item \<in> set ses. ConnOk (fst item) (RConn r)"
    and "\<forall>k. repeatable ses (envs k)" and "\<forall>k. Lib (envs k) = lib"
    and "idle (DB t)" and "keys_of (DB t) = keys_of (DB s)" and "serving i t"
  shows "\<exists>bytes t'. written s' (RConn r) = written s (RConn r) @ bytes \<and>
    master_loop envs 0 conn i \<lparr>Pending = bytes, AtEnd = e\<rparr> t = (Some (EIo e), t') \<and>
    keys_of (DB t') = keys_of (DB s') \<and> idle (DB t') \<and>
    wrap64 (ReplicationOffset (Node t')) = wrap64 (ReplicationOffset (Node t) + int (length bytes))"
  using write_session_sends [OF assms(1-5)] master_loop_session [OF assms(1,2,6-10), of 0 conn e] by blast

theorem replica_follows_master_witness:
  "\<exists>s' t'. write_session sample_session (AddReplica (sample_env 1) 3 (accept [1, 2, 7] sample_server)) = Some s' \<and>
    master_loop (\<lambda>k. sample_env (int k)) 0 9 1 \<lparr>Pending = written s' 7, AtEnd = EOF\<rparr> (accept [9] sample_server) =
      (Some (EIo EOF), t') \<and> keys_of (DB t') = keys_of (DB s')"
proof -
  let ?s = "AddReplica (sample_env 1) 3 (accept [1, 2, 7] sample_server)" and ?t = "accept [9] sample_server"
  let ?r = "\<lparr>ReplicaId = ''id'', RConn = 7, ReplicaOffSet = 0\<rparr>"
  have "case write_session sample_session ?s of Some s1 \<Rightarrow> True | None \<Rightarrow> False" by code_simp
  then obtain s1 where s1: "write_session sample_session ?s = Some s1" by (auto split: option.splits)
  have sv: "serving 1 ?s \<and> serving 2 ?s \<and> serving 1 ?t" by code_simp
  have n: "DB sample_server = New" by (simp add: sample_server_def blank_server_def)
  have db: "DB ?s = New" "DB ?t = New" using accept_keeps [of _ sample_server] n by (simp_all add: AddReplica_def)
  have "map RConn (replicaNodes (Node ?s)) = [7] \<and> written ?s 7 = []" by code_simp
  then obtain r where r: "replicaNodes (Node ?s) = [r]" "RConn r = 7" "written ?s 7 = []" by auto
  have "idle New" using store_ok_New by (simp add: idle_def New_def)
  with replica_follows_master [OF sample_session_good s1, of r "\<lambda>k. sample_env (int k)" ?t 1 9 EOF]
    sv db r sample_session_repeatable
  show ?thesis using s1 by (auto simp: sample_session_def sample_env_def)
qed

text \<open>C22. A write command that the server refuses is logged all the same, and the log can then not be loaded any more. After a
  session as in the theorem on restarts (first run, one command at a time, all successful, without faults, deadlines and dump
  independent of the clock), let a client outside a transaction send one write command with an admissible number of arguments
  that fails when it is executed, and that fails or succeeds independently of the clock; it is answered with its error. Then a
  start from the files as they are at that moment fails, with this error, under every later clock and coin flips of that kind.\<close>

theorem failed_write_prevents_restart:
  assumes "first_run cfg env clock fs st conns s" and "good_session (Lib env) ses s" and "write_session ses s = Some s1"
    and "\<forall>item \<in> set ses. Faults (fst item) = no_faults" and "Faults env' = no_faults" and "Lib env' = Lib env"
    and "repeatable ses env'" and "dump_agrees clock clock' (map_of fs (dump_path cfg)) st"
    and "write_request req" and "clean_request (Lib env) req" and "serving c s1" and "same_effect env1 env' req"
    and "Faults env1 = no_faults" and "fst (Execute env1 req c s1) = Err e"
    and "run_command env1 req c s1 = (Ret (Finishing req b), k, s2)" and "finish_command env1 req b c s2 = (Ret p, s3)"
  shows "\<exists>s4. StartMaster env' clock' (blank_server cfg (FS s3) st) = (Err (EWrap ''replay error: '' e), s4)"
proof (rule start_again [OF assms(1,5,6,8)])
  fix a
  assume a: "logging a s" "log_content (FS s) a = []"
    and again: "\<And>fs2 cmds r P. log_content fs2 a = log_of cmds \<Longrightarrow> \<forall>x \<in> set cmds. valid_cmd x \<Longrightarrow>
       \<forall>p. p \<noteq> aof_filePath a \<longrightarrow> map_of fs2 p = map_of (FS s) p \<Longrightarrow>
       (\<And>t. DB t = DB s \<Longrightarrow> Role (Node t) = NodeRoleMaster \<Longrightarrow>
          \<exists>t'. replay_all (replay_command env') cmds t = (r, t') \<and> (r = Ret () \<longrightarrow> P (DB t'))) \<Longrightarrow>
       \<exists>s2. StartMaster env' clock' (blank_server cfg fs2 st) = (r, s2) \<and> (r = Ret () \<longrightarrow> P (DB s2))"
  note log = write_session_log [OF assms(2,3) a(1) assms(4)]
  have lib: "Lib env1 = Lib env" using assms(6,12) by (simp add: same_effect_def)
  note last = failed_write_effect [OF assms(9,11,14-16) conjunct1 [OF log] assms(13), unfolded lib]
  let ?cmds = "map (wire_cmd (Lib env)) (requests ses) @ [wire_cmd (Lib env) req]"
  have valid: "\<forall>x \<in> set ?cmds. valid_cmd x"
    using wire_cmds_valid [OF assms(2), of "Lib env"] assms(9) by (auto elim!: write_requestD [where lib = "Lib env"])
  have "\<exists>s4. StartMaster env' clock' (blank_server cfg (FS s3) st) = (Err (EWrap ''replay error: '' e), s4) \<and>
      (Err (EWrap ''replay error: '' e) = Ret () \<longrightarrow> True)"
  proof (rule again [OF _ valid])
    fix t :: Server assume t: "DB t = DB s" "Role (Node t) = NodeRoleMaster"
    then obtain t1 where t1: "replay_all (replay_command env') (map (wire_cmd (Lib env)) (requests ses)) t = (Ret (), t1)"
        "keys_of (DB t1) = keys_of (DB s1)" "idle (DB t1)" "settings t1 = settings t"
      using replay_session [OF assms(2,3,7), of t] assms(2)
      by (auto simp: good_session_def NodeRoleMaster_def NodeRoleReplica_def)
    have "idle (DB s1)" using write_session_idle [OF assms(2,3)] by simp
    from replay_command_fails [OF assms(9) _ assms(12,11) this assms(14) t1(3,2)] assms(10) t(2) t1(4) lib
    have "\<exists>t2. replay_command env' (wire_cmd (Lib env) req) t1 = (Err e, t2)"
      by (simp add: settings_def NodeRoleMaster_def NodeRoleReplica_def)
    with t1(1) show "\<exists>t'. replay_all (replay_command env') ?cmds t = (Err (EWrap ''replay error: '' e), t') \<and>
        (Err (EWrap ''replay error: '' e) = Ret () \<longrightarrow> True)"
      by (auto simp: replay_all_append)
  qed (use log last a(2) in simp_all)
  then show ?thesis by blast
qed

theorem failed_write_prevents_restart_witness:
  "\<exists>s1 e w s2 p s3 s4. write_session sample_session (accept [1, 2] (snd (start_at 1 []))) = Some s1 \<and>
    run_command (sample_env 4) \<lparr>Command = LPUSH, Arguments = [''k'', ''x'']\<rparr> 1 s1 =
      (Ret (Finishing \<lparr>Command = LPUSH, Arguments = [''k'', ''x'']\<rparr> []), w, s2) \<and>
    finish_command (sample_env 4) \<lparr>Command = LPUSH, Arguments = [''k'', ''x'']\<rparr> [] 1 s2 = (Ret p, s3) \<and>
    start_at 500 (FS s3) = (Err (EWrap ''replay error: '' e), s4)"
proof -
  let ?s = "accept [1, 2] (snd (start_at 1 []))" and ?q = "\<lparr>Command = LPUSH, Arguments = [''k'', ''x'']\<rparr>"
  define s1 where "s1 = the (write_session sample_session ?s)"
  define s2 where "s2 = snd (snd (run_command (sample_env 4) ?q 1 s1))"
  have "write_session sample_session ?s \<noteq> None \<and> serving 1 (the (write_session sample_session ?s)) \<and>
    (case fst (Execute (sample_env 4) ?q 1 (the (write_session sample_session ?s))) of Err e \<Rightarrow> True | _ \<Rightarrow> False) \<and>
    fst (run_command (sample_env 4) ?q 1 (the (write_session sample_session ?s))) = Ret (Finishing ?q []) \<and>
    (case fst (finish_command (sample_env 4) ?q [] 1 (snd (snd (run_command (sample_env 4) ?q 1
       (the (write_session sample_session ?s)))))) of Ret p \<Rightarrow> True | _ \<Rightarrow> False)" by code_simp
  then obtain e w p s3 where x: "write_session sample_session ?s = Some s1" "serving 1 s1"
      "fst (Execute (sample_env 4) ?q 1 s1) = Err e" "run_command (sample_env 4) ?q 1 s1 = (Ret (Finishing ?q []), w, s2)"
      "finish_command (sample_env 4) ?q [] 1 s2 = (Ret p, s3)"
    unfolding s1_def [symmetric] s2_def [symmetric]
    by (cases "run_command (sample_env 4) ?q 1 s1"; cases "finish_command (sample_env 4) ?q [] 1 s2")
      (auto simp: s1_def s2_def split: go_result.splits)
  have q: "write_request ?q" "clean_request (Lib (sample_env 1)) ?q" "same_effect (sample_env 4) (sample_env 500) ?q"
    by (simp_all add: write_request_def CommandHandlers_def command_table_def command_names arity_ok_def clean_request_def
        same_effect_def sample_env_def)
  have "\<exists>s4. StartMaster (sample_env 500) (\<lambda>_. 500) (blank_server log_config (FS s3) New) = (Err (EWrap ''replay error: '' e), s4)"
    using sample_serving sample_DB
    by (intro failed_write_prevents_restart [OF sample_first_run sample_session_good x(1) _ _ _ sample_session_repeatable _
          q(1,2) x(2) q(3) _ x(3-5)])
      (simp_all add: sample_session_def sample_env_def dump_agrees_def Load_def)
  with x show ?thesis by (auto simp: start_at_def)
qed

text \<open>The states of the witnesses, from the end of the sample session on.\<close>

abbreviation set_x :: "string \<Rightarrow> Request" where
  "set_x v \<equiv> \<lparr>Command = SET, Arguments = [''x'', v]\<rparr>"

lemma returned_pair:
  assumes "case p of (Ret x, s) \<Rightarrow> P x s | _ \<Rightarrow> False"
  obtains x s where "p = (Ret x, s)" "P x s"
  using assms by (cases p; cases "fst p") auto

lemma returned_fst:
  assumes "case fst p of Ret x \<Rightarrow> True | _ \<Rightarrow> False"
  obtains x s where "p = (Ret x, s)"
  using assms by (cases p; cases "fst p") auto

lemma sample_after:
  obtains s1 where "write_session sample_session (accept [1, 2] (snd (start_at 1 []))) = Some s1" "serving 1 s1" "serving 2 s1"
    "keys_of (DB s1) ''x'' = None"
    "case Execute (sample_env 4) \<lparr>Command = MULTI, Arguments = []\<rparr> 1 s1 of (r, s2) \<Rightarrow>
      (case run_command (sample_env 4) (set_x ''y'') 1 s2 of
         (Ret (Finishing q b), k, s3) \<Rightarrow> q = set_x ''y'' \<and>
           (case fst (finish_command (sample_env 4) (set_x ''y'') b 1 s3) of Ret p \<Rightarrow> True | _ \<Rightarrow> False)
       | _ \<Rightarrow> False)"
    "case Execute (sample_env 4) (set_x ''old'') 1 s1 of
       (Ret b1, s2) \<Rightarrow>
         (case Execute (sample_env 4) (set_x ''new'') 2 s2 of
            (Ret b2, s3) \<Rightarrow>
              (case finish_command (sample_env 4) (set_x ''new'') b2 2 s3 of
                 (Ret p2, s4) \<Rightarrow> (case fst (finish_command (sample_env 4) (set_x ''old'') b1 1 s4) of Ret p \<Rightarrow> True | _ \<Rightarrow> False)
               | _ \<Rightarrow> False)
          | _ \<Rightarrow> False)
     | _ \<Rightarrow> False"
proof -
  have "case write_session sample_session (accept [1, 2] (snd (start_at 1 []))) of None \<Rightarrow> False | Some s1 \<Rightarrow>
    serving 1 s1 \<and> serving 2 s1 \<and> (case map_of (data (DB s1)) ''x'' of None \<Rightarrow> True | _ \<Rightarrow> False) \<and>
    (case Execute (sample_env 4) \<lparr>Command = MULTI, Arguments = []\<rparr> 1 s1 of (r, s2) \<Rightarrow>
      (case run_command (sample_env 4) (set_x ''y'') 1 s2 of
         (Ret (Finishing q b), k, s3) \<Rightarrow> q = set_x ''y'' \<and>
           (case fst (finish_command (sample_env 4) (set_x ''y'') b 1 s3) of Ret p \<Rightarrow> True | _ \<Rightarrow> False)
       | _ \<Rightarrow> False)) \<and>
    (case Execute (sample_env 4) (set_x ''old'') 1 s1 of
       (Ret b1, s2) \<Rightarrow>
         (case Execute (sample_env 4) (set_x ''new'') 2 s2 of
            (Ret b2, s3) \<Rightarrow>
              (case finish_command (sample_env 4) (set_x ''new'') b2 2 s3 of
                 (Ret p2, s4) \<Rightarrow> (case fst (finish_command (sample_env 4) (set_x ''old'') b1 1 s4) of Ret p \<Rightarrow> True | _ \<Rightarrow> False)
               | _ \<Rightarrow> False)
          | _ \<Rightarrow> False)
     | _ \<Rightarrow> False)" by code_simp
  then show thesis using that by (auto simp: keys_of_def split: option.splits)
qed

lemma set_x_request:
  "write_request (set_x v) \<longleftrightarrow> length v < 2 ^ 31" "clean_request lib (set_x v)"
  "spec_write env (set_x v) K = (Ret OK, K(''x'' \<mapsto> (AStr v, zero_time)))"
  by (simp_all add: write_request_def CommandHandlers_def command_table_def command_names arity_ok_def clean_request_def
      spec_write_def spec_deadline_def)

text \<open>C23. A command that a transaction queues is logged when it is queued, and again nothing is logged when the transaction is
  discarded. So, after any session of successful write commands (as in the theorem on restarts: one at a time, on the first run of a
  master that keeps a log, without faults, with no client waiting): if a client opens a transaction with \<^verbatim>\<open>MULTI\<close>, sends a write
  command and then \<^verbatim>\<open>DISCARD\<close>, all three are accepted and the key space is as before; but a later start from the files applies the
  command, if it is one that succeeds on that key space.\<close>

theorem discarded_command_returns_after_restart:
  assumes "first_run cfg env clock fs st conns s" and "good_session (Lib env) ses s" and "write_session ses s = Some s1"
    and "\<forall>item \<in> set ses. Faults (fst item) = no_faults" and "Faults env' = no_faults" and "Lib env' = Lib env"
    and "repeatable ses env'" and "dump_agrees clock clock' (map_of fs (dump_path cfg)) st"
    and "write_request req" and "clean_request (Lib env) req" and "serving c s1"
    and "Lib env1 = Lib env" and "Faults env1 = no_faults"
    and "Execute env0 \<lparr>Command = MULTI, Arguments = []\<rparr> c s1 = (r, s2)"
    and "run_command env1 req c s2 = (Ret (Finishing req b), k, s3)" and "finish_command env1 req b c s3 = (Ret p, s4)"
    and "Execute env2 \<lparr>Command = DISCARD, Arguments = []\<rparr> c s4 = (r', s5)"
    and "spec_write env' req (keys_of (DB s1)) = (Ret b', K)"
  shows "r = Ret OK \<and> b = QUEUED \<and> r' = Ret OK \<and> DB s5 = DB s1 \<and> CommandQueue (client s5 c) = [] \<and>
    (\<exists>s6. StartMaster env' clock' (blank_server cfg (FS s5) st) = (Ret (), s6) \<and> keys_of (DB s6) = K)"
proof (rule start_with_more [OF assms(1-3,5-8,4)], goal_cases)
  case (1 a)
  note a = 1(1) and again = 1(2)
  have master: "Role (Node s1) = NodeRoleMaster" using first_run_master [OF assms(1)] write_session_Node [OF assms(2,3)] by simp
  have s2: "r = Ret OK" "s2 = set_client c ((client s1 c)\<lparr>Mode := ClientModeTransaction\<rparr>) s1"
    using session_commands(1) [OF master assms(11)] assms(14) by simp_all
  have master2: "Role (Node s2) = NodeRoleMaster" and mode: "Mode (client s2 c) = ClientModeTransaction"
    using master by (simp_all add: s2(2)) (simp add: set_client_def)
  have s3: "b = QUEUED" "s3 = enqueue c req s2" using queued_write [OF assms(9) mode master2, of env1] assms(15) by simp_all
  have keep: "logging a s3" "FS s3 = FS s1" "DB s3 = DB s1" "Node s3 = Node s1"
    using a by (simp_all add: s3(2) s2(2) logging_def enqueue_def set_client_def)
  note fin = finish_write [OF assms(9,16) keep(1) assms(13)]
  have "Mode (client s4 c) = ClientModeTransaction" using fin mode by (simp add: s3(2) enqueue_def)
  moreover have "Role (Node s4) = NodeRoleMaster" using fin keep(4) master by simp
  ultimately have s5: "r' = Ret OK" "s5 = ResetTransactionState env2 c s4" using session_commands(2) assms(17) by simp_all
  have s5': "DB s5 = DB s1" "CommandQueue (client s5 c) = []" "FS s5 = FS s4"
    using fin keep(3) frame_simps(7) [of env2 c s4] by (simp_all add: s5(2) frame_def)
  have "\<exists>s6. StartMaster env' clock' (blank_server cfg (FS s5) st) = (Ret (), s6) \<and> keys_of (DB s6) = K"
  proof (rule again [where more = "[wire_cmd (Lib env) req]"])
    show "\<forall>x \<in> set [wire_cmd (Lib env) req]. valid_cmd x" using assms(9) by (auto elim!: write_requestD [where lib = "Lib env"])
    fix t :: Server assume t: "idle (DB t)" "keys_of (DB t) = keys_of (DB s1)" "Role (Node t) = NodeRoleMaster"
    from replay_command_spec [OF assms(9) _ t(1,3), of env'] assms(6,10,18) t(2)
    show "\<exists>t'. replay_all (replay_command env') [wire_cmd (Lib env) req] t = (Ret (), t') \<and> keys_of (DB t') = K" by auto
  qed (use fin keep(2) s5'(3) assms(12) in simp_all)
  with s2(1) s3(1) s5(1) s5' show ?thesis by blast
qed

theorem discarded_command_returns_after_restart_witness:
  "\<exists>s1 s2 b k s3 p s4 s5 s6. write_session sample_session (accept [1, 2] (snd (start_at 1 []))) = Some s1 \<and>
    Execute (sample_env 4) \<lparr>Command = MULTI, Arguments = []\<rparr> 1 s1 = (Ret OK, s2) \<and>
    run_command (sample_env 4) (set_x ''y'') 1 s2 = (Ret (Finishing (set_x ''y'') b), k, s3) \<and>
    finish_command (sample_env 4) (set_x ''y'') b 1 s3 = (Ret p, s4) \<and>
    Execute (sample_env 4) \<lparr>Command = DISCARD, Arguments = []\<rparr> 1 s4 = (Ret OK, s5) \<and> DB s5 = DB s1 \<and>
    keys_of (DB s1) ''x'' = None \<and> start_at 500 (FS s5) = (Ret (), s6) \<and> keys_of (DB s6) ''x'' = Some (AStr ''y'', zero_time)"
proof -
  obtain s1 where s1: "write_session sample_session (accept [1, 2] (snd (start_at 1 []))) = Some s1" "serving 1 s1"
      "keys_of (DB s1) ''x'' = None"
    and runs: "case Execute (sample_env 4) \<lparr>Command = MULTI, Arguments = []\<rparr> 1 s1 of (r, s2) \<Rightarrow>
      (case run_command (sample_env 4) (set_x ''y'') 1 s2 of
         (Ret (Finishing q b), k, s3) \<Rightarrow> q = set_x ''y'' \<and>
           (case fst (finish_command (sample_env 4) (set_x ''y'') b 1 s3) of Ret p \<Rightarrow> True | _ \<Rightarrow> False)
       | _ \<Rightarrow> False)" by (rule sample_after)
  obtain r s2 where multi: "Execute (sample_env 4) \<lparr>Command = MULTI, Arguments = []\<rparr> 1 s1 = (r, s2)" by fastforce
  obtain y k s3 where y: "run_command (sample_env 4) (set_x ''y'') 1 s2 = (y, k, s3)" by (rule prod_cases3)
  have "case y of Ret (Finishing q b) \<Rightarrow> q = set_x ''y'' \<and>
      (case fst (finish_command (sample_env 4) (set_x ''y'') b 1 s3) of Ret p \<Rightarrow> True | _ \<Rightarrow> False) | _ \<Rightarrow> False"
    using runs by (simp only: multi y prod.case)
  then obtain b where "y = Ret (Finishing (set_x ''y'') b)"
    and sent: "case fst (finish_command (sample_env 4) (set_x ''y'') b 1 s3) of Ret p \<Rightarrow> True | _ \<Rightarrow> False"
    by (cases y) (simp_all only: go_result.case, simp split: phase.splits)
  with y have queue: "run_command (sample_env 4) (set_x ''y'') 1 s2 = (Ret (Finishing (set_x ''y'') b), k, s3)" by simp
  obtain p s4 where finish: "finish_command (sample_env 4) (set_x ''y'') b 1 s3 = (Ret p, s4)" by (rule returned_fst [OF sent])
  obtain r' s5 where discard: "Execute (sample_env 4) \<lparr>Command = DISCARD, Arguments = []\<rparr> 1 s4 = (r', s5)" by fastforce
  have "r = Ret OK \<and> b = QUEUED \<and> r' = Ret OK \<and> DB s5 = DB s1 \<and> CommandQueue (client s5 1) = [] \<and>
      (\<exists>s6. StartMaster (sample_env 500) (\<lambda>_. 500) (blank_server log_config (FS s5) New) = (Ret (), s6) \<and>
        keys_of (DB s6) = (keys_of (DB s1))(''x'' \<mapsto> (AStr ''y'', zero_time)))"
    using sample_serving sample_DB
    by (intro discarded_command_returns_after_restart [OF sample_first_run sample_session_good s1(1) _ _ _ sample_session_repeatable _
          _ set_x_request(2) s1(2) _ _ multi queue finish discard set_x_request(3)])
      (simp_all add: set_x_request sample_session_def sample_env_def dump_agrees_def Load_def)
  then obtain s6 where "r = Ret OK" "r' = Ret OK" "DB s5 = DB s1" "start_at 500 (FS s5) = (Ret (), s6)" "keys_of (DB s6) ''x'' = Some (AStr ''y'', zero_time)"
    by (auto simp: start_at_def)
  with s1(1,3) multi queue finish discard show ?thesis by blast
qed

text \<open>C24. Commands are logged after the lock is released, so the log may have them in another order than the one in which
  they ran. After any session of successful write commands as before: if a client executes one write command and then another client
  a second one, and the second client comes to log its command before the first, then the key space is that of the two commands in
  the order in which they ran, and a later start from the files gives that of the two in the other order, if they
  succeed in it.\<close>

theorem restart_can_undo_a_write:
  assumes "first_run cfg env clock fs st conns s" and "good_session (Lib env) ses s" and "write_session ses s = Some s1"
    and "\<forall>item \<in> set ses. Faults (fst item) = no_faults" and "Faults env' = no_faults" and "Lib env' = Lib env"
    and "repeatable ses env'" and "dump_agrees clock clock' (map_of fs (dump_path cfg)) st"
    and "write_request req1" and "clean_request (Lib env) req1" and "serving c1 s1" and "Lib env1 = Lib env" and "Faults env1 = no_faults"
    and "write_request req2" and "clean_request (Lib env) req2" and "serving c2 s1" and "Lib env2 = Lib env" and "Faults env2 = no_faults"
    and "Execute env1 req1 c1 s1 = (Ret b1, s2)" and "Execute env2 req2 c2 s2 = (Ret b2, s3)"
    and "finish_command env2 req2 b2 c2 s3 = (Ret p2, s4)" and "finish_command env1 req1 b1 c1 s4 = (Ret p1, s5)"
    and "spec_write env' req2 (keys_of (DB s1)) = (Ret d2, K2)" and "spec_write env' req1 K2 = (Ret d1, K)"
  shows "keys_of (DB s5) = snd (spec_write env2 req2 (snd (spec_write env1 req1 (keys_of (DB s1))))) \<and>
    (\<exists>s6. StartMaster env' clock' (blank_server cfg (FS s5) st) = (Ret (), s6) \<and> keys_of (DB s6) = K)"
proof (rule start_with_more [OF assms(1-3,5-8,4)], goal_cases)
  case (1 a)
  note a = 1(1) and again = 1(2)
  have i1: "idle (DB s1)" using write_session_idle [OF assms(2,3)] by blast
  note e1 = Execute_serving [OF assms(9,11,19)]
  have run1: "spec_write env1 req1 (keys_of (DB s1)) = (Ret b1, keys_of (DB s2))" "idle (DB s2)"
    using write_meets [OF assms(9) _ assms(11) i1 assms(19)] assms(10,12) by auto
  have run2: "spec_write env2 req2 (keys_of (DB s2)) = (Ret b2, keys_of (DB s3))"
    using write_meets [OF assms(14) _ _ run1(2) assms(20)] assms(15-17) e1 by auto
  have s3: "logging a s3" "FS s3 = FS s1"
    using e1 frame_Execute [of env2 req2 c2 s2] assms(20) a by (simp_all add: frame_def logging_def)
  note f2 = finish_write [OF assms(14,21) s3(1) assms(18)]
  then have "logging a s4" by blast
  note f1 = finish_write [OF assms(9,22) this assms(13)]
  have "\<exists>s6. StartMaster env' clock' (blank_server cfg (FS s5) st) = (Ret (), s6) \<and> keys_of (DB s6) = K"
  proof (rule again [where more = "[wire_cmd (Lib env) req2, wire_cmd (Lib env) req1]"])
    show "\<forall>x \<in> set [wire_cmd (Lib env) req2, wire_cmd (Lib env) req1]. valid_cmd x"
      using assms(9,14) by (auto elim!: write_requestD [where lib = "Lib env"])
    fix t :: Server assume t: "idle (DB t)" "keys_of (DB t) = keys_of (DB s1)" "Role (Node t) = NodeRoleMaster"
    from replay_command_spec [OF assms(14) _ t(1,3), of env'] assms(6,15,23) t(2)
    obtain t1 where t1: "replay_command env' (wire_cmd (Lib env) req2) t = (Ret (), t1)" "keys_of (DB t1) = K2" "idle (DB t1)"
        "Role (Node t1) = NodeRoleMaster" by auto
    from replay_command_spec [OF assms(9) _ t1(3,4), of env'] assms(6,10,24) t1(2)
    obtain t2 where "replay_command env' (wire_cmd (Lib env) req1) t1 = (Ret (), t2)" "keys_of (DB t2) = K" by auto
    with t1(1) show "\<exists>t'. replay_all (replay_command env') [wire_cmd (Lib env) req2, wire_cmd (Lib env) req1] t = (Ret (), t') \<and>
        keys_of (DB t') = K" by simp
  qed (use f1 f2 s3(2) assms(12,17) in simp_all)
  with run1(1) run2 f1 f2 show ?thesis by simp
qed

theorem restart_can_undo_a_write_witness:
  "\<exists>s1 b1 s2 b2 s3 p2 s4 p1 s5 s6. write_session sample_session (accept [1, 2] (snd (start_at 1 []))) = Some s1 \<and>
    Execute (sample_env 4) (set_x ''old'') 1 s1 = (Ret b1, s2) \<and> Execute (sample_env 4) (set_x ''new'') 2 s2 = (Ret b2, s3) \<and>
    finish_command (sample_env 4) (set_x ''new'') b2 2 s3 = (Ret p2, s4) \<and>
    finish_command (sample_env 4) (set_x ''old'') b1 1 s4 = (Ret p1, s5) \<and>
    keys_of (DB s5) ''x'' = Some (AStr ''new'', zero_time) \<and>
    start_at 500 (FS s5) = (Ret (), s6) \<and> keys_of (DB s6) ''x'' = Some (AStr ''old'', zero_time)"
proof -
  let ?old = "set_x ''old''" and ?new = "set_x ''new''"
  obtain s1 where s1: "write_session sample_session (accept [1, 2] (snd (start_at 1 []))) = Some s1" "serving 1 s1" "serving 2 s1"
    and runs: "case Execute (sample_env 4) ?old 1 s1 of
       (Ret b1, s2) \<Rightarrow>
         (case Execute (sample_env 4) ?new 2 s2 of
            (Ret b2, s3) \<Rightarrow>
              (case finish_command (sample_env 4) ?new b2 2 s3 of
                 (Ret p2, s4) \<Rightarrow> (case fst (finish_command (sample_env 4) ?old b1 1 s4) of Ret p \<Rightarrow> True | _ \<Rightarrow> False)
               | _ \<Rightarrow> False)
          | _ \<Rightarrow> False)
     | _ \<Rightarrow> False" by (rule sample_after)
  obtain b1 s2 where x1: "Execute (sample_env 4) ?old 1 s1 = (Ret b1, s2)"
    and runs2: "case Execute (sample_env 4) ?new 2 s2 of
         (Ret b2, s3) \<Rightarrow>
           (case finish_command (sample_env 4) ?new b2 2 s3 of
              (Ret p2, s4) \<Rightarrow> (case fst (finish_command (sample_env 4) ?old b1 1 s4) of Ret p \<Rightarrow> True | _ \<Rightarrow> False)
            | _ \<Rightarrow> False)
       | _ \<Rightarrow> False" by (rule returned_pair [OF runs])
  obtain b2 s3 where x2: "Execute (sample_env 4) ?new 2 s2 = (Ret b2, s3)"
    and runs3: "case finish_command (sample_env 4) ?new b2 2 s3 of
         (Ret p2, s4) \<Rightarrow> (case fst (finish_command (sample_env 4) ?old b1 1 s4) of Ret p \<Rightarrow> True | _ \<Rightarrow> False)
       | _ \<Rightarrow> False" by (rule returned_pair [OF runs2])
  obtain p2 s4 where x3: "finish_command (sample_env 4) ?new b2 2 s3 = (Ret p2, s4)"
    and runs4: "case fst (finish_command (sample_env 4) ?old b1 1 s4) of Ret p \<Rightarrow> True | _ \<Rightarrow> False"
    by (rule returned_pair [OF runs3])
  obtain p1 s5 where fin: "finish_command (sample_env 4) ?old b1 1 s4 = (Ret p1, s5)" by (rule returned_fst [OF runs4])
  let ?K = "(keys_of (DB s1))(''x'' \<mapsto> (AStr ''new'', zero_time))"
  have "keys_of (DB s5) = snd (spec_write (sample_env 4) ?new (snd (spec_write (sample_env 4) ?old (keys_of (DB s1))))) \<and>
      (\<exists>s6. StartMaster (sample_env 500) (\<lambda>_. 500) (blank_server log_config (FS s5) New) = (Ret (), s6) \<and>
        keys_of (DB s6) = ?K(''x'' \<mapsto> (AStr ''old'', zero_time)))"
    using sample_serving sample_DB
    by (intro restart_can_undo_a_write [OF sample_first_run sample_session_good s1(1) _ _ _ sample_session_repeatable _
          _ set_x_request(2) s1(2) _ _ _ set_x_request(2) s1(3) _ _ x1 x2 x3 fin set_x_request(3) set_x_request(3)])
      (simp_all add: set_x_request sample_session_def sample_env_def dump_agrees_def Load_def)
  then obtain s6 where "keys_of (DB s5) = ?K" "start_at 500 (FS s5) = (Ret (), s6)" "keys_of (DB s6) = ?K(''x'' \<mapsto> (AStr ''old'', zero_time))"
    by (auto simp: start_at_def set_x_request(3))
  moreover from this have "keys_of (DB s5) ''x'' = Some (AStr ''new'', zero_time)" "keys_of (DB s6) ''x'' = Some (AStr ''old'', zero_time)"
    by simp_all
  ultimately show ?thesis using s1(1) x1 x2 x3 fin by blast
qed

text \<open>A relative expiry is logged as it was sent, so a later restart counts it from the time of the restart.\<close>

lemma restart_extends_expiry:
  "\<exists>s s'. restarted expiry_run 500 s s' \<and> expiry_at ''k'' s = Some 10000001 \<and> expiry_at ''k'' s' = Some 10000500"
  using restart_scenarios by (elim compare_restartE) blast

text \<open>A replica never opens a log. With \<open>appendonly yes\<close> the first write command of a client that it executes brings it down.\<close>

lemma NewServer_replica_no_log: "NewServer env clock cfg fs st = Ret s \<Longrightarrow> Replicaof cfg \<noteq> [] \<Longrightarrow> AOF s = None \<and> Cfg s = cfg"
  by (auto simp: NewServer_def blank_server_def Let_def split: if_splits option.splits)

lemma replica_with_log_crashes:
  assumes "NewServer env clock cfg fs st = Ret s0" and "Replicaof cfg \<noteq> []" and "Appendonly cfg = TypeAppendOnlyYes"
    and "AOF s = AOF s0" and "Cfg s = Cfg s0" and "write_request req"
  shows "fst (finish_command env' req b c s) = Panic"
proof -
  have "AOF s = None" "Appendonly (Cfg s) = TypeAppendOnlyYes" using NewServer_replica_no_log [OF assms(1,2)] assms(3-5) by simp_all
  moreover obtain r s' where r: "propagate env' req s = (r, s')" by fastforce
  ultimately have "r = Panic" by (cases rule: propagate_write [OF assms(6) r]) simp_all
  with r show ?thesis by (simp add: finish_command_def)
qed

end
