(* ===== verification/Program.thy ===== *)
theory Program
  imports StartupCorrect
begin

text \<open>
  The program itself: \<^verbatim>\<open>main.go\<close>, the flags that \<^verbatim>\<open>GetConfig\<close> reads with Go's package \<^verbatim>\<open>flag\<close>, and the listener of
  \<^verbatim>\<open>server/server.go\<close>, whose loop only adds connections to the system of \<open>Connection\<close>. The path of the executable, the
  arguments, the files and whether the port can be listened on are parameters. On a replica the system starts with the goroutine
  that dials the master.

  The lemmas show that every configuration can be given by flags, and that the system which \<open>main\<close> starts satisfies the
  invariant of all reachable states.
\<close>

subsection \<open>Integers with a base prefix\<close>

text \<open>\<^verbatim>\<open>strconv.ParseInt(s, 0, 64)\<close>, with which \<^verbatim>\<open>flag.IntVar\<close> reads its value: a sign, a prefix that gives the base, digits, and
  underscores between digits.\<close>

definition digit_value :: "char \<Rightarrow> nat option" where
  "digit_value c =
     (let n = of_char c :: nat; l = of_char (lower_char c) :: nat
      in if 48 \<le> n \<and> n \<le> 57 then Some (n - 48)
         else if 97 \<le> l \<and> l \<le> 122 then Some (l - 87) else None)"

definition base_prefix :: "string \<Rightarrow> nat \<times> string" where
  "base_prefix s =
     (if s \<noteq> [] \<and> s ! 0 = CHR ''0'' then
        (if 3 \<le> length s \<and> lower_char (s ! 1) = CHR ''b'' then (2, drop 2 s)
         else if 3 \<le> length s \<and> lower_char (s ! 1) = CHR ''o'' then (8, drop 2 s)
         else if 3 \<le> length s \<and> lower_char (s ! 1) = CHR ''x'' then (16, drop 2 s)
         else (8, drop 1 s))
      else (10, s))"

fun parse_digits :: "nat \<Rightarrow> nat \<Rightarrow> string \<Rightarrow> nat option" where
  "parse_digits base n [] = Some n"
| "parse_digits base n (c # cs) =
     (if c = CHR ''_'' then parse_digits base n cs
      else (case digit_value c of
          None \<Rightarrow> None
        | Some d \<Rightarrow> (if d < base then parse_digits base (n * base + d) cs else None)))"

text \<open>The scan of \<^verbatim>\<open>underscoreOK\<close>; the first argument is the kind of the last character: a digit (or the prefix), an underscore,
  or neither.\<close>

datatype seen = SDigit | SUnderscore | SOther

fun underscores_between :: "bool \<Rightarrow> seen \<Rightarrow> string \<Rightarrow> bool" where
  "underscores_between hex prev [] = (prev \<noteq> SUnderscore)"
| "underscores_between hex prev (c # cs) =
     (if is_digit c \<or> (hex \<and> lower_char c \<in> set ''abcdef'') then underscores_between hex SDigit cs
      else if c = CHR ''_'' then prev = SDigit \<and> underscores_between hex SUnderscore cs
      else prev \<noteq> SUnderscore \<and> underscores_between hex SOther cs)"

definition underscoreOK :: "string \<Rightarrow> bool" where
  "underscoreOK s =
     (if 2 \<le> length s \<and> s ! 0 = CHR ''0'' \<and> lower_char (s ! 1) \<in> set ''box''
      then underscores_between (lower_char (s ! 1) = CHR ''x'') SDigit (drop 2 s)
      else underscores_between False SOther s)"

definition ParseInt0 :: "string \<Rightarrow> int option" where
  "ParseInt0 s =
     (let (neg, u) = split_sign s
      in if u = [] then None
         else (let (base, ds) = base_prefix u
               in case parse_digits base 0 ds of
                    None \<Rightarrow> None
                  | Some n \<Rightarrow>
                      (let i = (if neg then - int n else int n)
                       in if CHR ''_'' \<in> set ds \<and> \<not> underscoreOK u then None
                          else if min_int64 \<le> i \<and> i \<le> max_int64 then Some i else None)))"

subsection \<open>The flags\<close>

text \<open>A program that goes on with a value, or ends with a status.\<close>

datatype 'a process = Goes 'a | Exits int

definition flag_setters :: "(string \<times> (string \<Rightarrow> Config \<Rightarrow> Config option)) list" where
  "flag_setters =
    [(''port'', \<lambda>v cfg. map_option (\<lambda>i. cfg\<lparr>Port := i\<rparr>) (ParseInt0 v)),
     (''host'', \<lambda>v cfg. Some (cfg\<lparr>Bind := v\<rparr>)),
     (''timeout'', \<lambda>v cfg. map_option (\<lambda>i. cfg\<lparr>Timeout := i\<rparr>) (ParseInt0 v)),
     (''dbfilename'', \<lambda>v cfg. Some (cfg\<lparr>Dbfilename := v\<rparr>)),
     (''dir'', \<lambda>v cfg. Some (cfg\<lparr>Dir := v\<rparr>)),
     (''appendonly'', \<lambda>v cfg. Some (cfg\<lparr>Appendonly := v\<rparr>)),
     (''appenddirname'', \<lambda>v cfg. Some (cfg\<lparr>Appenddirname := v\<rparr>)),
     (''appendfilename'', \<lambda>v cfg. Some (cfg\<lparr>Appendfilename := v\<rparr>)),
     (''appendfsync'', \<lambda>v cfg. Some (cfg\<lparr>Appendfsync := v\<rparr>)),
     (''replicaof'', \<lambda>v cfg. Some (cfg\<lparr>Replicaof := v\<rparr>))]"

text \<open>The name of a flag and the value behind the first \<^verbatim>\<open>=\<close> in it, which is not its first character.\<close>

definition split_flag :: "string \<Rightarrow> string \<times> string option" where
  "split_flag name =
     (let nm = take 1 name @ takeWhile (\<lambda>c. c \<noteq> CHR ''='') (drop 1 name)
      in (nm, if length nm < length name then Some (drop (length nm + 1) name) else None))"

text \<open>\<^verbatim>\<open>flag.Parse\<close> with \<^verbatim>\<open>flag.ExitOnError\<close>: \<^verbatim>\<open>-name value\<close>, \<^verbatim>\<open>-name=value\<close> and the same with two dashes, up to the first argument that
  is not a flag; a request for help ends the program with status 0, any mistake with status 2.\<close>

fun parse_flags :: "string list \<Rightarrow> Config \<Rightarrow> Config process" where
  "parse_flags [] cfg = Goes cfg"
| "parse_flags (s # args) cfg =
     (if length s < 2 \<or> s ! 0 \<noteq> CHR ''-'' \<or> s = ''--'' then Goes cfg
      else (let name = drop (if s ! 1 = CHR ''-'' then 2 else 1) s
            in if name ! 0 = CHR ''-'' \<or> name ! 0 = CHR ''='' then Exits 2
               else (let (nm, inline) = split_flag name
                     in case map_of flag_setters nm of
                          None \<Rightarrow> Exits (if nm = ''help'' \<or> nm = ''h'' then 0 else 2)
                        | Some setter \<Rightarrow>
                            (case inline of
                               Some v \<Rightarrow> (case setter v cfg of None \<Rightarrow> Exits 2 | Some cfg' \<Rightarrow> parse_flags args cfg')
                             | None \<Rightarrow>
                                 (case args of
                                    [] \<Rightarrow> Exits 2
                                  | v # rest \<Rightarrow>
                                      (case setter v cfg of None \<Rightarrow> Exits 2 | Some cfg' \<Rightarrow> parse_flags rest cfg'))))))"

definition GetConfig :: "string list \<Rightarrow> Config \<Rightarrow> Config process" where
  "GetConfig args dConfig = parse_flags args dConfig"

subsection \<open>Listening\<close>

text \<open>An attempt to accept a connection fails, which is only logged, or gives a connection and what its peer will send.\<close>

definition Serve_step :: "env \<Rightarrow> (nat \<times> reader) option \<Rightarrow> Sys \<Rightarrow> Sys" where
  "Serve_step env accepted y =
     (case accepted of
        None \<Rightarrow> y
      | Some (conn, r) \<Rightarrow> (case sys_step env (Accept conn r) y of Some y' \<Rightarrow> y' | None \<Rightarrow> y))"

definition ListenAndServe :: "bool \<Rightarrow> Server \<Rightarrow> Sys process" where
  "ListenAndServe listening s = (if listening then Goes (idle_system s) else Exits 1)"

definition path_Dir :: "string \<Rightarrow> string" where
  "path_Dir s = path_Clean (rev (dropWhile (\<lambda>c. c \<noteq> CHR ''/'') (rev s)))"

definition main :: "env \<Rightarrow> (nat \<Rightarrow> int) \<Rightarrow> string option \<Rightarrow> string list \<Rightarrow> fs \<Rightarrow> bool \<Rightarrow> Sys process" where
  "main env clock executable args fs listening =
     (case executable of
        None \<Rightarrow> Exits 1
      | Some exe \<Rightarrow>
          (case GetConfig args (GetDefaultConfig (path_Dir exe)) of
             Exits n \<Rightarrow> Exits n
           | Goes cfg \<Rightarrow>
               (case NewServer env clock cfg fs New of
                  Err e \<Rightarrow> Exits 1
                | Panic \<Rightarrow> Exits 2
                | Ret s \<Rightarrow> ListenAndServe listening s)))"

subsection \<open>Properties of the flags\<close>

lemma nat_digits_first: "0 < n \<Longrightarrow> hd (nat_digits n) \<noteq> CHR ''0''"
proof (induction n rule: nat_digits.induct)
  case (1 n)
  show ?case
  proof (cases "n < 10")
    case True
    then have "of_char (digit_char n) = 48 + n" by simp
    with 1(2) have "digit_char n \<noteq> CHR ''0''" by auto
    with True show ?thesis by (simp add: nat_digits.simps [of n])
  next
    case False
    then show ?thesis using 1 by (simp add: nat_digits.simps [of n])
  qed
qed

lemma digit_value_digit: "is_digit c \<Longrightarrow> digit_value c = Some (digit_val c) \<and> digit_val c < 10 \<and> c \<noteq> CHR ''_''"
  by (auto simp: is_digit_def digit_value_def digit_val_def)

lemma parse_digits_decimal:
  "list_all is_digit s \<Longrightarrow> parse_digits 10 n s = Some (foldl (\<lambda>v c. v * 10 + digit_val c) n s)"
  by (induction s arbitrary: n) (auto dest: digit_value_digit)

lemma ParseInt0_Itoa:
  assumes "min_int64 \<le> i" and "i \<le> max_int64"
  shows "ParseInt0 (Itoa i) = Some i"
proof -
  let ?n = "nat (abs i)" and ?ds = "nat_digits (nat (abs i))"
  have digits: "list_all is_digit ?ds" by (rule nat_digits_all_digits)
  then have plain: "CHR ''_'' \<notin> set ?ds" by (auto simp: list_all_iff dest: digit_value_digit)
  have sign: "split_sign (Itoa i) = (i < 0, ?ds)" by (simp add: Itoa_def)
  have total: "foldl (\<lambda>v c. v * 10 + digit_val c) 0 ?ds = ?n"
    using digits_value_nat_digits [of ?n] by (simp add: digits_value_def)
  show ?thesis
  proof (cases "i = 0")
    case True
    have "ParseInt0 (Itoa 0) = Some 0" by code_simp
    then show ?thesis using True by simp
  next
    case False
    then have "hd ?ds \<noteq> CHR ''0''" by (intro nat_digits_first) simp
    then have "base_prefix ?ds = (10, ?ds)" by (simp add: base_prefix_def hd_conv_nth)
    then show ?thesis
      using assms plain by (simp add: ParseInt0_def sign parse_digits_decimal [OF digits] total)
  qed
qed

text \<open>The arguments that give every flag.\<close>

definition flag_args :: "Config \<Rightarrow> string list" where
  "flag_args cfg =
     [''-port'', Itoa (Port cfg), ''-host'', Bind cfg, ''-timeout'', Itoa (Timeout cfg), ''-dbfilename'', Dbfilename cfg,
      ''-dir'', Dir cfg, ''-appendonly'', Appendonly cfg, ''-appenddirname'', Appenddirname cfg,
      ''-appendfilename'', Appendfilename cfg, ''-appendfsync'', Appendfsync cfg, ''-replicaof'', Replicaof cfg]"

lemma parse_flag_known:
  assumes "map_of flag_setters nm = Some setter" and "nm \<noteq> []" and "CHR ''='' \<notin> set nm" and "nm ! 0 \<noteq> CHR ''-''"
  shows "parse_flags ((CHR ''-'' # nm) # v # rest) cfg = (case setter v cfg of None \<Rightarrow> Exits 2 | Some cfg' \<Rightarrow> parse_flags rest cfg')"
proof -
  have "takeWhile (\<lambda>c. c \<noteq> CHR ''='') (drop 1 nm) = drop 1 nm"
    using assms(3) by (auto simp: takeWhile_eq_all_conv dest: in_set_dropD)
  then have "take 1 nm @ takeWhile (\<lambda>c. c \<noteq> CHR ''='') (drop 1 nm) = nm" by (simp only: append_take_drop_id)
  then have "split_flag nm = (nm, None)" by (simp add: split_flag_def Let_def)
  moreover have "nm ! 0 \<noteq> CHR ''=''" using assms(2,3) by (metis length_greater_0_conv nth_mem)
  ultimately show ?thesis using assms(1,2,4) by (cases nm) simp_all
qed

lemma flag_setter_rows:
  "map_of flag_setters ''port'' = Some (\<lambda>v cfg. map_option (\<lambda>i. cfg\<lparr>Port := i\<rparr>) (ParseInt0 v))"
  "map_of flag_setters ''host'' = Some (\<lambda>v cfg. Some (cfg\<lparr>Bind := v\<rparr>))"
  "map_of flag_setters ''timeout'' = Some (\<lambda>v cfg. map_option (\<lambda>i. cfg\<lparr>Timeout := i\<rparr>) (ParseInt0 v))"
  "map_of flag_setters ''dbfilename'' = Some (\<lambda>v cfg. Some (cfg\<lparr>Dbfilename := v\<rparr>))"
  "map_of flag_setters ''dir'' = Some (\<lambda>v cfg. Some (cfg\<lparr>Dir := v\<rparr>))"
  "map_of flag_setters ''appendonly'' = Some (\<lambda>v cfg. Some (cfg\<lparr>Appendonly := v\<rparr>))"
  "map_of flag_setters ''appenddirname'' = Some (\<lambda>v cfg. Some (cfg\<lparr>Appenddirname := v\<rparr>))"
  "map_of flag_setters ''appendfilename'' = Some (\<lambda>v cfg. Some (cfg\<lparr>Appendfilename := v\<rparr>))"
  "map_of flag_setters ''appendfsync'' = Some (\<lambda>v cfg. Some (cfg\<lparr>Appendfsync := v\<rparr>))"
  "map_of flag_setters ''replicaof'' = Some (\<lambda>v cfg. Some (cfg\<lparr>Replicaof := v\<rparr>))"
  by (simp_all add: flag_setters_def)

lemma parse_flag_rows:
  "parse_flags (''-port'' # v # rest) cfg = (case ParseInt0 v of None \<Rightarrow> Exits 2 | Some i \<Rightarrow> parse_flags rest (cfg\<lparr>Port := i\<rparr>))"
  "parse_flags (''-host'' # v # rest) cfg = parse_flags rest (cfg\<lparr>Bind := v\<rparr>)"
  "parse_flags (''-timeout'' # v # rest) cfg = (case ParseInt0 v of None \<Rightarrow> Exits 2 | Some i \<Rightarrow> parse_flags rest (cfg\<lparr>Timeout := i\<rparr>))"
  "parse_flags (''-dbfilename'' # v # rest) cfg = parse_flags rest (cfg\<lparr>Dbfilename := v\<rparr>)"
  "parse_flags (''-dir'' # v # rest) cfg = parse_flags rest (cfg\<lparr>Dir := v\<rparr>)"
  "parse_flags (''-appendonly'' # v # rest) cfg = parse_flags rest (cfg\<lparr>Appendonly := v\<rparr>)"
  "parse_flags (''-appenddirname'' # v # rest) cfg = parse_flags rest (cfg\<lparr>Appenddirname := v\<rparr>)"
  "parse_flags (''-appendfilename'' # v # rest) cfg = parse_flags rest (cfg\<lparr>Appendfilename := v\<rparr>)"
  "parse_flags (''-appendfsync'' # v # rest) cfg = parse_flags rest (cfg\<lparr>Appendfsync := v\<rparr>)"
  "parse_flags (''-replicaof'' # v # rest) cfg = parse_flags rest (cfg\<lparr>Replicaof := v\<rparr>)"
  by (simp_all add: flag_setter_rows [THEN parse_flag_known] case_map_option del: parse_flags.simps split: option.split)

lemma parse_flags_all:
  assumes "min_int64 \<le> Port cfg" and "Port cfg \<le> max_int64" and "min_int64 \<le> Timeout cfg" and "Timeout cfg \<le> max_int64"
  shows "parse_flags (flag_args cfg) d = Goes (cfg\<lparr>KeepAlive := KeepAlive d, KeepAliveTimeout := KeepAliveTimeout d\<rparr>)"
  using assms by (simp add: flag_args_def parse_flag_rows ParseInt0_Itoa del: parse_flags.simps(2))

subsection \<open>What main starts\<close>

lemma StartMaster_no_log:
  assumes "StartMaster env clock s = (Ret u, s')" and "Appendonly (Cfg s) \<noteq> TypeAppendOnlyYes" and "store_ok (DB s)"
  shows "store_ok (DB s') \<and> client s' = client s"
proof -
  obtain r s1 where s1: "load_dump clock s = (r, s1)" by fastforce
  then have "store_ok (DB s1) \<and> client s1 = client s \<and> Cfg s1 = Cfg s"
    using Load_safe [OF assms(3)] assms(3) by (auto simp: load_dump_def set_DB_def client_def fun_eq_iff split: if_splits prod.splits)
      (metis snd_conv)+
  then show ?thesis
    using assms(1,2) s1 by (auto simp: StartMaster_def load_log_def client_def fun_eq_iff split: go_result.splits if_splits)
qed

lemma frame_replay: "Cfg (snd (replay_command env args s)) = Cfg s"
proof (cases args)
  case (Cons a as)
  obtain i s1 where s1: "new_client TypeClientInternal 0 s = (i, s1)" by fastforce
  then have "Cfg s1 = Cfg s" by (auto simp: new_client_def nextClientID_def set_client_def Let_def)
  moreover obtain r s2 where s2: "Execute env \<lparr>Command = ToLower (Lib env) a, Arguments = as\<rparr> i s1 = (r, s2)" by fastforce
  have "frame s2 = frame s1" using frame_Execute [of env "\<lparr>Command = ToLower (Lib env) a, Arguments = as\<rparr>" i s1] s2 by simp
  ultimately show ?thesis using Cons s1 s2 by (simp add: replay_command_def frame_def split: go_result.split)
qed (simp add: replay_command_def)

lemma Cfg_replay_loop: "Cfg (snd (replay_loop (replay_command env) r s)) = Cfg s"
proof (induction "replay_command env" r s rule: replay_loop.induct)
  case (1 r s)
  show ?case
  proof (cases "Array_Unmarshal r")
    case (Pair x r')
    show ?thesis
    proof (cases x)
      case (Ret vs)
      obtain y s' where y: "replay_command env vs s = (y, s')" by fastforce
      then have "Cfg s' = Cfg s" using frame_replay [of env vs s] by simp
      with 1 [OF Pair [symmetric] Ret _ y [symmetric]] y Pair Ret show ?thesis
        by (subst replay_loop.simps) (simp split: go_result.split)
    qed (use Pair in \<open>simp_all add: replay_loop.simps [of _ r]\<close>)
  qed
qed

lemma NewServer_cfg:
  assumes "NewServer env clock cfg fs New = Ret s"
  shows "Cfg s = cfg"
proof -
  have dump: "Cfg s1 = Cfg s0" if "load_dump clock s0 = (r, s1)" for r s0 s1
    using that by (auto simp: load_dump_def set_DB_def split: if_splits prod.splits)
  have l: "Cfg (snd (aof_Load (replay_command env) flt fs' a t)) = Cfg t" for flt fs' a t
  proof -
    obtain r u where "replay_loop (replay_command env) \<lparr>Pending = log_content fs' a, AtEnd = EOF\<rparr> t = (r, u)" by fastforce
    with Cfg_replay_loop [of env "\<lparr>Pending = log_content fs' a, AtEnd = EOF\<rparr>" t] show ?thesis
      by (cases r) (simp_all add: aof_Load_def split: option.split)
  qed
  have log: "Cfg (snd (load_log env s0)) = Cfg s0" for s0
    using l by (simp add: load_log_def split: prod.split go_result.split)
  then have log: "Cfg s1 = Cfg s0" if "load_log env s0 = (r, s1)" for r s0 s1
    using that by (metis snd_conv)
  have b: "Cfg (blank_server cfg fs New) = cfg" by (simp add: blank_server_def)
  then have "Cfg s1 = cfg" if "StartMaster env clock (blank_server cfg fs New) = (r, s1)" for r s1
    using that dump log by (fastforce simp: StartMaster_def split: prod.splits go_result.splits)
  with assms b show ?thesis
    by (auto simp: NewServer_def Let_def split: if_splits option.splits prod.splits go_result.splits)
qed

lemma NewServer_ok:
  assumes "NewServer env clock cfg fs New = Ret s" and "Appendonly cfg \<noteq> TypeAppendOnlyYes \<or> Replicaof cfg \<noteq> []"
  shows "srv_ok lib s"
proof -
  let ?b = "blank_server cfg fs New"
  have b: "store_ok (DB ?b)" "Cfg ?b = cfg" "\<forall>c. CommandQueue (client ?b c) = []"
    using store_ok_New by (simp_all add: blank_server_def client_def blank_client_def)
  show ?thesis
  proof (cases "Replicaof cfg = []")
    case True
    then obtain u s1 where "StartMaster env clock ?b = (Ret u, s1)" "s = s1"
      using assms(1) by (auto simp: NewServer_def Let_def split: prod.splits go_result.splits)
    with StartMaster_no_log [of env clock ?b u s1] b assms(2) True show ?thesis by (simp add: srv_ok_def)
  next
    case False
    then obtain n where "s = ?b\<lparr>Node := n\<rparr>"
      using assms(1) by (auto simp: NewServer_def Let_def split: if_splits option.splits)
    with b show ?thesis by (simp add: srv_ok_def client_def)
  qed
qed

subsection \<open>Properties\<close>

text \<open>C38. Every configuration can be given on the command line: the flags that spell out its ten fields, numbers in decimal and
  strings as they are, even when they are empty or look like flags themselves, are read back as exactly this configuration; the
  two fields without a flag keep their defaults.\<close>

theorem flags_give_any_configuration:
  assumes "min_int64 \<le> Port cfg" and "Port cfg \<le> max_int64" and "min_int64 \<le> Timeout cfg" and "Timeout cfg \<le> max_int64"
  shows "GetConfig (flag_args cfg) d = Goes (cfg\<lparr>KeepAlive := KeepAlive d, KeepAliveTimeout := KeepAliveTimeout d\<rparr>)"
  unfolding GetConfig_def by (rule parse_flags_all [OF assms])

theorem flags_give_any_configuration_witness:
  "GetConfig (flag_args ((GetDefaultConfig ''/d'')\<lparr>Port := 7000, Bind := ''-port''\<rparr>)) (GetDefaultConfig ''/e'') =
     Goes ((GetDefaultConfig ''/d'')\<lparr>Port := 7000, Bind := ''-port''\<rparr>)"
  using flags_give_any_configuration [of "(GetDefaultConfig ''/d'')\<lparr>Port := 7000, Bind := ''-port''\<rparr>" "GetDefaultConfig ''/e''"]
  by (simp add: GetDefaultConfig_def min_int64_def max_int64_def)

text \<open>C2. Whatever the command line, the dump file and the files are: if \<open>main\<close> gets as far as listening, and it is a replica or
  keeps no log, then the system it starts satisfies the invariant, and so does every state that its goroutines can reach from there in
  any interleaving, on a replica the one that follows the master included, as long as no client and no master sends a \<^verbatim>\<open>ZADD\<close> that
  names a member twice or gives a NaN score (the steps of \<open>clean_step\<close>).\<close>

theorem started_program_stays_consistent:
  assumes "main env clock exe args fs listening = Goes y"
    and "Appendonly (Cfg (Srv y)) \<noteq> TypeAppendOnlyYes \<or> Replicaof (Cfg (Srv y)) \<noteq> []"
    and "(clean_step lib)\<^sup>*\<^sup>* y y'"
  shows "sys_ok lib y'"
proof -
  obtain cfg s where s: "NewServer env clock cfg fs New = Ret s" "y = idle_system s"
    using assms(1) by (auto simp: main_def ListenAndServe_def split: option.splits process.splits go_result.splits if_splits)
  have "Cfg s = cfg" by (rule NewServer_cfg [OF s(1)])
  with NewServer_ok [OF s(1), of lib] assms(2) s(2) have "sys_ok lib y"
    using locks_ok_idle [of s] by (simp add: sys_ok_def idle_system_def phase_of_def)
  from system.inv_steps [OF assms(3) this] show ?thesis .
qed

text \<open>A replica: its goroutine dials the master, which cannot be reached.\<close>

theorem started_program_stays_consistent_witness:
  "\<exists>y y'. main (sample_env 1) (\<lambda>_. 1) (Some ''/d/tinyred'') [''-port'', ''0x1B58'', ''-replicaof'', ''h 6379''] [] True = Goes y \<and>
    Port (Cfg (Srv y)) = 7000 \<and> Link y = Dialing \<and>
    sys_step (sample_env 1) (LinkSync (Some (EIo EOF)) 1 (sends [])) y = Some y' \<and> Link y' = NoLink \<and> sys_ok sample_lib y'"
proof -
  let ?m = "main (sample_env 1) (\<lambda>_. 1) (Some ''/d/tinyred'') [''-port'', ''0x1B58'', ''-replicaof'', ''h 6379''] [] True"
  have "case ?m of Goes y \<Rightarrow> Port (Cfg (Srv y)) = 7000 \<and> (case Link y of Dialing \<Rightarrow> True | _ \<Rightarrow> False) \<and>
      Replicaof (Cfg (Srv y)) \<noteq> [] \<and> \<not> Crashed y | Exits n \<Rightarrow> False" by code_simp
  then obtain y where y: "?m = Goes y" "Port (Cfg (Srv y)) = 7000" "Link y = Dialing"
      "Replicaof (Cfg (Srv y)) \<noteq> []" "\<not> Crashed y" by (auto split: process.splits link.splits)
  obtain y' where y': "sys_step (sample_env 1) (LinkSync (Some (EIo EOF)) 1 (sends [])) y = Some y'" "Link y' = NoLink"
    using y(3,5) by (simp add: sys_step_def link_sync_def ReplicaHandShake_def settle_link_def split: prod.split)
  then have "clean_step sample_lib y y'"
    by (intro clean_step.intros [OF y'(1)]) (simp_all add: sample_env_def clean_event_def)
  then have "(clean_step sample_lib)\<^sup>*\<^sup>* y y'" by blast
  from started_program_stays_consistent [OF y(1) _ this] y y' show ?thesis by blast
qed

end
