(* ===== verification/Spec2Isabelle.thy ===== *)
theory Spec2Isabelle
  imports Program
begin

text \<open>
  TinyRed is a small Redis-compatible server in Go (about 4000 lines under \<^verbatim>\<open>src/\<close>). This library models all of it that
  computes: the wire protocol, the skip list, the key space with its blocking lists, the dump loader, the append-only
  log, the commands, their dispatch, transactions, the interleaving of the goroutines, and both sides of replication. The
  definitions are executable; a witness evaluates them by \<^verbatim>\<open>simp\<close> or \<^verbatim>\<open>code_simp\<close>.

  \<^bold>\<open>The parts and how they interact.\<close>

  A connection (\<^verbatim>\<open>Server.HandleConnection\<close> in \<^verbatim>\<open>server/server.go\<close>) reads requests through \<^verbatim>\<open>resp/resp.go\<close>, runs them under
  \<^verbatim>\<open>executionMutex\<close> with \<^verbatim>\<open>Server.Execute\<close>, which looks the handler up in \<^verbatim>\<open>CommandHandlers\<close>; the handlers
  (\<^verbatim>\<open>server/commad_handlers.go\<close>) work on the \<^verbatim>\<open>Store\<close> (\<^verbatim>\<open>store/store.go\<close>), whose sorted sets are a hash map and a skip list
  (\<^verbatim>\<open>store/skip_list.go\<close>), and on the sessions of the server. After the lock is released the loop appends write commands
  to the log (\<^verbatim>\<open>aof/aof.go\<close>, \<^verbatim>\<open>aof/manifest.go\<close>), sends them to the replicas and writes the reply. On start a master loads a
  dump (\<^verbatim>\<open>rdb/rdb.go\<close>) and replays the log through \<^verbatim>\<open>Execute\<close>; a replica performs a handshake and then runs what its master
  sends through \<^verbatim>\<open>Execute\<close>. Places are sorted sets whose scores are Morton codes (\<^verbatim>\<open>server/zorder_Morton_code.go\<close>).

  \<^bold>\<open>Theories and the code they model.\<close>

  GoPrelude, GoText, Float64: what the source uses of Go. Results are values: \<open>go_result\<close> is \<^verbatim>\<open>Ret\<close>, \<^verbatim>\<open>Err\<close> or \<^verbatim>\<open>Panic\<close>;
  errors are the datatype \<open>go_error\<close> with the wrapping that \<^verbatim>\<open>errors.As\<close> looks through. Machine integers are words where the code
  works on bits and integers with \<open>wrap64\<close> where it can overflow; a \<^verbatim>\<open>float64\<close> is its 64 bits with exact rounding to
  nearest; Go maps are association lists with distinct keys. GoText has \<^verbatim>\<open>strconv\<close> and \<^verbatim>\<open>strings\<close>. What Go defines by
  Unicode tables, and parsing, printing and transcendental functions of floats, are parameters (the record \<open>golib\<close>).

  Resp (\<^verbatim>\<open>resp/resp.go\<close>): a \<^verbatim>\<open>bufio.Reader\<close> is a record of the bytes to come and the error behind them, and each \<^verbatim>\<open>Unmarshal\<close> a
  state function on it. Each \<^verbatim>\<open>Marshal\<close> is a function to bytes.

  SkipList (\<^verbatim>\<open>store/skip_list.go\<close>): the heap is a map from addresses to nodes with their levels, forward pointers and spans;
  operations return \<open>None\<close> for a nil dereference, an index out of range, or a search that does not end. The walks along a level
  are partial functions, not bounded by fuel, so the results \<open>Some\<close> of \<open>skip_list_insert\<close>, \<open>skip_list_delete\<close>, \<open>skip_list_rank\<close> and
  \<open>skip_list_range\<close> prove that they end. The coin flips of \<^verbatim>\<open>randomLevel\<close> are an argument.

  Store (\<^verbatim>\<open>store/store.go\<close>) with ZSet: the record \<open>Store\<close> has the entries, the queues of waiting clients and the channels made
  for them. Every operation is atomic, as it holds the store's mutex. The wait of \<^verbatim>\<open>BLPOP\<close> is split into its two endings,
  \<open>resolve_receive\<close> and \<open>resolve_timeout\<close>; a timeout of zero has only the first.

  Morton (\<^verbatim>\<open>zorder_Morton_code.go\<close>), Rdb (\<^verbatim>\<open>rdb/rdb.go\<close>), Aof (\<^verbatim>\<open>aof/aof.go\<close>, \<^verbatim>\<open>aof/manifest.go\<close>): the last works on a file system that
  maps paths to contents, and a record of faults makes every error return reachable. The loops of \<^verbatim>\<open>Load\<close> recurse on the bytes
  left, and are total.

  Server, Handlers, Dispatch (\<^verbatim>\<open>server/server.go\<close>, \<^verbatim>\<open>commad_handlers.go\<close>): the record \<open>Server\<close> has the fields of \<^verbatim>\<open>Server\<close> (less
  its mutexes and logger), with clients in an object table because they are shared by pointer, and what was written to each
  connection. An \<open>env\<close> holds what one step gets from outside: time, random levels, the iteration order of maps, write faults.
  Handlers return bytes or the request to wait in \<^verbatim>\<open>BLPOP\<close>. \<open>command_table\<close> is \<^verbatim>\<open>NewServer\<close>'s table.

  \<open>Execute\<close>, \<open>exec_queue\<close> and \<open>exec_body\<close> are the view of one goroutine alone: they are what the replay at the start uses and what
  is proved of a transaction as a whole. In them a \<^verbatim>\<open>BLPOP\<close> ends by its timeout, and one without a timeout that would have to wait is
  \<open>Panic\<close>, which stands for not returning there. The system of Connection does not use them for commands that wait: there such a
  command blocks its goroutine, with the locks it holds, and a push of another goroutine may end the wait.

  Replication: the replica's side of the handshake and the dump it is sent.

  Connection: \<open>sys_step\<close> cuts the loop of each connection where goroutines can interleave: the arrival of a request with its
  run under the read lock, a wait in \<^verbatim>\<open>BLPOP\<close> (with the read lock held), the check of the watch flag, the call of \<^verbatim>\<open>Lock\<close>, its grant,
  each queued command of the transaction, a \<^verbatim>\<open>BLPOP\<close> in it that waits (with the write lock held), and logging, replicating and
  answering after the lock. The component \<open>Link\<close> is the goroutine that \<^verbatim>\<open>NewServer\<close> starts on a replica (\<^verbatim>\<open>StartReplica\<close>,
  \<^verbatim>\<open>processMasterCommands\<close>), whose commands run without the lock, so between any two steps of the connections. \<open>step\<close> is the
  transition relation. It has these limits. Commands that hold the read lock at once are run one after the other, each handler
  in one step. The calls of the store inside a handler are atomic in Go as well, by the store's mutex; what is left out is what may
  happen between two such calls of one handler (\<^verbatim>\<open>HandleGet\<close> and its removal of an expired key), and between such a call and what the
  handler reads afterwards without the mutex through the pointer to the entry that the call returned: the reply of \<^verbatim>\<open>INCR\<close>, the
  length that a push replies with, and the hash map and the skip list that \<^verbatim>\<open>ZRANGE\<close>, \<^verbatim>\<open>ZRANK\<close>, \<^verbatim>\<open>ZSCORE\<close>, \<^verbatim>\<open>ZCARD\<close> and the
  \<^verbatim>\<open>GEO\<close> commands read while a \<^verbatim>\<open>ZADD\<close> or \<^verbatim>\<open>ZREM\<close> may change them. With another goroutine in between, the code can reply with newer
  values there, or read a map while it is written; the theorems about the system do not speak of such runs. Log, replicas and
  reply of one command are one step as well, so that two connections' appends and sends do not interleave.

  ConnectionSteps takes a step of the system apart and has the invariant of \<^verbatim>\<open>executionMutex\<close> (\<open>locks_ok\<close>).

  Startup: \<open>NewServer\<close>, \<open>StartMaster\<close>, and \<open>StartReplica\<close> with \<open>processMasterCommands\<close> as one run without other goroutines
  (\<open>link_next_command\<close> relates its iterations to the steps of the link).

  Program (\<^verbatim>\<open>main.go\<close>, and \<^verbatim>\<open>GetConfig\<close>, \<^verbatim>\<open>ListenAndServe\<close> and \<^verbatim>\<open>Serve\<close> in \<^verbatim>\<open>server.go\<close>): \<open>main\<close> reads the flags as Go's
  package \<^verbatim>\<open>flag\<close> does, starts the server and hands it to the system of Connection.

  \<^bold>\<open>What the lemmas show.\<close>

  SkipListRep and SkipListCorrect relate the heap to the ordered list of its elements and prove each operation against it; the
  locale \<open>ordered_index\<close> is the contract the sorted sets use, interpreted on the skip list. StoreCorrect has the invariant
  \<open>store_ok\<close>, the refinement of \<^verbatim>\<open>ZADD\<close> to finite maps, service in order of waiting clients, and the locale
  \<open>keyspace\<close>. Resp and Rdb prove their codecs through the locale \<open>wire_codec\<close>. HandlersCorrect and ExecuteCorrect show that a
  request keeps the invariant and which requests panic, CommandSpec what the commands reply. ConnectionCorrect
  has the invariant of reachable states; with the locales \<open>preserved\<close> and \<open>frozen\<close> what never changes again after a
  deadlock or a leaked lock; and for endless behaviours with fair scheduling that a transaction gets its lock. \<open>transaction_runs\<close>
  relates the steps of a transaction to \<open>exec_queue\<close>. StartupCorrect composes: a restart rebuilds the key space, a replica follows its
  master, and the cases in which this fails. Program shows that what \<open>main\<close> starts keeps the invariant for ever.

  \<^bold>\<open>What the theorems assume.\<close>

  The invariant \<open>store_ok\<close> is false of the code after a \<^verbatim>\<open>ZADD\<close> that creates a key and names a member twice
  (\<open>zadd_fresh_key_duplicates_member\<close>), and NaN scores have no order. So theorems on whole requests have the hypothesis \<open>clean_request\<close>,
  and those on the system are about \<open>clean_step\<close>: no \<^verbatim>\<open>ZADD\<close> with a member twice or a NaN. The theorems on write
  commands assume that no client waits in \<^verbatim>\<open>BLPOP\<close> (\<open>idle\<close>). Those on restart and replication speak of sessions:
  one command at a time, all successful, by clients outside a transaction, with deadlines that mean the same at the other clock. The
  statement on the lock (\<open>exec_gets_lock\<close>) assumes timeouts on every \<^verbatim>\<open>BLPOP\<close>, no leaked read lock, and fair scheduling.

  WriteSpec states what each write command does to an abstract key space, a finite map to strings, lists and score maps with
  deadlines (\<open>spec_write\<close>), and proves that \<^verbatim>\<open>Execute\<close> refines it whenever no client is waiting in \<^verbatim>\<open>BLPOP\<close>; deliveries to waiting
  clients are in StoreCorrect. The restart and replica theorems rest on it: clock and coin flips of the replay may differ from those
  of the original run, as long as a deadline means the same (\<open>same_effect\<close>); an expiry that was given relative to the clock is counted
  anew (\<open>restart_extends_expiry\<close>). They speak of commands that succeed and of clients that take turns; with a command that fails
  (\<open>failed_write_prevents_restart\<close>), a discarded transaction (\<open>discarded_command_returns_after_restart\<close>) or two clients between lock
  and log at once (\<open>restart_can_undo_a_write\<close>) they would be false of the code, and these theorems say how.

  \<^bold>\<open>Not modelled.\<close>

  \<^verbatim>\<open>bench/compare_redis.go\<close>, a separate program that measures a running server. In \<^verbatim>\<open>server.go\<close>, \<^verbatim>\<open>IsValidMasterConf\<close>, which nothing
  calls and which dials the network, and logging, which is output only.
  \<^verbatim>\<open>ParseResponse\<close> and the \<^verbatim>\<open>Unmarshal\<close> methods of \<^verbatim>\<open>BulkError\<close> and \<^verbatim>\<open>NullBulkString\<close>, which have empty bodies. Deadlines of connections appear only
  as failing writes. A compiler that fuses floating-point multiplication and addition would round some distances differently.
\<close>

end
